(* ===== verification/Prelude.thy ===== *)
theory Prelude
  imports Main "HOL-Library.Word"
begin

text \<open>
  The shared base of the development: the theorem collections the component proofs draw
  on, the loop ``first index that satisfies a test'' that the C code writes as a bounded
  \<open>for\<close> over a fixed array in eight places, facts about updating and counting such
  arrays, and the 32-bit view of a C \<open>int\<close>.
\<close>

named_theorems cbuf_simps "facts about fixed-size character buffers"
named_theorems mutex_simps "transitions of the mutex automaton"
named_theorems fd_simps "descriptor bookkeeping of system-call traces"
named_theorems keeps "operations keep the invariant of their component"


section \<open>Bounded search loops\<close>

text \<open>
  \<open>for (i = 0; i < N; i++) if (test(a[i])) { ...; break; }\<close>: the index at which the
  body runs, or nothing when the loop falls through.
\<close>

fun first_index :: "('a \<Rightarrow> bool) \<Rightarrow> 'a list \<Rightarrow> nat option" where
  "first_index P [] = None"
| "first_index P (x # xs) = (if P x then Some 0 else map_option Suc (first_index P xs))"

text \<open>The value a C \<open>int\<close> holds after a computation whose exact result is \<open>x\<close>.\<close>

definition wrap32 :: "int \<Rightarrow> int" where
  "wrap32 x = signed_take_bit 31 x"


section \<open>Facts\<close>

lemma first_index_None_iff: "first_index P xs = None \<longleftrightarrow> (\<forall>x\<in>set xs. \<not> P x)"
  by (induction xs) auto

lemma first_index_Some_iff:
  "first_index P xs = Some i \<longleftrightarrow> i < length xs \<and> P (xs ! i) \<and> (\<forall>j<i. \<not> P (xs ! j))"
proof (induction xs arbitrary: i)
  case Nil
  then show ?case by simp
next
  case (Cons x xs)
  show ?case
  proof (cases i)
    case 0
    then show ?thesis by auto
  next
    case (Suc k)
    then show ?thesis
      using Cons.IH[of k] by (auto simp: All_less_Suc2)
  qed
qed

lemma first_index_SomeD:
  assumes "first_index P xs = Some i"
  shows "i < length xs" and "P (xs ! i)" and "j < i \<Longrightarrow> \<not> P (xs ! j)"
  using assms by (auto simp: first_index_Some_iff)

lemma first_index_unique:
  assumes "i < length xs" and "P (xs ! i)" and "\<And>j. j < length xs \<Longrightarrow> P (xs ! j) \<Longrightarrow> j = i"
  shows "first_index P xs = Some i"
proof -
  have "\<not> P (xs ! j)" if "j < i" for j
    using assms(1) assms(3)[of j] that by auto
  with assms(1,2) show ?thesis by (simp add: first_index_Some_iff)
qed

lemma first_index_ex: "x \<in> set xs \<Longrightarrow> P x \<Longrightarrow> \<exists>i. first_index P xs = Some i"
  by (metis first_index_None_iff not_Some_eq)

lemma first_index_replicate [simp]:
  "first_index P (replicate n x) = (if P x \<and> 0 < n then Some 0 else None)"
  by (induction n) auto

lemma first_index_cong:
  "(\<And>x. x \<in> set xs \<Longrightarrow> P x = Q x) \<Longrightarrow> first_index P xs = first_index Q xs"
  by (induction xs) auto

text \<open>Counting the occupied entries of a table under an update of one entry.\<close>

lemma length_filter_update:
  "i < length xs \<Longrightarrow>
   length (filter P (xs[i := v])) + (if P (xs ! i) then 1 else 0) =
   length (filter P xs) + (if P v then 1 else 0)"
proof (induction xs arbitrary: i)
  case Nil
  then show ?case by simp
next
  case (Cons x xs)
  then show ?case by (cases i) force+
qed

lemma length_filter_set:
  "i < length xs \<Longrightarrow> \<not> P (xs ! i) \<Longrightarrow> P v \<Longrightarrow>
   length (filter P (xs[i := v])) = Suc (length (filter P xs))"
  using length_filter_update[of i xs P v] by simp

lemma length_filter_clear:
  "i < length xs \<Longrightarrow> P (xs ! i) \<Longrightarrow> \<not> P v \<Longrightarrow>
   Suc (length (filter P (xs[i := v]))) = length (filter P xs)"
  using length_filter_update[of i xs P v] by simp

lemma wrap32_id [simp]: "- (2 ^ 31) \<le> x \<Longrightarrow> x < 2 ^ 31 \<Longrightarrow> wrap32 x = x"
  by (simp add: wrap32_def signed_take_bit_int_eq_self)

lemma wrap32_range: "- (2 ^ 31) \<le> wrap32 x \<and> wrap32 x < 2 ^ 31"
  unfolding wrap32_def
  using signed_take_bit_int_greater_eq_minus_exp[of 31 x] signed_take_bit_int_less_exp[of 31 x]
  by simp

text \<open>The members of a table under an update of one entry.\<close>

lemma set_update_member:
  "i < length xs \<Longrightarrow> xs ! i \<noteq> y \<Longrightarrow> y \<in> set (xs[i := x]) \<longleftrightarrow> y = x \<or> y \<in> set xs"
  by (metis in_set_conv_nth length_list_update nth_list_update_eq nth_list_update_neq)

lemma set_update_unique:
  assumes "i < length xs" and "\<And>j. j < length xs \<Longrightarrow> xs ! j = xs ! i \<Longrightarrow> j = i" and "xs ! i \<noteq> x"
  shows "xs ! i \<notin> set (xs[i := x])"
  using assms by (metis in_set_conv_nth length_list_update nth_list_update_eq nth_list_update_neq)

end
