(* ===== verification/C_Library.thy ===== *)
theory C_Library
  imports Prelude "HOL-Library.Sublist"
begin

text \<open>
  What the sources use of the C library, on the Linux target: character buffers with
  \<open>strncpy\<close> and \<open>snprintf\<close>, the conversions \<open>%d\<close> and \<open>%04d\<close>, \<open>strtol\<close>, the
  \<open>sscanf\<close> directive \<open>%d\<close> and \<open>strstr\<close>.

  A \<open>char a[N]\<close> is a list of exactly \<open>N\<close> characters. A \<open>const char *\<close> argument that is
  only read is the string up to its terminator, so a list without the character NUL
  (\<open>c_string\<close>); \<open>cstr b\<close> is the string a reader of the buffer \<open>b\<close> sees.
\<close>

abbreviation NUL :: char where "NUL \<equiv> CHR 0x00"

type_synonym cbuf = "char list"

definition cstr :: "cbuf \<Rightarrow> string" where
  "cstr b = takeWhile (\<lambda>c. c \<noteq> NUL) b"

definition c_string :: "string \<Rightarrow> bool" where
  "c_string s \<longleftrightarrow> NUL \<notin> set s"

definition terminated :: "cbuf \<Rightarrow> bool" where
  "terminated b \<longleftrightarrow> NUL \<in> set b"

definition zeroed :: "nat \<Rightarrow> cbuf" where
  "zeroed n = replicate n NUL"

text \<open>
  A buffer of size \<open>n\<close> whose last byte is NUL: what \<open>memset\<close> to zero establishes and
  \<open>strncpy\<close> with bound \<open>n - 1\<close> keeps.
\<close>

definition buf_ok :: "nat \<Rightarrow> cbuf \<Rightarrow> bool" where
  "buf_ok n b \<longleftrightarrow> 0 < n \<and> length b = n \<and> b ! (n - 1) = NUL"

text \<open>\<open>strncpy\<close> copies at most \<open>n\<close> characters and pads with NUL up to \<open>n\<close>; it writes no
  terminator when the source has \<open>n\<close> characters or more.\<close>

definition strncpy :: "string \<Rightarrow> nat \<Rightarrow> cbuf \<Rightarrow> cbuf" where
  "strncpy src n dst = take n (src @ replicate n NUL) @ drop n dst"

text \<open>\<open>snprintf\<close> with the formatted text: at most \<open>n - 1\<close> characters and a terminator.\<close>

definition snprintf :: "string \<Rightarrow> nat \<Rightarrow> cbuf \<Rightarrow> cbuf" where
  "snprintf txt n dst =
     (if n = 0 then dst
      else take (n - 1) txt @ [NUL] @ drop (Suc (length (take (n - 1) txt))) dst)"

text \<open>Conversions.\<close>

definition digit_char :: "nat \<Rightarrow> char" where
  "digit_char d = char_of (48 + d)"

definition is_digit :: "char \<Rightarrow> bool" where
  "is_digit c \<longleftrightarrow> 48 \<le> (of_char c :: nat) \<and> (of_char c :: nat) \<le> 57"

definition digit_val :: "char \<Rightarrow> nat" where
  "digit_val c = of_char c - 48"

definition isspace :: "char \<Rightarrow> bool" where
  "isspace c \<longleftrightarrow> c \<in> {CHR '' '', CHR 0x09, CHR 0x0A, CHR 0x0B, CHR 0x0C, CHR 0x0D}"

fun fmt_nat :: "nat \<Rightarrow> string" where
  "fmt_nat n = (if n < 10 then [digit_char n] else fmt_nat (n div 10) @ [digit_char (n mod 10)])"

declare fmt_nat.simps [simp del]

definition fmt_d :: "int \<Rightarrow> string" where
  "fmt_d i = (if i < 0 then CHR ''-'' # fmt_nat (nat (- i)) else fmt_nat (nat i))"

definition fmt_0d :: "nat \<Rightarrow> int \<Rightarrow> string" where
  "fmt_0d w i =
     (let ds = fmt_nat (nat \<bar>i\<bar>) in
      if i < 0 then CHR ''-'' # replicate (w - 1 - length ds) (CHR ''0'') @ ds
      else replicate (w - length ds) (CHR ''0'') @ ds)"

fun digits_val :: "nat \<Rightarrow> string \<Rightarrow> nat" where
  "digits_val a [] = a"
| "digits_val a (c # cs) = (if is_digit c then digits_val (10 * a + digit_val c) cs else a)"

text \<open>The optional sign and the digits of a decimal subject sequence, \<open>None\<close> when there is
  no digit; the value saturates at the bounds of a 64-bit \<open>long\<close>.\<close>

definition long_sat :: "int \<Rightarrow> int" where
  "long_sat x = max (- (2 ^ 63)) (min (2 ^ 63 - 1) x)"

fun decimal :: "string \<Rightarrow> int option" where
  "decimal (c # cs) =
     (if c = CHR ''-'' then
        (if cs \<noteq> [] \<and> is_digit (hd cs) then Some (long_sat (- int (digits_val 0 cs))) else None)
      else if c = CHR ''+'' then
        (if cs \<noteq> [] \<and> is_digit (hd cs) then Some (long_sat (int (digits_val 0 cs))) else None)
      else if is_digit c then Some (long_sat (int (digits_val 0 (c # cs))))
      else None)"
| "decimal [] = None"

definition strtol10 :: "string \<Rightarrow> int" where
  "strtol10 s = (case decimal (dropWhile isspace s) of None \<Rightarrow> 0 | Some v \<Rightarrow> v)"

text \<open>\<open>sscanf\<close> with \<open>%d\<close> stores the \<open>long\<close> it read into an \<open>int\<close>.\<close>

definition scan_d :: "string \<Rightarrow> int option" where
  "scan_d s = map_option wrap32 (decimal (dropWhile isspace s))"

fun strstr :: "string \<Rightarrow> string \<Rightarrow> string option" where
  "strstr [] pat = (if pat = [] then Some [] else None)"
| "strstr (c # cs) pat = (if prefix pat (c # cs) then Some (c # cs) else strstr cs pat)"


section \<open>Buffers\<close>

lemma length_zeroed [simp, cbuf_simps]: "length (zeroed n) = n"
  by (simp add: zeroed_def)

lemma cstr_zeroed [simp, cbuf_simps]: "cstr (zeroed n) = []"
  by (cases n) (simp_all add: zeroed_def cstr_def)

lemma buf_ok_zeroed [simp, cbuf_simps]: "buf_ok n (zeroed n) \<longleftrightarrow> 0 < n"
  by (auto simp: buf_ok_def zeroed_def)

lemma buf_ok_terminated: "buf_ok n b \<Longrightarrow> terminated b"
  unfolding buf_ok_def terminated_def by (metis diff_less nth_mem zero_less_one)

lemma length_strncpy [simp, cbuf_simps]:
  "n \<le> length dst \<Longrightarrow> length (strncpy src n dst) = length dst"
  by (simp add: strncpy_def)

lemma takeWhile_c_string: "c_string s \<Longrightarrow> takeWhile (\<lambda>c. c \<noteq> NUL) (s @ t) = s @ takeWhile (\<lambda>c. c \<noteq> NUL) t"
  by (induction s) (auto simp: c_string_def)

lemma c_string_take: "c_string s \<Longrightarrow> c_string (take n s)"
  by (auto simp: c_string_def dest: in_set_takeD)

lemma c_string_cstr [simp, cbuf_simps]: "c_string (cstr b)"
  by (auto simp: c_string_def cstr_def dest: set_takeWhileD)

lemma cstr_append_NUL: "c_string s \<Longrightarrow> cstr (s @ NUL # t) = s"
  by (simp add: cstr_def takeWhile_c_string)

text \<open>Bounded by the last index, \<open>strncpy\<close> leaves the last byte alone: a buffer whose
  last byte is NUL stays one, and reads back as the truncated source.\<close>

lemma buf_ok_strncpy [cbuf_simps, keeps]:
  assumes "buf_ok n b"
  shows "buf_ok n (strncpy src (n - 1) b)"
proof -
  have len: "length b = n" and pos: "0 < n" and last: "b ! (n - 1) = NUL"
    using assms by (auto simp: buf_ok_def)
  have "length (take (n - 1) (src @ replicate (n - 1) NUL)) = n - 1"
    by simp
  then have "strncpy src (n - 1) b ! (n - 1) = drop (n - 1) b ! 0"
    unfolding strncpy_def by (metis nth_append_length_plus Nat.add_0_right)
  with len pos last show ?thesis
    by (simp add: buf_ok_def)
qed

lemma cstr_strncpy [cbuf_simps]:
  assumes "buf_ok n b" and "c_string src"
  shows "cstr (strncpy src (n - 1) b) = take (n - 1) src"
proof -
  from assms(1) have len: "n - 1 < length b" "length b = n" "b ! (n - 1) = NUL"
    by (auto simp: buf_ok_def)
  then have "drop (n - 1) b = [NUL]"
    using Cons_nth_drop_Suc[OF len(1)] by simp
  then have eq: "strncpy src (n - 1) b =
      take (n - 1) src @ replicate (n - 1 - length src) NUL @ [NUL]"
    by (simp add: strncpy_def)
  have "replicate (n - 1 - length src) NUL @ [NUL] =
      NUL # replicate (n - 1 - length src) NUL"
    by (simp add: replicate_append_same)
  then show ?thesis
    using eq assms(2) by (simp add: cstr_append_NUL c_string_take)
qed

lemma strncpy_unterminated:
  assumes "c_string src" and "n \<le> length src" and "c_string (drop n dst)"
  shows "\<not> terminated (strncpy src n dst)"
  using assms by (auto simp: strncpy_def terminated_def c_string_def dest: in_set_takeD)

lemma snprintf_terminated: "0 < n \<Longrightarrow> terminated (snprintf txt n dst)"
  by (simp add: snprintf_def terminated_def)

lemma cstr_snprintf [cbuf_simps]:
  "0 < n \<Longrightarrow> c_string txt \<Longrightarrow> cstr (snprintf txt n dst) = take (n - 1) txt"
  by (simp add: snprintf_def cstr_append_NUL c_string_take)

lemma length_snprintf [cbuf_simps]:
  "n \<le> length dst \<Longrightarrow> length (snprintf txt n dst) = length dst"
  by (auto simp: snprintf_def min_def)


section \<open>Decimal conversions\<close>

lemma of_char_digit_char [simp]: "d < 10 \<Longrightarrow> (of_char (digit_char d) :: nat) = 48 + d"
  by (simp add: digit_char_def)

text \<open>Evaluation of closed conversions.\<close>

lemma digit_char_eval:
  "digit_char 0 = CHR ''0''" "digit_char (Suc 0) = CHR ''1''" "digit_char 1 = CHR ''1''"
  "digit_char 2 = CHR ''2''" "digit_char 3 = CHR ''3''" "digit_char 4 = CHR ''4''"
  "digit_char 5 = CHR ''5''" "digit_char 6 = CHR ''6''" "digit_char 7 = CHR ''7''"
  "digit_char 8 = CHR ''8''" "digit_char 9 = CHR ''9''"
  by code_simp+

lemmas fmt_eval = fmt_d_def fmt_nat.simps digit_char_eval

lemma is_digit_digit_char [simp]: "d < 10 \<Longrightarrow> is_digit (digit_char d)"
  by (simp add: is_digit_def)

lemma digit_val_digit_char [simp]: "d < 10 \<Longrightarrow> digit_val (digit_char d) = d"
  by (simp add: digit_val_def)

lemma not_is_digit [simp]:
  "\<not> is_digit (CHR ''-'')" "\<not> is_digit (CHR ''+'')" "\<not> is_digit NUL"
  by (simp_all add: is_digit_def)

lemma isspace_not_digit: "is_digit c \<Longrightarrow> \<not> isspace c"
  by (auto simp: is_digit_def isspace_def)

lemma fmt_nat_digits: "c \<in> set (fmt_nat n) \<Longrightarrow> is_digit c"
proof (induction n rule: fmt_nat.induct)
  case (1 n)
  then show ?case by (subst (asm) fmt_nat.simps) (auto split: if_splits)
qed

lemma fmt_nat_nonempty [simp]: "fmt_nat n \<noteq> []"
  by (subst fmt_nat.simps) simp

lemma c_string_fmt_nat [simp, cbuf_simps]: "c_string (fmt_nat n)"
  unfolding c_string_def using fmt_nat_digits not_is_digit(3) by blast

lemma c_string_fmt_d [simp, cbuf_simps]: "c_string (fmt_d i)"
  using c_string_fmt_nat by (auto simp: fmt_d_def c_string_def)

lemma c_string_append [simp, cbuf_simps]: "c_string (s @ t) \<longleftrightarrow> c_string s \<and> c_string t"
  by (auto simp: c_string_def)

lemma c_string_Cons [simp, cbuf_simps]: "c_string (c # s) \<longleftrightarrow> c \<noteq> NUL \<and> c_string s"
  by (auto simp: c_string_def)

lemma c_string_Nil [simp, cbuf_simps]: "c_string []"
  by (simp add: c_string_def)

lemma fmt_nat_bound: "n < 10 ^ k \<Longrightarrow> 0 < k \<Longrightarrow> length (fmt_nat n) \<le> k"
proof (induction n arbitrary: k rule: fmt_nat.induct)
  case (1 n)
  show ?case
  proof (cases "n < 10")
    case True
    with 1 show ?thesis by (subst fmt_nat.simps) simp
  next
    case False
    with "1.prems" have "1 < k" by (cases "k = 1") auto
    then obtain j where k: "k = Suc j" and "0 < j" by (cases k) auto
    with "1.prems" have "n div 10 < 10 ^ j" by (simp add: less_mult_imp_div_less mult.commute)
    with "1.IH" False \<open>0 < j\<close> have "length (fmt_nat (n div 10)) \<le> j" by simp
    with False k show ?thesis by (subst fmt_nat.simps) simp
  qed
qed

lemma digits_val_append:
  "(\<And>c. c \<in> set xs \<Longrightarrow> is_digit c) \<Longrightarrow> digits_val a (xs @ ys) = digits_val (digits_val a xs) ys"
  by (induction xs arbitrary: a) auto

lemma digits_val_fmt_nat: "digits_val 0 (fmt_nat n) = n"
proof (induction n rule: fmt_nat.induct)
  case (1 n)
  show ?case
  proof (cases "n < 10")
    case True
    then show ?thesis by (subst fmt_nat.simps) simp
  next
    case False
    with "1.IH" have "digits_val 0 (fmt_nat (n div 10)) = n div 10" by simp
    with False show ?thesis
      by (subst fmt_nat.simps) (simp add: digits_val_append fmt_nat_digits)
  qed
qed

lemma fmt_nat_Cons:
  obtains c cs where "fmt_nat n = c # cs" and "is_digit c" and "c \<noteq> CHR ''-''"
    and "c \<noteq> CHR ''+''" and "\<not> isspace c"
proof (cases "fmt_nat n")
  case Nil
  then show ?thesis by simp
next
  case (Cons c cs)
  then have "is_digit c" using fmt_nat_digits[of c n] by simp
  then show ?thesis using that[OF Cons] isspace_not_digit by (metis not_is_digit(1,2))
qed

lemma decimal_fmt_nat: "decimal (fmt_nat n) = Some (long_sat (int n))"
proof -
  obtain c cs where c: "fmt_nat n = c # cs" "is_digit c" "c \<noteq> CHR ''-''" "c \<noteq> CHR ''+''"
    by (rule fmt_nat_Cons)
  have "digits_val 0 (c # cs) = n" using digits_val_fmt_nat[of n] c(1) by simp
  then show ?thesis
    unfolding c(1) decimal.simps(1)[of c cs] by (simp only: c(2-4) if_True if_False)
qed

lemma decimal_minus_fmt_nat: "decimal (CHR ''-'' # fmt_nat n) = Some (long_sat (- int n))"
proof -
  obtain c cs where c: "fmt_nat n = c # cs" "is_digit c"
    by (rule fmt_nat_Cons)
  then have "fmt_nat n \<noteq> [] \<and> is_digit (hd (fmt_nat n))" by simp
  then show ?thesis by (simp add: digits_val_fmt_nat)
qed

lemma long_sat_id: "- (2 ^ 63) \<le> x \<Longrightarrow> x < 2 ^ 63 \<Longrightarrow> long_sat x = x"
  by (simp add: long_sat_def)

text \<open>Printing an \<open>int\<close> with \<open>%d\<close> and reading it back with \<open>%d\<close> is the identity.\<close>

lemma scan_d_fmt_d:
  assumes "- (2 ^ 31) \<le> i" and "i < 2 ^ 31"
  shows "scan_d (fmt_d i) = Some i"
proof -
  have ls: "long_sat i = i" using assms by (simp add: long_sat_id)
  have sp: "dropWhile isspace (fmt_d i) = fmt_d i"
  proof (cases "i < 0")
    case True
    then show ?thesis by (simp add: fmt_d_def isspace_def)
  next
    case False
    obtain c cs where "fmt_nat (nat i) = c # cs" "\<not> isspace c"
      by (rule fmt_nat_Cons)
    with False show ?thesis by (simp add: fmt_d_def)
  qed
  have "decimal (fmt_d i) = Some (long_sat i)"
    using decimal_fmt_nat[of "nat i"] decimal_minus_fmt_nat[of "nat (- i)"]
    by (cases "i < 0") (simp_all add: fmt_d_def del: decimal.simps)
  with sp ls assms show ?thesis by (simp add: scan_d_def)
qed

lemma fmt_d_inj:
  assumes "fmt_d i = fmt_d j" and "- (2 ^ 31) \<le> i" "i < 2 ^ 31" "- (2 ^ 31) \<le> j" "j < 2 ^ 31"
  shows "i = j"
proof -
  have "Some i = scan_d (fmt_d i)" using scan_d_fmt_d[OF assms(2,3)] ..
  also have "\<dots> = scan_d (fmt_d j)" by (simp only: assms(1))
  also have "\<dots> = Some j" by (rule scan_d_fmt_d[OF assms(4,5)])
  finally show ?thesis by simp
qed


section \<open>Substring search\<close>

lemma strstr_Some: "strstr s pat = Some t \<Longrightarrow> suffix t s \<and> prefix pat t"
proof (induction s)
  case Nil
  then show ?case by (auto split: if_splits)
next
  case (Cons c cs)
  then show ?case by (auto split: if_splits intro: suffix_ConsI)
qed

lemma strstr_None_iff: "strstr s pat = None \<longleftrightarrow> \<not> sublist pat s"
proof (induction s)
  case Nil
  then show ?case by simp
next
  case (Cons c cs)
  then show ?case by (auto simp: sublist_Cons_right)
qed

lemma strstr_append:
  assumes "strstr (s @ pat) pat = Some pat"
  shows "strstr (s @ pat @ t) pat = Some (pat @ t)"
  using assms
proof (induction s)
  case Nil
  then show ?case by (cases pat; cases t) auto
next
  case (Cons c cs)
  show ?case
  proof (cases "prefix pat (c # cs @ pat)")
    case True
    with Cons.prems have "c # cs @ pat = pat" by simp
    then have "length (c # cs @ pat) = length pat" by presburger
    then show ?thesis by simp
  next
    case False
    have "\<not> prefix pat (c # cs @ pat @ t)"
    proof
      assume "prefix pat (c # cs @ pat @ t)"
      then have "prefix pat ((c # cs @ pat) @ t)" by simp
      then have "prefix pat (c # cs @ pat)"
        by (auto intro: prefix_length_prefix[of _ "(c # cs @ pat) @ t"])
      with False show False ..
    qed
    with Cons False show ?thesis by simp
  qed
qed

end
