(* ===== verification/Nearcade_Types.thy ===== *)
theory Nearcade_Types
  imports C_Library
begin

unbundle bit_operations_syntax

text \<open>
  \<open>include/nearcade.h\<close>: the limits, enumerations and structures of the public C API, the
  byte layout of the packed gamepad packet that travels on the input data channel, and the
  textual viewer ids \<open>viewer_N\<close> by which the components name a viewer to each other.

  Enumerations are datatypes with the constructors of the source. A C caller can pass any
  \<open>int\<close> for an enumeration, which matters only where the code has a \<open>default\<close> branch:
  \<open>nearcade_ctrl_type\<close> has the extra constructor \<open>NEARCADE_CTRL_OTHER\<close> for it, and
  \<open>nearcade_pixel_format\<close>, to which the Godot binding casts an \<open>int\<close>, one of its own.
\<close>

abbreviation (input) MAX_VIEWERS :: nat where "MAX_VIEWERS \<equiv> 64"
abbreviation (input) MAX_SLOTS :: nat where "MAX_SLOTS \<equiv> 16"
abbreviation (input) NEARCADE_DEVICE_NAME_LEN :: nat where "NEARCADE_DEVICE_NAME_LEN \<equiv> 32"
abbreviation (input) NEARCADE_VIEWER_ID_LEN :: nat where "NEARCADE_VIEWER_ID_LEN \<equiv> 64"

text \<open>The platforms the build distinguishes: which input backend and which capture code is
  compiled in.\<close>

datatype platform = Linux | Windows | MacOS

record nearcade_config =
  port :: int
  screen_width :: int
  screen_height :: int
  max_bitrate :: int
  fps :: int
  enable_audio :: int
  turn_url :: "string option"
  turn_username :: "string option"
  turn_credential :: "string option"

definition NEARCADE_DEFAULT_CONFIG :: nearcade_config where
  "NEARCADE_DEFAULT_CONFIG =
     \<lparr>port = 3000, screen_width = 1920, screen_height = 1080, max_bitrate = 8000000,
      fps = 60, enable_audio = 0, turn_url = None, turn_username = None,
      turn_credential = None\<rparr>"

datatype nearcade_error =
    NEARCADE_OK
  | NEARCADE_ERR_INIT
  | NEARCADE_ERR_PERMISSION
  | NEARCADE_ERR_NO_DEVICE
  | NEARCADE_ERR_SLOT_FULL
  | NEARCADE_ERR_INVALID_ARG
  | NEARCADE_ERR_NETWORK
  | NEARCADE_ERR_CAPTURE

fun error_code :: "nearcade_error \<Rightarrow> int" where
  "error_code NEARCADE_OK = 0"
| "error_code NEARCADE_ERR_INIT = -1"
| "error_code NEARCADE_ERR_PERMISSION = -2"
| "error_code NEARCADE_ERR_NO_DEVICE = -3"
| "error_code NEARCADE_ERR_SLOT_FULL = -4"
| "error_code NEARCADE_ERR_INVALID_ARG = -5"
| "error_code NEARCADE_ERR_NETWORK = -6"
| "error_code NEARCADE_ERR_CAPTURE = -7"

datatype nearcade_ctrl_type =
    NEARCADE_CTRL_XBOX360
  | NEARCADE_CTRL_XBOXONE
  | NEARCADE_CTRL_DS4
  | NEARCADE_CTRL_DUALSENSE
  | NEARCADE_CTRL_SWITCH_PRO
  | NEARCADE_CTRL_OTHER int

datatype nearcade_input_mode =
    NEARCADE_INPUT_GAMEPAD
  | NEARCADE_INPUT_KBM
  | NEARCADE_INPUT_KBM_EMULATED
  | NEARCADE_INPUT_DISABLED

datatype nearcade_pixel_format =
    NEARCADE_PIX_FMT_RGBA
  | NEARCADE_PIX_FMT_NV12
  | NEARCADE_PIX_FMT_I420
  | NEARCADE_PIX_FMT_OTHER int

definition pixel_format_of :: "int \<Rightarrow> nearcade_pixel_format" where
  "pixel_format_of i =
     (if i = 0 then NEARCADE_PIX_FMT_RGBA
      else if i = 1 then NEARCADE_PIX_FMT_NV12
      else if i = 2 then NEARCADE_PIX_FMT_I420
      else NEARCADE_PIX_FMT_OTHER i)"

text \<open>The button masks of the public header.\<close>

definition NEARCADE_BTN_A :: int where "NEARCADE_BTN_A = push_bit 0 1"
definition NEARCADE_BTN_B :: int where "NEARCADE_BTN_B = push_bit 1 1"
definition NEARCADE_BTN_Y :: int where "NEARCADE_BTN_Y = push_bit 2 1"
definition NEARCADE_BTN_X :: int where "NEARCADE_BTN_X = push_bit 3 1"
definition NEARCADE_BTN_LB :: int where "NEARCADE_BTN_LB = push_bit 4 1"
definition NEARCADE_BTN_RB :: int where "NEARCADE_BTN_RB = push_bit 5 1"
definition NEARCADE_BTN_BACK :: int where "NEARCADE_BTN_BACK = push_bit 8 1"
definition NEARCADE_BTN_START :: int where "NEARCADE_BTN_START = push_bit 9 1"
definition NEARCADE_BTN_LS :: int where "NEARCADE_BTN_LS = push_bit 10 1"
definition NEARCADE_BTN_RS :: int where "NEARCADE_BTN_RS = push_bit 11 1"
definition NEARCADE_BTN_GUIDE :: int where "NEARCADE_BTN_GUIDE = push_bit 16 1"

record nearcade_gamepad_packet =
  pkt_type :: "8 word"
  lx :: "16 word"
  ly :: "16 word"
  rx :: "16 word"
  ry :: "16 word"
  lt :: "8 word"
  rt :: "8 word"
  buttons :: "16 word"
  hx :: "8 word"
  hy :: "8 word"
  pkt_slot :: "8 word"

text \<open>The tagged union \<open>nearcade_event\<close>; the character arrays are buffers of the declared
  sizes, the two \<open>float\<close> fields of a rumble event their 32-bit patterns.\<close>

datatype nearcade_event =
    NEARCADE_EVENT_VIEWER_JOINED (ev_viewer_id: cbuf) (ev_name: cbuf)
  | NEARCADE_EVENT_VIEWER_LEFT (ev_viewer_id: cbuf)
  | NEARCADE_EVENT_INPUT_PACKET nearcade_gamepad_packet (ev_viewer_id: cbuf)
  | NEARCADE_EVENT_RUMBLE "8 word" "32 word" "32 word" int
  | NEARCADE_EVENT_SIGNALING (ev_viewer_id: cbuf) (ev_data: cbuf)
  | NEARCADE_EVENT_ERROR int (ev_message: cbuf)
  | NEARCADE_EVENT_STREAMING int

fun event_type :: "nearcade_event \<Rightarrow> int" where
  "event_type (NEARCADE_EVENT_VIEWER_JOINED _ _) = 0"
| "event_type (NEARCADE_EVENT_VIEWER_LEFT _) = 1"
| "event_type (NEARCADE_EVENT_INPUT_PACKET _ _) = 2"
| "event_type (NEARCADE_EVENT_RUMBLE _ _ _ _) = 3"
| "event_type (NEARCADE_EVENT_SIGNALING _ _) = 4"
| "event_type (NEARCADE_EVENT_ERROR _ _) = 5"
| "event_type (NEARCADE_EVENT_STREAMING _) = 6"

text \<open>
  The structure is packed and both ends are little-endian, so the packet in memory is this
  list of bytes; \<open>decode_packet\<close> is the \<open>memcpy\<close> from the received bytes into the
  structure.
\<close>

definition le16 :: "16 word \<Rightarrow> 8 word list" where
  "le16 w = [ucast w, ucast (drop_bit 8 w)]"

definition of_le16 :: "8 word \<Rightarrow> 8 word \<Rightarrow> 16 word" where
  "of_le16 lo hi = ucast lo OR push_bit 8 (ucast hi)"

definition encode_packet :: "nearcade_gamepad_packet \<Rightarrow> 8 word list" where
  "encode_packet p =
     [pkt_type p] @ le16 (lx p) @ le16 (ly p) @ le16 (rx p) @ le16 (ry p) @
     [lt p, rt p] @ le16 (buttons p) @ [hx p, hy p, pkt_slot p]"

definition decode_packet :: "8 word list \<Rightarrow> nearcade_gamepad_packet" where
  "decode_packet b =
     \<lparr>pkt_type = b ! 0,
      lx = of_le16 (b ! 1) (b ! 2), ly = of_le16 (b ! 3) (b ! 4),
      rx = of_le16 (b ! 5) (b ! 6), ry = of_le16 (b ! 7) (b ! 8),
      lt = b ! 9, rt = b ! 10,
      buttons = of_le16 (b ! 11) (b ! 12),
      hx = b ! 13, hy = b ! 14, pkt_slot = b ! 15\<rparr>"

definition sizeof_packet :: nat where
  "sizeof_packet = 1 + 2 + 2 + 2 + 2 + 1 + 1 + 2 + 1 + 1 + 1"

text \<open>\<open>snprintf(.., "viewer_%d", idx)\<close> and \<open>sscanf(.., "viewer_%d", &idx)\<close>.\<close>

definition viewer_id_of :: "int \<Rightarrow> string" where
  "viewer_id_of idx = ''viewer_'' @ fmt_d idx"

definition sscanf_viewer :: "string \<Rightarrow> int option" where
  "sscanf_viewer s = (if prefix ''viewer_'' s then scan_d (drop 7 s) else None)"


section \<open>Facts\<close>

lemma error_code_inj [simp]: "error_code a = error_code b \<longleftrightarrow> a = b"
  by (cases a; cases b) auto

lemma of_le16_le16: "of_le16 (ucast w) (ucast (drop_bit 8 w)) = (w :: 16 word)"
  unfolding of_le16_def by (rule bit_word_eqI) (auto simp: bit_simps)

lemma le16_of_le16: "le16 (of_le16 lo hi) = [lo, hi]"
proof -
  have "ucast (of_le16 lo hi) = lo"
    unfolding of_le16_def by (rule bit_word_eqI) (auto simp: bit_simps)
  moreover have "ucast (drop_bit 8 (of_le16 lo hi)) = hi"
    unfolding of_le16_def by (rule bit_word_eqI) (auto simp: bit_simps dest: bit_imp_le_length)
  ultimately show ?thesis by (simp add: le16_def)
qed

lemma length_encode_packet: "length (encode_packet p) = sizeof_packet"
  by (simp add: encode_packet_def le16_def sizeof_packet_def)

lemma decode_encode_packet: "decode_packet (encode_packet p @ rest) = p"
  by (simp add: decode_packet_def encode_packet_def le16_def of_le16_le16)

lemma length_16_expand:
  assumes "length b = 16"
  shows "b = [b!0, b!1, b!2, b!3, b!4, b!5, b!6, b!7, b!8, b!9, b!10, b!11, b!12, b!13, b!14, b!15]"
  using assms by (auto simp: list_eq_iff_nth_eq nth_Cons' less_Suc_eq numeral_eq_Suc)

lemma encode_decode_packet:
  assumes "length b = sizeof_packet"
  shows "encode_packet (decode_packet b) = b"
proof -
  from assms have "length b = 16" by (simp add: sizeof_packet_def)
  from length_16_expand[OF this] show ?thesis
    by (simp add: encode_packet_def decode_packet_def le16_of_le16)
qed

lemma c_string_viewer_id [simp, cbuf_simps]: "c_string (viewer_id_of i)"
  by (simp add: viewer_id_of_def)

lemma sscanf_viewer_id:
  assumes "- (2 ^ 31) \<le> i" and "i < 2 ^ 31"
  shows "sscanf_viewer (viewer_id_of i) = Some i"
  using scan_d_fmt_d[OF assms] by (simp add: sscanf_viewer_def viewer_id_of_def)

lemma fmt_d_short:
  assumes "- (2 ^ 31) \<le> i" and "i < 2 ^ 31"
  shows "length (fmt_d i) \<le> 11"
proof (cases "i < 0")
  case True
  then have "nat (- i) < 10 ^ 10" using assms by simp
  from fmt_nat_bound[OF this] True show ?thesis by (simp add: fmt_d_def)
next
  case False
  then have "nat i < 10 ^ 10" using assms by simp
  from fmt_nat_bound[OF this] False show ?thesis by (simp add: fmt_d_def)
qed

text \<open>A viewer id always fits its 64-byte array untruncated.\<close>

lemma cstr_viewer_id_buf:
  assumes "- (2 ^ 31) \<le> i" and "i < 2 ^ 31"
  shows "cstr (snprintf (viewer_id_of i) NEARCADE_VIEWER_ID_LEN b) = viewer_id_of i"
proof -
  have "length (viewer_id_of i) \<le> 63"
    using fmt_d_short[OF assms] by (simp add: viewer_id_of_def)
  then show ?thesis by (simp add: cstr_snprintf)
qed




section \<open>Properties\<close>

text \<open>
  The name of a viewer is a faithful address: \<open>viewer_N\<close> always fits the 64-byte arrays it
  is printed into, reading the number back with \<open>sscanf\<close> gives \<open>N\<close> for every \<open>int\<close>, so two
  viewers never share a name.
\<close>

lemma viewer_id_round_trip:
  assumes "- (2 ^ 31) \<le> i" and "i < 2 ^ 31" and "- (2 ^ 31) \<le> j" and "j < 2 ^ 31"
  shows "cstr (snprintf (viewer_id_of i) NEARCADE_VIEWER_ID_LEN b) = viewer_id_of i
    \<and> sscanf_viewer (viewer_id_of i) = Some i \<and> (viewer_id_of i = viewer_id_of j \<longleftrightarrow> i = j)"
  using cstr_viewer_id_buf[OF assms(1,2)] sscanf_viewer_id[OF assms(1,2)] sscanf_viewer_id[OF assms(3,4)]
  by (metis option.inject)

end
