(* ===== verification/Thread_Compat.thy ===== *)
theory Thread_Compat
  imports Prelude
begin

text \<open>
  \<open>src/thread_compat.h\<close>: the mutex and thread wrappers, in their POSIX and Windows variants.

  The components lock with the POSIX variant. A mutex is an
  automaton. \<open>Broken\<close> is absorbing and stands for every use the platform leaves
  undefined or that never returns: locking a mutex the thread already holds, unlocking a
  free one, using one that was never initialised or that was destroyed. A function of the
  model performs exactly the lock and unlock calls of its C body on each of its paths, so
  ``the mutex is \<open>Unlocked\<close> again'' says that no early return forgets to unlock and that
  no path locks twice.
\<close>

datatype mutex = Uninit | Unlocked | Locked | Broken

fun nearcade_mutex_init :: "int \<Rightarrow> mutex \<Rightarrow> int \<times> mutex" where
  "nearcade_mutex_init rc m = (rc, if rc = 0 then Unlocked else m)"

fun nearcade_mutex_lock :: "mutex \<Rightarrow> mutex" where
  "nearcade_mutex_lock Unlocked = Locked"
| "nearcade_mutex_lock _ = Broken"

fun nearcade_mutex_unlock :: "mutex \<Rightarrow> mutex" where
  "nearcade_mutex_unlock Locked = Unlocked"
| "nearcade_mutex_unlock _ = Broken"

fun nearcade_mutex_destroy :: "mutex \<Rightarrow> mutex" where
  "nearcade_mutex_destroy Unlocked = Uninit"
| "nearcade_mutex_destroy _ = Broken"

text \<open>
  The Windows variant wraps a slim reader-writer lock: initialising cannot fail, destroying
  does nothing, and zeroed memory is a free lock. \<open>SRW_stuck\<close> stands for acquiring a lock the
  thread already holds, which never returns, and for releasing one that is not held. The
  functions return 0; the lock they leave is given.
\<close>

datatype srwlock = SRW_free | SRW_held | SRW_stuck

fun win_mutex_init :: "srwlock \<Rightarrow> int \<times> srwlock" where
  "win_mutex_init m = (0, SRW_free)"

fun win_mutex_lock :: "srwlock \<Rightarrow> int \<times> srwlock" where
  "win_mutex_lock SRW_free = (0, SRW_held)"
| "win_mutex_lock _ = (0, SRW_stuck)"

fun win_mutex_unlock :: "srwlock \<Rightarrow> int \<times> srwlock" where
  "win_mutex_unlock SRW_held = (0, SRW_free)"
| "win_mutex_unlock _ = (0, SRW_stuck)"

fun win_mutex_destroy :: "srwlock \<Rightarrow> int \<times> srwlock" where
  "win_mutex_destroy m = (0, m)"

text \<open>
  Threads. On Windows the structure keeps the function and its argument, and the thread that
  \<open>CreateThread\<close> starts, \<open>created\<close> being its answer and 0 a failure, calls the one on the
  other. On POSIX the answer of \<open>pthread_create\<close> is passed on.
\<close>

record ('a, 'r) nearcade_thread_t =
  t_handle :: nat
  t_func :: "'a \<Rightarrow> 'r"
  t_arg :: 'a

definition nearcade_thread_trampoline :: "('a, 'r) nearcade_thread_t \<Rightarrow> 'r \<times> nat" where
  "nearcade_thread_trampoline t = (t_func t (t_arg t), 0)"

definition win_thread_create ::
    "nat \<Rightarrow> ('a \<Rightarrow> 'r) \<Rightarrow> 'a \<Rightarrow> ('a, 'r) nearcade_thread_t \<Rightarrow> int \<times> ('a, 'r) nearcade_thread_t" where
  "win_thread_create created start a t =
     (let t = t\<lparr>t_func := start\<rparr>; t = t\<lparr>t_arg := a\<rparr>; t = t\<lparr>t_handle := created\<rparr>
      in (if t_handle t \<noteq> 0 then 0 else -1, t))"

definition posix_thread_create :: "int \<Rightarrow> ('a \<Rightarrow> 'r) \<Rightarrow> 'a \<Rightarrow> int \<times> (unit \<Rightarrow> 'r) option" where
  "posix_thread_create rc start a = (rc, if rc = 0 then Some (\<lambda>_. start a) else None)"

text \<open>A sequence of calls on one mutex, in either variant.\<close>

datatype mutex_op = M_init | M_lock | M_unlock | M_destroy

fun posix_mutex :: "mutex_op \<Rightarrow> mutex \<Rightarrow> mutex" where
  "posix_mutex M_init m = snd (nearcade_mutex_init 0 m)"
| "posix_mutex M_lock m = nearcade_mutex_lock m"
| "posix_mutex M_unlock m = nearcade_mutex_unlock m"
| "posix_mutex M_destroy m = nearcade_mutex_destroy m"

fun win_mutex :: "mutex_op \<Rightarrow> srwlock \<Rightarrow> srwlock" where
  "win_mutex M_init m = snd (win_mutex_init m)"
| "win_mutex M_lock m = snd (win_mutex_lock m)"
| "win_mutex M_unlock m = snd (win_mutex_unlock m)"
| "win_mutex M_destroy m = snd (win_mutex_destroy m)"

text \<open>What the two variants have in common.\<close>

fun same_lock :: "mutex \<Rightarrow> srwlock \<Rightarrow> bool" where
  "same_lock Uninit w = (w = SRW_free)"
| "same_lock Unlocked w = (w = SRW_free)"
| "same_lock Locked w = (w = SRW_held)"
| "same_lock Broken w = True"


section \<open>Facts\<close>

lemma lock_unlock [simp, mutex_simps]:
  "nearcade_mutex_unlock (nearcade_mutex_lock m) = Unlocked \<longleftrightarrow> m = Unlocked"
  by (cases m) auto

lemma lock_unlock_Uninit [simp, mutex_simps]:
  "nearcade_mutex_unlock (nearcade_mutex_lock m) \<noteq> Uninit"
  by (cases m) auto

lemma locked_iff [simp, mutex_simps]: "nearcade_mutex_lock m = Locked \<longleftrightarrow> m = Unlocked"
  by (cases m) auto

lemma win_thread_runs:
  assumes "win_thread_create created start a t = (0, t')"
  shows "nearcade_thread_trampoline t' = (start a, 0)"
  using assms by (auto simp: win_thread_create_def nearcade_thread_trampoline_def Let_def split: if_splits)

lemma win_thread_fails: "fst (win_thread_create created start a t) = (if created = 0 then -1 else 0)"
  by (simp add: win_thread_create_def)

lemma same_lock_step: "same_lock m w \<Longrightarrow> same_lock (posix_mutex p m) (win_mutex p w)"
  by (cases p; cases m; cases w) simp_all

lemma same_lock_run: "same_lock m w \<Longrightarrow> same_lock (fold posix_mutex ps m) (fold win_mutex ps w)"
  by (induction ps arbitrary: m w) (simp_all add: same_lock_step)

text \<open>
  The two variants of the mutex agree. For any sequence of calls on a mutex in zeroed
  memory whose initialisations succeed, if the POSIX mutex is used correctly then the Windows one
  neither blocks for ever nor is released when free, and one is held exactly when the other is: a
  program checked against the POSIX rules runs the same way on Windows.
\<close>

lemma windows_mutex_agrees:
  assumes "fold posix_mutex ps Uninit \<noteq> Broken"
  shows "fold win_mutex ps SRW_free \<noteq> SRW_stuck
    \<and> (fold win_mutex ps SRW_free = SRW_held \<longleftrightarrow> fold posix_mutex ps Uninit = Locked)"
  using assms same_lock_run[of Uninit SRW_free ps] by (cases "fold posix_mutex ps Uninit") simp_all

end
