(* ===== verification/Slot_Table.thy ===== *)
theory Slot_Table
  imports Prelude
begin

text \<open>
  The contract of a fixed table whose entries are handed out first-fit: the controller
  slots of \<open>slot_claim\<close> and \<open>slot_release\<close>, and the viewer connections of the signaling
  server. A client sees a partial map from indices to owners. The lemmas are proved from
  the contract once and reach both tables through their interpretations.
\<close>

locale slot_table =
  fixes inv :: "'s \<Rightarrow> bool"
    and owner :: "'s \<Rightarrow> nat \<Rightarrow> 'k option"
    and cap :: nat
    and key :: "'a \<Rightarrow> 'k"
    and adm :: "'a \<Rightarrow> bool"
    and claim :: "'a \<Rightarrow> 's \<Rightarrow> int \<times> 's"
    and release :: "int \<Rightarrow> 's \<Rightarrow> 's"
  assumes owner_range: "inv s \<Longrightarrow> cap \<le> i \<Longrightarrow> owner s i = None"
    and claim_inv: "inv s \<Longrightarrow> adm a \<Longrightarrow> inv (snd (claim a s))"
    and claim_free: "inv s \<Longrightarrow> adm a \<Longrightarrow> fst (claim a s) = int i \<Longrightarrow>
          i < cap \<and> owner s i = None \<and> (\<forall>j<i. owner s j \<noteq> None)"
    and claim_owner: "inv s \<Longrightarrow> adm a \<Longrightarrow> fst (claim a s) = int i \<Longrightarrow>
          owner (snd (claim a s)) = (owner s)(i \<mapsto> key a)"
    and claim_full: "inv s \<Longrightarrow> adm a \<Longrightarrow> fst (claim a s) < 0 \<Longrightarrow>
          (\<forall>i<cap. owner s i \<noteq> None) \<and> owner (snd (claim a s)) = owner s"
    and release_inv: "inv s \<Longrightarrow> inv (release r s)"
    and release_owner: "inv s \<Longrightarrow> owner (release r s) =
          (if 0 \<le> r \<and> r < int cap then (owner s)(nat r := None) else owner s)"
begin

definition occupied :: "'s \<Rightarrow> nat set" where
  "occupied s = {i. owner s i \<noteq> None}"

lemma occupied_subset: "inv s \<Longrightarrow> occupied s \<subseteq> {..<cap}"
proof
  fix i
  assume "inv s" and "i \<in> occupied s"
  then show "i \<in> {..<cap}"
    using owner_range[of s i] by (cases "i < cap") (auto simp: occupied_def)
qed

lemma occupied_finite: "inv s \<Longrightarrow> finite (occupied s)"
  using occupied_subset finite_subset by blast

lemma occupied_card: "inv s \<Longrightarrow> card (occupied s) \<le> cap"
  using occupied_subset card_mono[of "{..<cap}"] by fastforce

lemma occupied_full:
  assumes "inv s"
  shows "card (occupied s) = cap \<longleftrightarrow> (\<forall>i<cap. owner s i \<noteq> None)"
proof
  assume "card (occupied s) = cap"
  then have "occupied s = {..<cap}"
    using occupied_subset[OF assms] by (simp add: card_subset_eq)
  then show "\<forall>i<cap. owner s i \<noteq> None" by (auto simp: occupied_def)
next
  assume "\<forall>i<cap. owner s i \<noteq> None"
  then have "occupied s = {..<cap}"
    using occupied_subset[OF assms] by (auto simp: occupied_def)
  then show "card (occupied s) = cap" by simp
qed

text \<open>A claim succeeds exactly while an entry is free.\<close>

lemma claim_succeeds_iff:
  assumes "inv s" and "adm a"
  shows "0 \<le> fst (claim a s) \<longleftrightarrow> card (occupied s) < cap"
proof
  assume "0 \<le> fst (claim a s)"
  then obtain i where "fst (claim a s) = int i" by (metis nonneg_int_cases)
  from claim_free[OF assms this] have "\<not> (\<forall>i<cap. owner s i \<noteq> None)" by blast
  then show "card (occupied s) < cap"
    using occupied_full[OF assms(1)] occupied_card[OF assms(1)] by (metis le_neq_implies_less)
next
  assume "card (occupied s) < cap"
  then show "0 \<le> fst (claim a s)"
    using claim_full[OF assms] occupied_full[OF assms(1)] by fastforce
qed

lemma claim_occupied:
  assumes "inv s" and "adm a" and "fst (claim a s) = int i"
  shows "occupied (snd (claim a s)) = insert i (occupied s)" and "i \<notin> occupied s"
  using claim_owner[OF assms] claim_free[OF assms] by (auto simp: occupied_def)

text \<open>Claims that follow one another never hand out the same entry, and an entry that was
  claimed and released is as before.\<close>

lemma claim_twice_distinct:
  assumes "inv s" and "adm a" and "adm b"
    and "fst (claim a s) = int i" and "fst (claim b (snd (claim a s))) = int j"
  shows "i \<noteq> j"
proof -
  have "inv (snd (claim a s))" using assms by (simp add: claim_inv)
  with assms show ?thesis
    using claim_occupied(1)[OF assms(1,2,4)] claim_occupied(2)[OF _ assms(3,5)] by auto
qed

lemma claim_release:
  assumes "inv s" and "adm a" and "fst (claim a s) = int i"
  shows "owner (release (int i) (snd (claim a s))) = owner s"
  using claim_inv[OF assms(1,2)] claim_owner[OF assms] claim_free[OF assms]
  by (simp add: release_owner fun_eq_iff)

lemma release_then_claim:
  assumes "inv s" and "adm a" and "0 \<le> r" and "r < int cap"
  shows "0 \<le> fst (claim a (release r s))"
proof -
  have "inv (release r s)" and "owner (release r s) (nat r) = None"
    using assms by (simp_all add: release_inv release_owner)
  moreover have "nat r < cap" using assms by simp
  ultimately have "\<not> fst (claim a (release r s)) < 0"
    using claim_full[of "release r s" a] assms(2) by blast
  then show ?thesis by simp
qed

text \<open>A whole run of claims: the results, in order.\<close>

fun claims :: "'a list \<Rightarrow> 's \<Rightarrow> int list \<times> 's" where
  "claims [] s = ([], s)"
| "claims (a # as) s =
     (let (i, s') = claim a s; (is, s'') = claims as s' in (i # is, s''))"

lemma claims_fill:
  assumes "inv s" and "\<forall>a\<in>set as. adm a" and "card (occupied s) + length as \<le> cap"
  shows "inv (snd (claims as s)) \<and> card (occupied (snd (claims as s))) = card (occupied s) + length as
    \<and> (\<forall>i\<in>set (fst (claims as s)). 0 \<le> i \<and> nat i \<notin> occupied s)
    \<and> distinct (fst (claims as s))"
  using assms
proof (induction as arbitrary: s)
  case Nil
  then show ?case by simp
next
  case (Cons a as)
  obtain i where i: "fst (claim a s) = int i"
    using claim_succeeds_iff[of s a] Cons.prems by (metis add_lessD1 length_Cons less_add_same_cancel1
        linorder_not_less list.set_intros(1) nonneg_int_cases order_le_less_trans zero_less_Suc)
  let ?s = "snd (claim a s)"
  have inv: "inv ?s" and occ: "occupied ?s = insert i (occupied s)" "i \<notin> occupied s"
    using Cons.prems claim_inv claim_occupied[OF _ _ i] by auto
  have card: "card (occupied ?s) = Suc (card (occupied s))"
    using occ occupied_finite Cons.prems(1) by simp
  from Cons.IH[OF inv] Cons.prems card occ i show ?case
    by (fastforce simp: split_beta Let_def)
qed

end

end
