(* ===== verification/Slots.thy ===== *)
theory Slots
  imports Nearcade_Types Thread_Compat Slot_Table
begin

text \<open>
  The inline parts of \<open>src/nearcade_internal.h\<close>: log levels, the viewer record, the
  controller slot manager (\<open>slot_claim\<close>, \<open>slot_release\<close>) and the identity tables of the
  emulated controllers. The slot manager is an interpretation of the first-fit contract of
  theory \<open>Slot_Table\<close>.
\<close>

datatype nearcade_loglevel =
    NEARCADE_LOG_NONE
  | NEARCADE_LOG_ERROR
  | NEARCADE_LOG_WARN
  | NEARCADE_LOG_INFO
  | NEARCADE_LOG_DEBUG
  | NEARCADE_LOG_TRACE

fun loglevel_num :: "nearcade_loglevel \<Rightarrow> int" where
  "loglevel_num NEARCADE_LOG_NONE = 0"
| "loglevel_num NEARCADE_LOG_ERROR = 1"
| "loglevel_num NEARCADE_LOG_WARN = 2"
| "loglevel_num NEARCADE_LOG_INFO = 3"
| "loglevel_num NEARCADE_LOG_DEBUG = 4"
| "loglevel_num NEARCADE_LOG_TRACE = 5"

text \<open>The levels are ordered as their numbers.\<close>

instantiation nearcade_loglevel :: linorder
begin

definition less_eq_nearcade_loglevel :: "nearcade_loglevel \<Rightarrow> nearcade_loglevel \<Rightarrow> bool" where
  "less_eq_nearcade_loglevel a b \<longleftrightarrow> loglevel_num a \<le> loglevel_num b"

definition less_nearcade_loglevel :: "nearcade_loglevel \<Rightarrow> nearcade_loglevel \<Rightarrow> bool" where
  "less_nearcade_loglevel a b \<longleftrightarrow> loglevel_num a < loglevel_num b"

instance
proof
  fix a b :: nearcade_loglevel
  show "a \<le> b \<Longrightarrow> b \<le> a \<Longrightarrow> a = b"
    by (cases a; cases b) (simp_all add: less_eq_nearcade_loglevel_def)
qed (auto simp: less_eq_nearcade_loglevel_def less_nearcade_loglevel_def)

end

text \<open>The \<open>NEARCADE_LOG\<close> macro prints exactly when the level is at most \<open>g_loglevel\<close>.\<close>

definition log_enabled :: "int \<Rightarrow> nearcade_loglevel \<Rightarrow> bool" where
  "log_enabled g_loglevel level \<longleftrightarrow> loglevel_num level \<le> g_loglevel"

text \<open>The types of packets the header names.\<close>

definition packet_types :: "(string \<times> 8 word) list" where
  "packet_types =
     [(''PKT_GAMEPAD'', 0x01), (''PKT_MOUSE_REL'', 0x02), (''PKT_MOUSE_ABS'', 0x03), (''PKT_MOUSE_BTN'', 0x04),
      (''PKT_WHEEL'', 0x05), (''PKT_KEY'', 0x06), (''PKT_ALLOC_GP'', 0x10), (''PKT_FREE_GP'', 0x11),
      (''PKT_FLUSH'', 0x20), (''PKT_DESTROY'', 0xFF)]"

record viewer_info =
  v_id :: cbuf
  v_name :: cbuf
  v_slot :: int
  v_active :: bool
  v_mode :: nearcade_input_mode
  v_ctrl_type :: nearcade_ctrl_type
  v_slot_allocated :: int

record slot_manager =
  slot_map :: "int list"
  slot_viewers :: "cbuf list"
  slots_lock :: mutex

definition slot_claim :: "string option \<Rightarrow> nearcade_ctrl_type \<Rightarrow> slot_manager \<Rightarrow> int \<times> slot_manager" where
  "slot_claim viewer_id ctrl sm =
     (case viewer_id of
        None \<Rightarrow> (-1, sm)
      | Some vid \<Rightarrow>
          let sm = sm\<lparr>slots_lock := nearcade_mutex_lock (slots_lock sm)\<rparr> in
          (case first_index (\<lambda>m. m = 0) (slot_map sm) of
             Some i \<Rightarrow>
               (int i,
                sm\<lparr>slot_map := (slot_map sm)[i := 1],
                   slot_viewers := (slot_viewers sm)
                     [i := strncpy vid (NEARCADE_VIEWER_ID_LEN - 1) (slot_viewers sm ! i)],
                   slots_lock := nearcade_mutex_unlock (slots_lock sm)\<rparr>)
           | None \<Rightarrow> (-1, sm\<lparr>slots_lock := nearcade_mutex_unlock (slots_lock sm)\<rparr>)))"

definition slot_release :: "int \<Rightarrow> slot_manager \<Rightarrow> slot_manager" where
  "slot_release slot sm =
     (if slot < 0 \<or> slot \<ge> int MAX_SLOTS then sm
      else
        let sm = sm\<lparr>slots_lock := nearcade_mutex_lock (slots_lock sm)\<rparr> in
        if slot_map sm ! nat slot = 0
        then sm\<lparr>slots_lock := nearcade_mutex_unlock (slots_lock sm)\<rparr>
        else sm\<lparr>slot_map := (slot_map sm)[nat slot := 0],
                slot_viewers := (slot_viewers sm)[nat slot := zeroed NEARCADE_VIEWER_ID_LEN],
                slots_lock := nearcade_mutex_unlock (slots_lock sm)\<rparr>)"

fun ctrl_name :: "nearcade_ctrl_type \<Rightarrow> string" where
  "ctrl_name NEARCADE_CTRL_XBOX360 = ''Xbox 360 Controller''"
| "ctrl_name NEARCADE_CTRL_XBOXONE = ''Xbox One Controller''"
| "ctrl_name NEARCADE_CTRL_DS4 = ''Wireless Controller''"
| "ctrl_name NEARCADE_CTRL_DUALSENSE = ''DualSense Wireless Controller''"
| "ctrl_name NEARCADE_CTRL_SWITCH_PRO = ''Pro Controller''"
| "ctrl_name _ = ''Xbox 360 Controller''"

fun ctrl_vendor :: "nearcade_ctrl_type \<Rightarrow> 16 word" where
  "ctrl_vendor NEARCADE_CTRL_XBOX360 = 0x045E"
| "ctrl_vendor NEARCADE_CTRL_XBOXONE = 0x045E"
| "ctrl_vendor NEARCADE_CTRL_DS4 = 0x054C"
| "ctrl_vendor NEARCADE_CTRL_DUALSENSE = 0x054C"
| "ctrl_vendor NEARCADE_CTRL_SWITCH_PRO = 0x057E"
| "ctrl_vendor _ = 0x045E"

fun ctrl_product :: "nearcade_ctrl_type \<Rightarrow> 16 word" where
  "ctrl_product NEARCADE_CTRL_XBOX360 = 0x028E"
| "ctrl_product NEARCADE_CTRL_XBOXONE = 0x02EA"
| "ctrl_product NEARCADE_CTRL_DS4 = 0x09CC"
| "ctrl_product NEARCADE_CTRL_DUALSENSE = 0x0CE6"
| "ctrl_product NEARCADE_CTRL_SWITCH_PRO = 0x2009"
| "ctrl_product _ = 0x028E"

fun ctrl_version :: "nearcade_ctrl_type \<Rightarrow> 16 word" where
  "ctrl_version NEARCADE_CTRL_XBOX360 = 0x0110"
| "ctrl_version NEARCADE_CTRL_XBOXONE = 0x0101"
| "ctrl_version NEARCADE_CTRL_DS4 = 0x0100"
| "ctrl_version NEARCADE_CTRL_DUALSENSE = 0x0100"
| "ctrl_version NEARCADE_CTRL_SWITCH_PRO = 0x0001"
| "ctrl_version _ = 0x0110"

text \<open>Well-formedness: the two arrays have their declared sizes, every id is terminated, and
  no operation is in progress. \<open>slot_owner\<close> is the abstraction a client reasons with.\<close>

definition slots_inv :: "slot_manager \<Rightarrow> bool" where
  "slots_inv sm \<longleftrightarrow>
     length (slot_map sm) = MAX_SLOTS \<and> length (slot_viewers sm) = MAX_SLOTS \<and>
     (\<forall>b\<in>set (slot_viewers sm). buf_ok NEARCADE_VIEWER_ID_LEN b) \<and>
     slots_lock sm = Unlocked"

definition slot_owner :: "slot_manager \<Rightarrow> nat \<Rightarrow> string option" where
  "slot_owner sm i =
     (if i < MAX_SLOTS \<and> slot_map sm ! i \<noteq> 0 then Some (cstr (slot_viewers sm ! i)) else None)"

definition slots_free :: "slot_manager \<Rightarrow> bool" where
  "slots_free sm \<longleftrightarrow> slot_map sm = replicate MAX_SLOTS 0"


section \<open>Log levels\<close>

text \<open>With the level set to \<open>cur\<close> the messages up to \<open>cur\<close> are printed, so a higher setting
  prints no less.\<close>

lemma log_enabled_iff: "log_enabled (loglevel_num cur) level \<longleftrightarrow> level \<le> cur"
  by (simp add: log_enabled_def less_eq_nearcade_loglevel_def)

lemma log_enabled_mono: "log_enabled g level \<Longrightarrow> g \<le> g' \<Longrightarrow> level' \<le> level \<Longrightarrow> log_enabled g' level'"
  by (simp add: log_enabled_def less_eq_nearcade_loglevel_def)


section \<open>The slot manager implements the first-fit contract\<close>

lemma slots_inv_buf: "slots_inv sm \<Longrightarrow> i < MAX_SLOTS \<Longrightarrow> buf_ok NEARCADE_VIEWER_ID_LEN (slot_viewers sm ! i)"
  by (auto simp: slots_inv_def)

lemma slot_claim_Some:
  assumes "first_index (\<lambda>m. m = 0) (slot_map sm) = Some i"
  shows "slot_claim (Some vid) ctrl sm =
    (int i, sm\<lparr>slot_map := (slot_map sm)[i := 1],
       slot_viewers := (slot_viewers sm)[i := strncpy vid 63 (slot_viewers sm ! i)],
       slots_lock := nearcade_mutex_unlock (nearcade_mutex_lock (slots_lock sm))\<rparr>)"
  using assms by (simp add: slot_claim_def Let_def)

lemma slot_claim_None:
  assumes "first_index (\<lambda>m. m = 0) (slot_map sm) = None"
  shows "slot_claim (Some vid) ctrl sm =
    (-1, sm\<lparr>slots_lock := nearcade_mutex_unlock (nearcade_mutex_lock (slots_lock sm))\<rparr>)"
  using assms by (simp add: slot_claim_def Let_def)

lemma slots_inv_claim [keeps]: "slots_inv sm \<Longrightarrow> slots_inv (snd (slot_claim vid ctrl sm))"
proof (cases vid)
  case None
  then show "slots_inv sm \<Longrightarrow> ?thesis" by (simp add: slot_claim_def)
next
  case (Some v)
  assume inv: "slots_inv sm"
  show ?thesis
  proof (cases "first_index (\<lambda>m. m = 0) (slot_map sm)")
    case None
    with inv Some show ?thesis by (simp add: slot_claim_None slots_inv_def)
  next
    case (Some i)
    then have "i < MAX_SLOTS"
      using inv first_index_SomeD(1)[OF Some] by (simp add: slots_inv_def)
    then have "buf_ok 64 (strncpy v 63 (slot_viewers sm ! i))"
      using buf_ok_strncpy[of 64 "slot_viewers sm ! i" v] slots_inv_buf[OF inv] by simp
    with inv Some \<open>vid = _\<close> show ?thesis
      by (auto simp: slot_claim_Some slots_inv_def dest: set_update_subset_insert[THEN subsetD])
  qed
qed

lemma slots_inv_release [keeps]: "slots_inv sm \<Longrightarrow> slots_inv (slot_release r sm)"
  by (auto simp: slot_release_def slots_inv_def Let_def dest: set_update_subset_insert[THEN subsetD])

lemma slot_owner_claim:
  assumes "slots_inv sm" and "c_string vid" and "fst (slot_claim (Some vid) ctrl sm) = int i"
  shows "i < MAX_SLOTS \<and> slot_owner sm i = None \<and> (\<forall>j<i. slot_owner sm j \<noteq> None)
    \<and> slot_owner (snd (slot_claim (Some vid) ctrl sm)) = (slot_owner sm)(i \<mapsto> take 63 vid)"
proof -
  have fi: "first_index (\<lambda>m. m = 0) (slot_map sm) = Some i"
  proof (cases "first_index (\<lambda>m. m = 0) (slot_map sm)")
    case None
    with assms(3) show ?thesis by (simp add: slot_claim_None)
  next
    case (Some k)
    with assms(3) show ?thesis by (simp add: slot_claim_Some)
  qed
  note D = first_index_SomeD[OF fi]
  have len: "length (slot_map sm) = 16" "length (slot_viewers sm) = 16" and i: "i < 16"
    using assms(1) D(1) by (auto simp: slots_inv_def)
  have "cstr (strncpy vid 63 (slot_viewers sm ! i)) = take 63 vid"
    using cstr_strncpy[OF slots_inv_buf[OF assms(1) i] assms(2)] by simp
  with D len i show ?thesis
    by (auto simp: slot_claim_Some[OF fi] slot_owner_def fun_eq_iff nth_list_update)
qed

lemma slot_owner_full:
  assumes "slots_inv sm" and "fst (slot_claim (Some vid) ctrl sm) < 0"
  shows "(\<forall>i<MAX_SLOTS. slot_owner sm i \<noteq> None)
    \<and> slot_owner (snd (slot_claim (Some vid) ctrl sm)) = slot_owner sm"
proof (cases "first_index (\<lambda>m. m = 0) (slot_map sm)")
  case None
  then show ?thesis
    using assms(1)
    by (auto simp: slot_claim_None first_index_None_iff slot_owner_def slots_inv_def fun_eq_iff)
next
  case (Some i)
  with assms(2) show ?thesis by (simp add: slot_claim_Some)
qed

lemma slot_owner_release:
  assumes "slots_inv sm"
  shows "slot_owner (slot_release r sm) =
    (if 0 \<le> r \<and> r < int MAX_SLOTS then (slot_owner sm)(nat r := None) else slot_owner sm)"
  using assms
  by (auto simp: slot_release_def slot_owner_def slots_inv_def Let_def fun_eq_iff nth_list_update)

interpretation sm: slot_table slots_inv slot_owner MAX_SLOTS "take 63" c_string
  "\<lambda>vid. slot_claim (Some vid) ctrl" slot_release for ctrl
proof unfold_locales
  fix s :: slot_manager and i :: nat
  show "MAX_SLOTS \<le> i \<Longrightarrow> slot_owner s i = None" by (simp add: slot_owner_def)
next
  fix s :: slot_manager and r :: int
  assume inv: "slots_inv s"
  show "slots_inv (slot_release r s)" using inv by (rule slots_inv_release)
  show "slot_owner (slot_release r s) =
    (if 0 \<le> r \<and> r < int MAX_SLOTS then (slot_owner s)(nat r := None) else slot_owner s)"
    using inv by (rule slot_owner_release)
next
  fix s :: slot_manager and a :: string and i :: nat
  assume inv: "slots_inv s" and a: "c_string a"
  show "slots_inv (snd (slot_claim (Some a) ctrl s))" using inv by (rule slots_inv_claim)
  show "fst (slot_claim (Some a) ctrl s) = int i \<Longrightarrow>
      i < MAX_SLOTS \<and> slot_owner s i = None \<and> (\<forall>j<i. slot_owner s j \<noteq> None)"
    and "fst (slot_claim (Some a) ctrl s) = int i \<Longrightarrow>
      slot_owner (snd (slot_claim (Some a) ctrl s)) = (slot_owner s)(i \<mapsto> take 63 a)"
    using slot_owner_claim[OF inv a] by blast+
  show "fst (slot_claim (Some a) ctrl s) < 0 \<Longrightarrow>
      (\<forall>i<MAX_SLOTS. slot_owner s i \<noteq> None) \<and>
      slot_owner (snd (slot_claim (Some a) ctrl s)) = slot_owner s"
    using slot_owner_full[OF inv] by blast
qed

lemma slot_release_free:
  assumes "slots_free sm" and "slots_inv sm"
  shows "slot_release r sm = sm"
proof (cases "r < 0 \<or> r \<ge> int MAX_SLOTS")
  case True
  then show ?thesis by (simp add: slot_release_def)
next
  case False
  then have "nat r < MAX_SLOTS" by (simp add: nat_less_iff)
  then have "slot_map sm ! nat r = 0" using assms(1) by (simp only: slots_free_def nth_replicate)
  with False assms(2) show ?thesis by (simp add: slot_release_def Let_def slots_inv_def)
qed


section \<open>Runs of claims\<close>

text \<open>A run of claims, one viewer after the other.\<close>

fun claim_all :: "nearcade_ctrl_type \<Rightarrow> string list \<Rightarrow> slot_manager \<Rightarrow> int list \<times> slot_manager" where
  "claim_all ctrl [] sm = ([], sm)"
| "claim_all ctrl (v # vs) sm =
     (let (i, sm') = slot_claim (Some v) ctrl sm; (is, sm'') = claim_all ctrl vs sm' in (i # is, sm''))"

definition empty_slots :: slot_manager where
  "empty_slots =
     \<lparr>slot_map = replicate MAX_SLOTS 0,
      slot_viewers = replicate MAX_SLOTS (zeroed NEARCADE_VIEWER_ID_LEN), slots_lock = Unlocked\<rparr>"


section \<open>Properties\<close>

lemma claim_all_claims: "claim_all ctrl vs sm = sm.claims ctrl vs sm"
  by (induction vs arbitrary: sm) (simp_all add: split_beta)

lemma empty_slots_inv: "slots_inv empty_slots" "slot_owner empty_slots = (\<lambda>_. None)"
  by (simp_all add: empty_slots_def slots_inv_def slot_owner_def buf_ok_def zeroed_def fun_eq_iff)

text \<open>
  C11. The slot manager refines a partial map from slots to viewers. A claim takes the lowest
  free slot and records the viewer there, and fails exactly when all sixteen are taken; a release
  removes exactly the released slot; claiming and releasing again restores the map. Every
  operation keeps the arrays well formed and leaves the mutex free.
\<close>

theorem slot_manager_refines_map:
  assumes "slots_inv sm" and "c_string vid"
  shows "let (i, sm') = slot_claim (Some vid) ctrl sm in
    slots_inv sm' \<and> slots_inv (slot_release r sm)
    \<and> (0 \<le> i \<longleftrightarrow> (\<exists>j<MAX_SLOTS. slot_owner sm j = None))
    \<and> (0 \<le> i \<longrightarrow> nat i < MAX_SLOTS \<and> slot_owner sm (nat i) = None \<and> (\<forall>j<nat i. slot_owner sm j \<noteq> None)
        \<and> slot_owner sm' = (slot_owner sm)(nat i \<mapsto> take 63 vid)
        \<and> slot_owner (slot_release i sm') = slot_owner sm)
    \<and> (i < 0 \<longrightarrow> slot_owner sm' = slot_owner sm)
    \<and> slot_owner (slot_release r sm) =
        (if 0 \<le> r \<and> r < int MAX_SLOTS then (slot_owner sm)(nat r := None) else slot_owner sm)"
proof -
  obtain i sm' where c: "slot_claim (Some vid) ctrl sm = (i, sm')" by (meson surj_pair)
  have inv: "slots_inv sm'" "slots_inv (slot_release r sm)"
    using sm.claim_inv[OF assms, of ctrl] sm.release_inv[OF assms(1), of r] c by simp_all
  have full: "(\<forall>j<MAX_SLOTS. slot_owner sm j \<noteq> None) \<and> slot_owner sm' = slot_owner sm" if "i < 0"
    using sm.claim_full[OF assms, of ctrl] c that by simp
  have ok: "nat i < MAX_SLOTS \<and> slot_owner sm (nat i) = None \<and> (\<forall>j<nat i. slot_owner sm j \<noteq> None)
      \<and> slot_owner sm' = (slot_owner sm)(nat i \<mapsto> take 63 vid)
      \<and> slot_owner (slot_release i sm') = slot_owner sm" if "0 \<le> i"
  proof -
    have i: "fst (slot_claim (Some vid) ctrl sm) = int (nat i)" using c that by simp
    show ?thesis
      using sm.claim_free[OF assms i] sm.claim_owner[OF assms i] sm.claim_release[OF assms i] c that by simp
  qed
  have "0 \<le> i \<longleftrightarrow> (\<exists>j<MAX_SLOTS. slot_owner sm j = None)" using full ok by fastforce
  then show ?thesis using inv full ok sm.release_owner[OF assms(1), of r] by (simp add: c)
qed

theorem slot_manager_refines_map_witness:
  "fst (slot_claim (Some ''viewer_0'') NEARCADE_CTRL_DS4 empty_slots) = 0
    \<and> slot_owner (snd (slot_claim (Some ''viewer_0'') NEARCADE_CTRL_DS4 empty_slots)) 0 = Some ''viewer_0''"
proof -
  have "fst (slot_claim (Some ''viewer_0'') NEARCADE_CTRL_DS4 empty_slots) = 0"
    by (simp add: slot_claim_def empty_slots_def Let_def)
  then show ?thesis
    using slot_manager_refines_map[OF empty_slots_inv(1), of "''viewer_0''" NEARCADE_CTRL_DS4]
    by (simp add: split_beta Let_def)
qed

text \<open>
  Sixteen viewers get sixteen different slots: from an empty table any run of at most
  sixteen claims succeeds throughout, hands out pairwise different slots and leaves exactly as many
  taken.
\<close>

lemma sixteen_claims_distinct:
  assumes "\<forall>v\<in>set vs. c_string v" and "length vs \<le> 16"
  shows "let (is, sm) = claim_all ctrl vs empty_slots in
    length is = length vs \<and> distinct is \<and> (\<forall>i\<in>set is. 0 \<le> i) \<and> slots_inv sm
    \<and> card {i. slot_owner sm i \<noteq> None} = length vs"
proof -
  have len: "length (fst (claim_all ctrl vs sm)) = length vs" for sm
    by (induction vs arbitrary: sm) (simp_all add: split_beta)
  have "sm.occupied empty_slots = {}" by (simp add: sm.occupied_def empty_slots_inv)
  then show ?thesis
    using sm.claims_fill[OF empty_slots_inv(1) assms(1), of ctrl] assms(2) len[of empty_slots]
    by (simp add: claim_all_claims split_beta sm.occupied_def)
qed

end
