(* ===== verification/Input_Linux.thy ===== *)
theory Input_Linux
  imports Nearcade_Types Thread_Compat "HOL-Library.Multiset"
begin

unbundle bit_operations_syntax

text \<open>
  \<open>src/input_linux.c\<close>: virtual gamepads and a virtual keyboard/mouse through the kernel's
  \<open>/dev/uinput\<close>. The file-level variables \<open>kbm_fd\<close>, \<open>gp_fds\<close>, \<open>gp_names\<close> and
  \<open>input_lock\<close> are the record \<open>input_state\<close>; its field \<open>trace\<close> holds every system call
  made, in order.

  The kernel is a parameter. What it answers to one call of a function is a record
  \<open>uinput_env\<close>: the descriptor \<open>open\<close> returns and the results of writing the device
  description and of \<open>UI_DEV_CREATE\<close> (the results of all other calls are ignored or only
  logged by the code). The numbers behind the header constants \<open>KEY_A\<close>, \<dots> and the size of
  the name field are a parameter \<open>evdev_abi\<close>; the other header constants are only written
  out, never computed with, and appear as constructors.
\<close>

section \<open>The uinput interface\<close>

datatype evtype = EV_SYN | EV_KEY | EV_REL | EV_ABS | EV_FF

datatype evcode =
    SYN_REPORT
  | REL_X | REL_Y | REL_WHEEL
  | ABS_X | ABS_Y | ABS_RX | ABS_RY | ABS_Z | ABS_RZ | ABS_HAT0X | ABS_HAT0Y
  | BTN_LEFT | BTN_RIGHT | BTN_MIDDLE
  | BTN_SOUTH | BTN_EAST | BTN_NORTH | BTN_WEST | BTN_TL | BTN_TR
  | BTN_SELECT | BTN_START | BTN_MODE | BTN_THUMBL | BTN_THUMBR
  | FF_RUMBLE
  | KEY_NUM int

datatype key_const =
    KEY_A | KEY_B | KEY_C | KEY_D | KEY_W | KEY_S | KEY_SPACE | KEY_LEFTSHIFT | KEY_LEFTCTRL
  | KEY_ESC | KEY_TAB | KEY_E | KEY_R | KEY_F | KEY_G | KEY_UP | KEY_DOWN | KEY_LEFT
  | KEY_RIGHT | KEY_ENTER

datatype bus = BUS_USB

record evdev_abi =
  abi_key :: "key_const \<Rightarrow> int"
  abi_name_size :: nat

record input_event =
  ie_type :: evtype
  ie_code :: evcode
  ie_value :: int

record uinput_user_dev =
  uud_name :: cbuf
  uud_bustype :: bus
  uud_vendor :: "16 word"
  uud_product :: "16 word"
  uud_version :: "16 word"
  uud_ff_effects_max :: int
  uud_absmin :: "evcode \<Rightarrow> int"
  uud_absmax :: "evcode \<Rightarrow> int"
  uud_absfuzz :: "evcode \<Rightarrow> int"
  uud_absflat :: "evcode \<Rightarrow> int"

datatype uinput_req =
    UI_SET_EVBIT evtype
  | UI_SET_KEYBIT evcode
  | UI_SET_RELBIT evcode
  | UI_SET_ABSBIT evcode
  | UI_SET_FFBIT evcode
  | UI_DEV_CREATE
  | UI_DEV_DESTROY

datatype syscall =
    Sys_open int
  | Sys_ioctl int uinput_req
  | Sys_write_dev int uinput_user_dev
  | Sys_write_ev int input_event
  | Sys_close int

record uinput_env =
  open_ret :: int
  write_dev_ret :: int
  create_ret :: int

record input_state =
  kbm_fd :: int
  gp_fds :: "int list"
  gp_names :: "cbuf list"
  input_lock :: mutex
  trace :: "syscall list"

text \<open>The static initial values: \<open>kbm_fd = -1\<close>, but \<open>gp_fds\<close> is zero-filled.\<close>

definition input_static :: input_state where
  "input_static =
     \<lparr>kbm_fd = -1, gp_fds = replicate MAX_SLOTS 0,
      gp_names = replicate MAX_SLOTS (zeroed NEARCADE_DEVICE_NAME_LEN),
      input_lock = Unlocked, trace = []\<rparr>"


section \<open>Operations\<close>

definition sys :: "syscall list \<Rightarrow> input_state \<Rightarrow> input_state" where
  "sys cs st = st\<lparr>trace := trace st @ cs\<rparr>"

definition emit :: "int \<Rightarrow> evtype \<Rightarrow> evcode \<Rightarrow> int \<Rightarrow> input_state \<Rightarrow> input_state" where
  "emit fd ty code val st =
     (if fd < 0 then st
      else sys [Sys_write_ev fd \<lparr>ie_type = ty, ie_code = code, ie_value = val\<rparr>] st)"

definition syn :: "int \<Rightarrow> input_state \<Rightarrow> input_state" where
  "syn fd st = (if 0 \<le> fd then emit fd EV_SYN SYN_REPORT 0 st else st)"

definition set_abs ::
    "evcode \<Rightarrow> int \<Rightarrow> int \<Rightarrow> int \<Rightarrow> int \<Rightarrow> uinput_user_dev \<Rightarrow> uinput_user_dev" where
  "set_abs axis mn mx fuzz flat uud =
     uud\<lparr>uud_absmin := (uud_absmin uud)(axis := mn),
         uud_absmax := (uud_absmax uud)(axis := mx),
         uud_absfuzz := (uud_absfuzz uud)(axis := fuzz),
         uud_absflat := (uud_absflat uud)(axis := flat)\<rparr>"

text \<open>The zeroed structure with its identity and name filled in.\<close>

definition user_dev :: "evdev_abi \<Rightarrow> 16 word \<Rightarrow> 16 word \<Rightarrow> 16 word \<Rightarrow> string \<Rightarrow> uinput_user_dev" where
  "user_dev abi vendor product version name =
     \<lparr>uud_name = snprintf name (abi_name_size abi) (zeroed (abi_name_size abi)),
      uud_bustype = BUS_USB,
      uud_vendor = vendor, uud_product = product, uud_version = version,
      uud_ff_effects_max = 0,
      uud_absmin = (\<lambda>_. 0), uud_absmax = (\<lambda>_. 0),
      uud_absfuzz = (\<lambda>_. 0), uud_absflat = (\<lambda>_. 0)\<rparr>"

definition kbm_setup :: "uinput_req list" where
  "kbm_setup =
     [UI_SET_EVBIT EV_SYN, UI_SET_EVBIT EV_KEY] @
     map (\<lambda>i. UI_SET_KEYBIT (KEY_NUM (int i))) [1..<255] @
     [UI_SET_KEYBIT BTN_LEFT, UI_SET_KEYBIT BTN_RIGHT, UI_SET_KEYBIT BTN_MIDDLE,
      UI_SET_EVBIT EV_REL, UI_SET_RELBIT REL_X, UI_SET_RELBIT REL_Y, UI_SET_RELBIT REL_WHEEL]"

definition create_kbm_device ::
    "evdev_abi \<Rightarrow> uinput_env \<Rightarrow> input_state \<Rightarrow> nearcade_error \<times> input_state" where
  "create_kbm_device abi env st =
     (let st = sys [Sys_open (open_ret env)] st\<lparr>kbm_fd := open_ret env\<rparr> in
      if kbm_fd st < 0 then (NEARCADE_ERR_PERMISSION, st)
      else
        let st = sys (map (Sys_ioctl (kbm_fd st)) kbm_setup) st;
            uud = user_dev abi 0x1234 0x5678 1 ''Nearsec Virtual KBM'';
            st = sys [Sys_write_dev (kbm_fd st) uud] st in
        if write_dev_ret env < 0
        then (NEARCADE_ERR_NO_DEVICE, sys [Sys_close (kbm_fd st)] st\<lparr>kbm_fd := -1\<rparr>)
        else
          let st = sys [Sys_ioctl (kbm_fd st) UI_DEV_CREATE] st in
          if create_ret env < 0
          then (NEARCADE_ERR_NO_DEVICE, sys [Sys_close (kbm_fd st)] st\<lparr>kbm_fd := -1\<rparr>)
          else (NEARCADE_OK, st))"

definition linux_input_init ::
    "evdev_abi \<Rightarrow> uinput_env \<Rightarrow> input_state \<Rightarrow> nearcade_error \<times> input_state" where
  "linux_input_init abi env st =
     create_kbm_device abi env
       (st\<lparr>gp_fds := replicate MAX_SLOTS (-1),
           gp_names := replicate MAX_SLOTS (zeroed NEARCADE_DEVICE_NAME_LEN)\<rparr>)"

text \<open>\<open>ioctl(fd, UI_DEV_DESTROY); close(fd); gp_fds[slot] = -1;\<close>\<close>

definition destroy_slot :: "nat \<Rightarrow> input_state \<Rightarrow> input_state" where
  "destroy_slot slot st =
     sys [Sys_ioctl (gp_fds st ! slot) UI_DEV_DESTROY, Sys_close (gp_fds st ! slot)] st
       \<lparr>gp_fds := (gp_fds st)[slot := -1]\<rparr>"

fun shutdown_slots :: "nat list \<Rightarrow> input_state \<Rightarrow> input_state" where
  "shutdown_slots [] st = st"
| "shutdown_slots (slot # slots) st =
     shutdown_slots slots (if 0 \<le> gp_fds st ! slot then destroy_slot slot st else st)"

definition lock_input :: "input_state \<Rightarrow> input_state" where
  "lock_input st = st\<lparr>input_lock := nearcade_mutex_lock (input_lock st)\<rparr>"

definition unlock_input :: "input_state \<Rightarrow> input_state" where
  "unlock_input st = st\<lparr>input_lock := nearcade_mutex_unlock (input_lock st)\<rparr>"

definition linux_input_shutdown :: "input_state \<Rightarrow> input_state" where
  "linux_input_shutdown st =
     (let st = shutdown_slots [0..<MAX_SLOTS] (lock_input st);
          st = (if 0 \<le> kbm_fd st
                then sys [Sys_ioctl (kbm_fd st) UI_DEV_DESTROY, Sys_close (kbm_fd st)] st
                       \<lparr>kbm_fd := -1\<rparr>
                else st)
      in unlock_input st)"

definition gamepad_setup :: "uinput_req list" where
  "gamepad_setup =
     [UI_SET_EVBIT EV_SYN, UI_SET_EVBIT EV_KEY,
      UI_SET_KEYBIT BTN_SOUTH, UI_SET_KEYBIT BTN_EAST,
      UI_SET_KEYBIT BTN_NORTH, UI_SET_KEYBIT BTN_WEST,
      UI_SET_KEYBIT BTN_TL, UI_SET_KEYBIT BTN_TR,
      UI_SET_KEYBIT BTN_SELECT, UI_SET_KEYBIT BTN_START,
      UI_SET_KEYBIT BTN_MODE,
      UI_SET_KEYBIT BTN_THUMBL, UI_SET_KEYBIT BTN_THUMBR,
      UI_SET_EVBIT EV_ABS,
      UI_SET_ABSBIT ABS_X, UI_SET_ABSBIT ABS_Y,
      UI_SET_ABSBIT ABS_RX, UI_SET_ABSBIT ABS_RY,
      UI_SET_ABSBIT ABS_Z, UI_SET_ABSBIT ABS_RZ,
      UI_SET_ABSBIT ABS_HAT0X, UI_SET_ABSBIT ABS_HAT0Y,
      UI_SET_EVBIT EV_FF, UI_SET_FFBIT FF_RUMBLE]"

definition gamepad_dev ::
    "evdev_abi \<Rightarrow> 16 word \<Rightarrow> 16 word \<Rightarrow> 16 word \<Rightarrow> string \<Rightarrow> uinput_user_dev" where
  "gamepad_dev abi vendor product version name =
     (let uud = user_dev abi vendor product version name;
          uud = set_abs ABS_X (-32767) 32767 16 128 uud;
          uud = set_abs ABS_Y (-32767) 32767 16 128 uud;
          uud = set_abs ABS_RX (-32767) 32767 16 128 uud;
          uud = set_abs ABS_RY (-32767) 32767 16 128 uud;
          uud = set_abs ABS_Z 0 255 0 0 uud;
          uud = set_abs ABS_RZ 0 255 0 0 uud;
          uud = set_abs ABS_HAT0X (-1) 1 0 0 uud;
          uud = set_abs ABS_HAT0Y (-1) 1 0 0 uud
      in uud\<lparr>uud_ff_effects_max := 16\<rparr>)"

definition device_name :: "string option \<Rightarrow> string" where
  "device_name name = (case name of None \<Rightarrow> ''Nearcade Gamepad'' | Some n \<Rightarrow> n)"

definition linux_input_alloc_slot ::
    "evdev_abi \<Rightarrow> uinput_env \<Rightarrow> 8 word \<Rightarrow> 16 word \<Rightarrow> 16 word \<Rightarrow> 16 word \<Rightarrow> string option
     \<Rightarrow> input_state \<Rightarrow> nearcade_error \<times> input_state" where
  "linux_input_alloc_slot abi env slot vendor product version name st =
     (if unat slot \<ge> MAX_SLOTS then (NEARCADE_ERR_INVALID_ARG, st)
      else
        let st = lock_input st;
            st = (if 0 \<le> gp_fds st ! unat slot then destroy_slot (unat slot) st else st);
            fd = open_ret env;
            st = sys [Sys_open fd] st in
        if fd < 0 then (NEARCADE_ERR_PERMISSION, unlock_input st)
        else
          let st = sys (map (Sys_ioctl fd) gamepad_setup) st;
              uud = gamepad_dev abi vendor product version (device_name name);
              st = sys [Sys_write_dev fd uud] st in
          if write_dev_ret env < 0
          then (NEARCADE_ERR_NO_DEVICE, unlock_input (sys [Sys_close fd] st))
          else
            let st = sys [Sys_ioctl fd UI_DEV_CREATE] st in
            if create_ret env < 0
            then (NEARCADE_ERR_NO_DEVICE, unlock_input (sys [Sys_close fd] st))
            else (NEARCADE_OK,
                  unlock_input
                    (st\<lparr>gp_fds := (gp_fds st)[unat slot := fd],
                        gp_names := (gp_names st)[unat slot :=
                          strncpy (device_name name) (NEARCADE_DEVICE_NAME_LEN - 1)
                            (gp_names st ! unat slot)]\<rparr>)))"

definition linux_input_free_slot :: "8 word \<Rightarrow> input_state \<Rightarrow> nearcade_error \<times> input_state" where
  "linux_input_free_slot slot st =
     (if unat slot \<ge> MAX_SLOTS then (NEARCADE_ERR_INVALID_ARG, st)
      else
        let st = lock_input st;
            st = (if 0 \<le> gp_fds st ! unat slot
                  then (destroy_slot (unat slot) st)
                         \<lparr>gp_names := (gp_names st)[unat slot := zeroed NEARCADE_DEVICE_NAME_LEN]\<rparr>
                  else st)
        in (NEARCADE_OK, unlock_input st))"

text \<open>\<open>(btn & W3C_x) ? 1 : 0\<close>, computed in \<open>int\<close> as C promotes both operands.\<close>

definition btn_val :: "16 word \<Rightarrow> int \<Rightarrow> int" where
  "btn_val btn w3c = (if uint btn AND w3c \<noteq> 0 then 1 else 0)"

definition W3C_A :: int where "W3C_A = push_bit 0 1"
definition W3C_B :: int where "W3C_B = push_bit 1 1"
definition W3C_Y :: int where "W3C_Y = push_bit 2 1"
definition W3C_X :: int where "W3C_X = push_bit 3 1"
definition W3C_LB :: int where "W3C_LB = push_bit 4 1"
definition W3C_RB :: int where "W3C_RB = push_bit 5 1"
definition W3C_BACK :: int where "W3C_BACK = push_bit 8 1"
definition W3C_START :: int where "W3C_START = push_bit 9 1"
definition W3C_LS :: int where "W3C_LS = push_bit 10 1"
definition W3C_RS :: int where "W3C_RS = push_bit 11 1"
definition W3C_GUIDE :: int where "W3C_GUIDE = push_bit 16 1"

text \<open>The sequence of \<open>emit\<close> calls of \<open>input_submit_gamepad\<close>, lines 277 to 297.\<close>

definition gamepad_emits :: "nearcade_gamepad_packet \<Rightarrow> (evtype \<times> evcode \<times> int) list" where
  "gamepad_emits pkt =
     (let btn = buttons pkt in
     [(EV_ABS, ABS_X, sint (lx pkt)),
      (EV_ABS, ABS_Y, sint (ly pkt)),
      (EV_ABS, ABS_RX, sint (rx pkt)),
      (EV_ABS, ABS_RY, sint (ry pkt)),
      (EV_ABS, ABS_Z, uint (lt pkt)),
      (EV_ABS, ABS_RZ, uint (rt pkt)),
      (EV_ABS, ABS_HAT0X, sint (hx pkt)),
      (EV_ABS, ABS_HAT0Y, sint (hy pkt)),
      (EV_KEY, BTN_SOUTH, btn_val btn W3C_A),
      (EV_KEY, BTN_EAST, btn_val btn W3C_B),
      (EV_KEY, BTN_WEST, btn_val btn W3C_Y),
      (EV_KEY, BTN_NORTH, btn_val btn W3C_X),
      (EV_KEY, BTN_TL, btn_val btn W3C_LB),
      (EV_KEY, BTN_TR, btn_val btn W3C_RB),
      (EV_KEY, BTN_SELECT, btn_val btn W3C_BACK),
      (EV_KEY, BTN_START, btn_val btn W3C_START),
      (EV_KEY, BTN_THUMBL, btn_val btn W3C_LS),
      (EV_KEY, BTN_THUMBR, btn_val btn W3C_RS),
      (EV_KEY, BTN_MODE, btn_val btn W3C_GUIDE)])"

fun emit_all :: "int \<Rightarrow> (evtype \<times> evcode \<times> int) list \<Rightarrow> input_state \<Rightarrow> input_state" where
  "emit_all fd [] st = st"
| "emit_all fd ((ty, code, val) # es) st = emit_all fd es (emit fd ty code val st)"

definition linux_input_submit_gamepad ::
    "nearcade_gamepad_packet option \<Rightarrow> input_state \<Rightarrow> nearcade_error \<times> input_state" where
  "linux_input_submit_gamepad pkt st =
     (case pkt of
        None \<Rightarrow> (NEARCADE_ERR_INVALID_ARG, st)
      | Some p \<Rightarrow>
          let st = lock_input st; slot = unat (pkt_slot p) in
          if slot \<ge> MAX_SLOTS then (NEARCADE_ERR_INVALID_ARG, unlock_input st)
          else if gp_fds st ! slot < 0 then (NEARCADE_ERR_NO_DEVICE, unlock_input st)
          else
            let fd = gp_fds st ! slot;
                st = syn fd (emit_all fd (gamepad_emits p) st)
            in (NEARCADE_OK, unlock_input st))"

definition key_name_to_code :: "evdev_abi \<Rightarrow> string option \<Rightarrow> int" where
  "key_name_to_code abi name =
     (case name of
        None \<Rightarrow> 0
      | Some n \<Rightarrow>
          let k = (if take 4 n = ''KEY_'' then drop 4 n else n) in
          if k = ''A'' then abi_key abi KEY_A
          else if k = ''B'' then abi_key abi KEY_B
          else if k = ''C'' then abi_key abi KEY_C
          else if k = ''D'' then abi_key abi KEY_D
          else if k = ''W'' then abi_key abi KEY_W
          else if k = ''S'' then abi_key abi KEY_S
          else if k = ''SPACE'' then abi_key abi KEY_SPACE
          else if k = ''LEFTSHIFT'' \<or> k = ''LSHIFT'' then abi_key abi KEY_LEFTSHIFT
          else if k = ''LEFTCTRL'' \<or> k = ''LCTRL'' then abi_key abi KEY_LEFTCTRL
          else if k = ''ESC'' then abi_key abi KEY_ESC
          else if k = ''TAB'' then abi_key abi KEY_TAB
          else if k = ''E'' then abi_key abi KEY_E
          else if k = ''R'' then abi_key abi KEY_R
          else if k = ''F'' then abi_key abi KEY_F
          else if k = ''G'' then abi_key abi KEY_G
          else if k = ''C'' then abi_key abi KEY_C
          else if k = ''UP'' then abi_key abi KEY_UP
          else if k = ''DOWN'' then abi_key abi KEY_DOWN
          else if k = ''LEFT'' then abi_key abi KEY_LEFT
          else if k = ''RIGHT'' then abi_key abi KEY_RIGHT
          else if k = ''ENTER'' then abi_key abi KEY_ENTER
          else 0)"

text \<open>\<open>emit\<close> takes the code as a \<open>uint16_t\<close>.\<close>

definition linux_input_submit_kbm ::
    "evdev_abi \<Rightarrow> string \<Rightarrow> string \<Rightarrow> string option \<Rightarrow> int \<Rightarrow> int \<Rightarrow> input_state
     \<Rightarrow> nearcade_error \<times> input_state" where
  "linux_input_submit_kbm abi viewer_id etype key dx dy st =
     (let st = lock_input st in
      if kbm_fd st < 0 then (NEARCADE_ERR_NO_DEVICE, unlock_input st)
      else
        let fd = kbm_fd st;
            st = (if etype = ''mousemove'' then
                    syn fd (emit fd EV_REL REL_Y dy (emit fd EV_REL REL_X dx st))
                  else if etype = ''keydown'' \<or> etype = ''keyup'' then
                    let val = (if etype = ''keydown'' then 1 else 0);
                        code = key_name_to_code abi key in
                    if code > 0
                    then syn fd (emit fd EV_KEY (KEY_NUM (take_bit 16 code)) val st)
                    else st
                  else st)
        in (NEARCADE_OK, unlock_input st))"

definition flush_emits :: "(evtype \<times> evcode \<times> int) list" where
  "flush_emits =
     [(EV_ABS, ABS_X, 0), (EV_ABS, ABS_Y, 0), (EV_ABS, ABS_RX, 0), (EV_ABS, ABS_RY, 0),
      (EV_ABS, ABS_Z, 0), (EV_ABS, ABS_RZ, 0), (EV_ABS, ABS_HAT0X, 0), (EV_ABS, ABS_HAT0Y, 0)] @
     map (\<lambda>c. (EV_KEY, c, 0))
       [BTN_SOUTH, BTN_EAST, BTN_WEST, BTN_NORTH, BTN_TL, BTN_TR, BTN_SELECT, BTN_START,
        BTN_MODE, BTN_THUMBL, BTN_THUMBR]"

definition linux_input_flush_slot :: "8 word \<Rightarrow> input_state \<Rightarrow> nearcade_error \<times> input_state" where
  "linux_input_flush_slot slot st =
     (let st = lock_input st;
          st = (if unat slot < MAX_SLOTS \<and> 0 \<le> gp_fds st ! unat slot
                then let fd = gp_fds st ! unat slot in syn fd (emit_all fd flush_emits st)
                else st)
      in (NEARCADE_OK, unlock_input st))"


section \<open>Specification: descriptors, events and invariants\<close>

text \<open>
  The descriptors open after a run of system calls, and the discipline a run must keep:
  every call is on a descriptor that is open at that moment, so nothing is used or closed
  twice after \<open>close\<close>, and \<open>open\<close> never returns a descriptor that is still open (the
  kernel's promise).
\<close>

fun live :: "int set \<Rightarrow> syscall list \<Rightarrow> int set" where
  "live L [] = L"
| "live L (Sys_open fd # t) = live (if 0 \<le> fd then insert fd L else L) t"
| "live L (Sys_close fd # t) = live (L - {fd}) t"
| "live L (_ # t) = live L t"

fun sys_ok :: "int set \<Rightarrow> syscall list \<Rightarrow> bool" where
  "sys_ok L [] = True"
| "sys_ok L (Sys_open fd # t) = (fd \<notin> L \<and> sys_ok (if 0 \<le> fd then insert fd L else L) t)"
| "sys_ok L (Sys_close fd # t) = (fd \<in> L \<and> sys_ok (L - {fd}) t)"
| "sys_ok L (Sys_ioctl fd _ # t) = (fd \<in> L \<and> sys_ok L t)"
| "sys_ok L (Sys_write_dev fd _ # t) = (fd \<in> L \<and> sys_ok L t)"
| "sys_ok L (Sys_write_ev fd _ # t) = (fd \<in> L \<and> sys_ok L t)"

definition owned :: "input_state \<Rightarrow> int multiset" where
  "owned st = filter_mset (\<lambda>fd. 0 \<le> fd) (add_mset (kbm_fd st) (mset (gp_fds st)))"

definition input_shape :: "input_state \<Rightarrow> bool" where
  "input_shape st \<longleftrightarrow>
     length (gp_fds st) = MAX_SLOTS \<and> (\<forall>fd\<in>set (gp_fds st). -1 \<le> fd) \<and>
     length (gp_names st) = MAX_SLOTS \<and>
     (\<forall>b\<in>set (gp_names st). buf_ok NEARCADE_DEVICE_NAME_LEN b)"

text \<open>
  The invariant: the arrays are well-formed, the lock is free, the run so far is
  disciplined, and the open descriptors are exactly those the state refers to, each once:
  nothing leaks and no two devices share a descriptor.
\<close>

definition fds_ok :: "input_state \<Rightarrow> bool" where
  "fds_ok st \<longleftrightarrow> sys_ok {} (trace st) \<and> owned st = mset_set (live {} (trace st))"

definition input_inv :: "input_state \<Rightarrow> bool" where
  "input_inv st \<longleftrightarrow> input_shape st \<and> input_lock st = Unlocked \<and> fds_ok st"

definition open_fresh :: "uinput_env \<Rightarrow> input_state \<Rightarrow> bool" where
  "open_fresh env st \<longleftrightarrow> open_ret env \<notin> live {} (trace st)"

definition ev_calls :: "int \<Rightarrow> (evtype \<times> evcode \<times> int) list \<Rightarrow> syscall list" where
  "ev_calls fd es =
     map (\<lambda>(ty, code, val). Sys_write_ev fd \<lparr>ie_type = ty, ie_code = code, ie_value = val\<rparr>) es"

text \<open>Nothing is open and nobody is inside: the state before the first and after the last use.\<close>

definition input_quiet :: "input_state \<Rightarrow> bool" where
  "input_quiet st \<longleftrightarrow>
     input_lock st = Unlocked \<and> sys_ok {} (trace st) \<and> live {} (trace st) = {}"

definition no_gamepads :: "input_state \<Rightarrow> bool" where
  "no_gamepads st \<longleftrightarrow> gp_fds st = replicate MAX_SLOTS (-1)"

text \<open>The common first half of an allocation: take the lock and tear an old device down.\<close>

definition cleared :: "8 word \<Rightarrow> input_state \<Rightarrow> input_state" where
  "cleared slot st =
     (if 0 \<le> gp_fds (lock_input st) ! unat slot then destroy_slot (unat slot) (lock_input st)
      else lock_input st)"

text \<open>What a keyboard or mouse event writes, on every branch.\<close>

definition kbm_events :: "evdev_abi \<Rightarrow> string \<Rightarrow> string option \<Rightarrow> int \<Rightarrow> int
    \<Rightarrow> (evtype \<times> evcode \<times> int) list" where
  "kbm_events abi etype key dx dy =
     (if etype = ''mousemove'' then
        [(EV_REL, REL_X, dx), (EV_REL, REL_Y, dy), (EV_SYN, SYN_REPORT, 0)]
      else if etype \<in> {''keydown'', ''keyup''} \<and> 0 < key_name_to_code abi key then
        [(EV_KEY, KEY_NUM (take_bit 16 (key_name_to_code abi key)), of_bool (etype = ''keydown'')),
         (EV_SYN, SYN_REPORT, 0)]
      else [])"

text \<open>The last value a descriptor was sent for a code, 0 when it was sent none: the state the
  kernel keeps for one control of the virtual device.\<close>

fun last_value :: "int \<Rightarrow> evcode \<Rightarrow> int \<Rightarrow> syscall list \<Rightarrow> int" where
  "last_value fd code v [] = v"
| "last_value fd code v (Sys_write_ev f e # t) =
     last_value fd code (if f = fd \<and> ie_code e = code then ie_value e else v) t"
| "last_value fd code v (_ # t) = last_value fd code v t"

text \<open>What a gamepad packet means: the report of one controller, as a specification with the
  button bits tested directly.\<close>

definition pad_report :: "nearcade_gamepad_packet \<Rightarrow> (evtype \<times> evcode \<times> int) list" where
  "pad_report p =
     map (\<lambda>(c, v). (EV_ABS, c, v))
       [(ABS_X, sint (lx p)), (ABS_Y, sint (ly p)), (ABS_RX, sint (rx p)), (ABS_RY, sint (ry p)),
        (ABS_Z, uint (lt p)), (ABS_RZ, uint (rt p)), (ABS_HAT0X, sint (hx p)), (ABS_HAT0Y, sint (hy p))] @
     map (\<lambda>(c, k). (EV_KEY, c, of_bool (bit (buttons p) k)))
       [(BTN_SOUTH, 0), (BTN_EAST, 1), (BTN_WEST, 2), (BTN_NORTH, 3), (BTN_TL, 4), (BTN_TR, 5),
        (BTN_SELECT, 8), (BTN_START, 9), (BTN_THUMBL, 10), (BTN_THUMBR, 11)] @
     [(EV_KEY, BTN_MODE, 0)]"

definition linux_abi :: evdev_abi where
  "linux_abi =
     \<lparr>abi_key = (\<lambda>k. case k of KEY_ESC \<Rightarrow> 1 | KEY_TAB \<Rightarrow> 15 | KEY_W \<Rightarrow> 17 | KEY_E \<Rightarrow> 18
        | KEY_R \<Rightarrow> 19 | KEY_ENTER \<Rightarrow> 28 | KEY_LEFTCTRL \<Rightarrow> 29 | KEY_A \<Rightarrow> 30 | KEY_S \<Rightarrow> 31
        | KEY_D \<Rightarrow> 32 | KEY_F \<Rightarrow> 33 | KEY_G \<Rightarrow> 34 | KEY_LEFTSHIFT \<Rightarrow> 42 | KEY_C \<Rightarrow> 46
        | KEY_B \<Rightarrow> 48 | KEY_SPACE \<Rightarrow> 57 | KEY_UP \<Rightarrow> 103 | KEY_LEFT \<Rightarrow> 105
        | KEY_RIGHT \<Rightarrow> 106 | KEY_DOWN \<Rightarrow> 108),
      abi_name_size = 80\<rparr>"

text \<open>The state right after a successful start, used to show that hypotheses can hold.\<close>

definition env_ok :: "int \<Rightarrow> uinput_env" where
  "env_ok fd = \<lparr>open_ret = fd, write_dev_ret = 0, create_ret = 0\<rparr>"

definition input_started :: input_state where
  "input_started = snd (linux_input_init linux_abi (env_ok 5) input_static)"


section \<open>Facts: descriptor bookkeeping\<close>

lemma live_append [simp, fd_simps]: "live L (a @ b) = live (live L a) b"
  by (induction L a rule: live.induct) auto

lemma sys_ok_append [simp, fd_simps]: "sys_ok L (a @ b) \<longleftrightarrow> sys_ok L a \<and> sys_ok (live L a) b"
  by (induction L a rule: sys_ok.induct) auto

lemma live_finite [simp]: "finite L \<Longrightarrow> finite (live L t)"
  by (induction L t rule: live.induct) auto

lemma live_ioctls [simp, fd_simps]: "live L (map (Sys_ioctl fd) rs) = L"
  by (induction rs) auto

lemma sys_ok_ioctls [simp, fd_simps]: "sys_ok L (map (Sys_ioctl fd) rs) \<longleftrightarrow> rs = [] \<or> fd \<in> L"
  by (induction rs) auto

lemma sys_fields [simp]:
  "trace (sys cs st) = trace st @ cs" "kbm_fd (sys cs st) = kbm_fd st"
  "gp_fds (sys cs st) = gp_fds st" "gp_names (sys cs st) = gp_names st"
  "input_lock (sys cs st) = input_lock st"
  by (simp_all add: sys_def)

lemma lock_fields [simp]:
  "trace (lock_input st) = trace st" "kbm_fd (lock_input st) = kbm_fd st"
  "gp_fds (lock_input st) = gp_fds st" "gp_names (lock_input st) = gp_names st"
  "input_lock (lock_input st) = nearcade_mutex_lock (input_lock st)"
  by (simp_all add: lock_input_def)

lemma unlock_fields [simp]:
  "trace (unlock_input st) = trace st" "kbm_fd (unlock_input st) = kbm_fd st"
  "gp_fds (unlock_input st) = gp_fds st" "gp_names (unlock_input st) = gp_names st"
  "input_lock (unlock_input st) = nearcade_mutex_unlock (input_lock st)"
  by (simp_all add: unlock_input_def)

lemma emit_eq: "0 \<le> fd \<Longrightarrow> emit fd ty code val st = sys (ev_calls fd [(ty, code, val)]) st"
  by (simp add: emit_def ev_calls_def)

lemma sys_sys [simp]: "sys b (sys a st) = sys (a @ b) st"
  by (simp add: sys_def)

lemma sys_Nil [simp]: "sys [] st = st"
  by (simp add: sys_def)

lemma emit_all_eq: "0 \<le> fd \<Longrightarrow> emit_all fd es st = sys (ev_calls fd es) st"
proof (induction es arbitrary: st)
  case Nil
  then show ?case by (simp add: ev_calls_def)
next
  case (Cons e es)
  then show ?case by (cases e) (simp add: emit_eq ev_calls_def)
qed

lemma syn_eq: "0 \<le> fd \<Longrightarrow> syn fd st = sys (ev_calls fd [(EV_SYN, SYN_REPORT, 0)]) st"
  by (simp add: syn_def emit_eq)

lemma ev_calls_Nil [simp]: "ev_calls fd [] = []"
  by (simp add: ev_calls_def)

lemma ev_calls_Cons [simp]:
  "ev_calls fd (e # es) =
     Sys_write_ev fd \<lparr>ie_type = fst e, ie_code = fst (snd e), ie_value = snd (snd e)\<rparr> # ev_calls fd es"
  by (simp add: ev_calls_def split_beta)

lemma live_ev_calls [simp, fd_simps]: "live L (ev_calls fd es) = L"
  by (induction es) simp_all

lemma sys_ok_ev_calls [simp, fd_simps]: "sys_ok L (ev_calls fd es) \<longleftrightarrow> es = [] \<or> fd \<in> L"
  by (induction es) auto

lemma ev_calls_append: "ev_calls fd a @ ev_calls fd b = ev_calls fd (a @ b)"
  by (simp add: ev_calls_def)

lemma owned_cong:
  "kbm_fd s = kbm_fd t \<Longrightarrow> gp_fds s = gp_fds t \<Longrightarrow> owned s = owned t"
  by (simp add: owned_def)

lemma fds_ok_cong:
  "kbm_fd s = kbm_fd t \<Longrightarrow> gp_fds s = gp_fds t \<Longrightarrow> trace s = trace t \<Longrightarrow> fds_ok s = fds_ok t"
  by (simp add: fds_ok_def owned_def)

lemma gp_fd_live:
  assumes "fds_ok st" and "i < length (gp_fds st)" and "0 \<le> gp_fds st ! i"
  shows "gp_fds st ! i \<in> live {} (trace st)"
proof -
  have "gp_fds st ! i \<in># owned st" using assms by (simp add: owned_def)
  with assms(1) show ?thesis by (simp add: fds_ok_def)
qed

lemma kbm_fd_live:
  assumes "fds_ok st" and "0 \<le> kbm_fd st"
  shows "kbm_fd st \<in> live {} (trace st)"
proof -
  have "kbm_fd st \<in># owned st" using assms by (simp add: owned_def)
  with assms(1) show ?thesis by (simp add: fds_ok_def)
qed

lemma fds_ok_events: 
  "fds_ok st \<Longrightarrow> fd \<in> live {} (trace st) \<Longrightarrow> fds_ok (sys (ev_calls fd es) st)"
  by (simp add: fds_ok_def owned_def)

lemma destroy_slot_fields [simp]:
  "kbm_fd (destroy_slot i st) = kbm_fd st" "gp_names (destroy_slot i st) = gp_names st"
  "input_lock (destroy_slot i st) = input_lock st"
  "gp_fds (destroy_slot i st) = (gp_fds st)[i := -1]"
  "trace (destroy_slot i st) = trace st @
     [Sys_ioctl (gp_fds st ! i) UI_DEV_DESTROY, Sys_close (gp_fds st ! i)]"
  by (simp_all add: destroy_slot_def)

lemma owned_gp_update:
  assumes "i < length (gp_fds st)" and "gp_fds st' = (gp_fds st)[i := v]" and "kbm_fd st' = kbm_fd st"
  shows "owned st' =
    (if 0 \<le> v then {#v#} else {#}) +
    (owned st - (if 0 \<le> gp_fds st ! i then {#gp_fds st ! i#} else {#}))"
  using assms by (simp add: owned_def mset_update nth_mem_mset)

lemma fds_ok_destroy_slot [keeps]:
  assumes "fds_ok st" and "i < length (gp_fds st)" and "0 \<le> gp_fds st ! i"
  shows "fds_ok (destroy_slot i st)"
proof -
  let ?L = "live {} (trace st)"
  have "owned (destroy_slot i st) = owned st - {#gp_fds st ! i#}"
    using owned_gp_update[of i st "destroy_slot i st" "-1"] assms by simp
  also have "\<dots> = mset_set (?L - {gp_fds st ! i})"
    using assms gp_fd_live[OF assms] by (simp add: fds_ok_def mset_set_Diff)
  finally show ?thesis
    using assms gp_fd_live[OF assms] by (simp add: fds_ok_def)
qed

lemma input_shape_cong:
  "gp_fds s = gp_fds t \<Longrightarrow> gp_names s = gp_names t \<Longrightarrow> input_shape s = input_shape t"
  by (simp add: input_shape_def)

lemma input_shape_destroy_slot [simp]: "input_shape st \<Longrightarrow> input_shape (destroy_slot i st)"
  by (auto simp: input_shape_def dest: set_update_subset_insert[THEN subsetD])

lemma input_inv_unlock:
  assumes "input_shape st" and "input_lock st = Locked" and "fds_ok st"
  shows "input_inv (unlock_input st)"
  using assms by (simp add: input_inv_def input_shape_def fds_ok_def owned_def)

lemma input_inv_lockD:
  assumes "input_inv st"
  shows "input_shape (lock_input st)" and "input_lock (lock_input st) = Locked"
    and "fds_ok (lock_input st)"
  using assms by (simp_all add: input_inv_def input_shape_def fds_ok_def owned_def)

lemma input_inv_events:
  assumes "input_inv st" and "fd \<in> live {} (trace st)"
  shows "input_inv (unlock_input (sys (ev_calls fd es) (lock_input st)))"
proof (rule input_inv_unlock)
  note D = input_inv_lockD[OF assms(1)]
  show "input_shape (sys (ev_calls fd es) (lock_input st))"
    using D(1) by (simp add: input_shape_def)
  show "input_lock (sys (ev_calls fd es) (lock_input st)) = Locked" using D(2) by simp
  show "fds_ok (sys (ev_calls fd es) (lock_input st))"
    using D(3) assms(2) by (simp add: fds_ok_events)
qed

lemma input_inv_relock: "input_inv st \<Longrightarrow> input_inv (unlock_input (lock_input st))"
  using input_inv_lockD input_inv_unlock by blast

subsection \<open>Initialisation and shutdown\<close>

lemma owned_no_gamepads:
  "no_gamepads st \<Longrightarrow> owned st = (if 0 \<le> kbm_fd st then {#kbm_fd st#} else {#})"
  by (simp add: owned_def no_gamepads_def)

lemma input_shape_initial:
  "gp_fds st = replicate MAX_SLOTS (-1) \<Longrightarrow>
   gp_names st = replicate MAX_SLOTS (zeroed NEARCADE_DEVICE_NAME_LEN) \<Longrightarrow> input_shape st"
  by (simp add: input_shape_def)

lemma create_kbm_device_frame [simp]:
  "gp_fds (snd (create_kbm_device abi env st)) = gp_fds st"
  "gp_names (snd (create_kbm_device abi env st)) = gp_names st"
  "input_lock (snd (create_kbm_device abi env st)) = input_lock st"
  by (simp_all add: create_kbm_device_def Let_def)

lemma create_kbm_device_result:
  "fst (create_kbm_device abi env st) =
     (if open_ret env < 0 then NEARCADE_ERR_PERMISSION
      else if write_dev_ret env < 0 \<or> create_ret env < 0 then NEARCADE_ERR_NO_DEVICE
      else NEARCADE_OK)"
  by (simp add: create_kbm_device_def Let_def)

lemma create_kbm_device_fd:
  "fst (create_kbm_device abi env st) = NEARCADE_OK \<Longrightarrow>
     kbm_fd (snd (create_kbm_device abi env st)) = open_ret env \<and> 0 \<le> open_ret env"
  "fst (create_kbm_device abi env st) \<noteq> NEARCADE_OK \<Longrightarrow>
     kbm_fd (snd (create_kbm_device abi env st)) < 0"
  by (auto simp: create_kbm_device_def Let_def split: if_splits)

lemma create_kbm_device_trace:
  assumes "sys_ok {} (trace st)" and "open_fresh env st"
  shows "sys_ok {} (trace (snd (create_kbm_device abi env st)))"
    and "live {} (trace (snd (create_kbm_device abi env st))) =
      live {} (trace st) \<union>
      (if fst (create_kbm_device abi env st) = NEARCADE_OK then {open_ret env} else {})"
  using assms by (auto simp: create_kbm_device_def Let_def open_fresh_def)

lemma linux_input_init_no_gamepads [keeps]: "no_gamepads (snd (linux_input_init abi env st))"
  by (simp add: linux_input_init_def no_gamepads_def)

lemma linux_input_init_kbm:
  "fst (linux_input_init abi env st) = NEARCADE_OK \<longleftrightarrow>
     0 \<le> kbm_fd (snd (linux_input_init abi env st))"
  using create_kbm_device_fd[of abi env] by (fastforce simp: linux_input_init_def)

lemma linux_input_init_inv [keeps]:
  assumes "input_quiet st" and "open_fresh env st"
  shows "input_inv (snd (linux_input_init abi env st))"
proof -
  let ?st = "st\<lparr>gp_fds := replicate MAX_SLOTS (-1),
    gp_names := replicate MAX_SLOTS (zeroed NEARCADE_DEVICE_NAME_LEN)\<rparr>"
  let ?r = "create_kbm_device abi env ?st"
  have pre: "sys_ok {} (trace ?st)" "open_fresh env ?st" "live {} (trace ?st) = {}"
    using assms by (simp_all add: input_quiet_def open_fresh_def)
  have "owned (snd ?r) = mset_set (live {} (trace (snd ?r)))"
    using create_kbm_device_trace(2)[OF pre(1,2)] pre(3) create_kbm_device_fd[of abi env ?st]
    by (auto simp: owned_no_gamepads no_gamepads_def)
  moreover have "input_shape (snd ?r)" by (rule input_shape_initial) simp_all
  ultimately show ?thesis
    using create_kbm_device_trace(1)[OF pre(1,2)] assms(1)
    by (simp add: linux_input_init_def input_inv_def fds_ok_def input_quiet_def)
qed

lemma linux_input_init_fail_quiet:
  assumes "input_quiet st" and "open_fresh env st" and "fst (linux_input_init abi env st) \<noteq> NEARCADE_OK"
  shows "input_quiet (snd (linux_input_init abi env st))"
proof -
  let ?st = "st\<lparr>gp_fds := replicate MAX_SLOTS (-1),
    gp_names := replicate MAX_SLOTS (zeroed NEARCADE_DEVICE_NAME_LEN)\<rparr>"
  have pre: "sys_ok {} (trace ?st)" "open_fresh env ?st"
    using assms by (simp_all add: input_quiet_def open_fresh_def)
  from create_kbm_device_trace[OF pre, of abi] assms show ?thesis
    by (simp add: linux_input_init_def input_quiet_def)
qed

lemma shutdown_slots_frame [simp]:
  "kbm_fd (shutdown_slots is st) = kbm_fd st"
  "gp_names (shutdown_slots is st) = gp_names st"
  "input_lock (shutdown_slots is st) = input_lock st"
  "length (gp_fds (shutdown_slots is st)) = length (gp_fds st)"
  by (induction "is" arbitrary: st) auto

lemma shutdown_slots_fds_ok:
  assumes "fds_ok st" and "\<forall>i\<in>set is. i < length (gp_fds st)"
  shows "fds_ok (shutdown_slots is st)"
  using assms by (induction "is" arbitrary: st) (simp_all add: fds_ok_destroy_slot)

lemma shutdown_slots_other:
  "j \<notin> set is \<Longrightarrow> gp_fds (shutdown_slots is st) ! j = gp_fds st ! j"
  by (induction "is" arbitrary: st) auto

lemma shutdown_slots_negative:
  assumes "\<forall>i\<in>set is. i < length (gp_fds st)" and "\<forall>i < length (gp_fds st). -1 \<le> gp_fds st ! i"
    and "j < length (gp_fds st)"
  shows "gp_fds (shutdown_slots is st) ! j = (if j \<in> set is then -1 else gp_fds st ! j)"
  using assms
proof (induction "is" arbitrary: st)
  case Nil
  then show ?case by simp
next
  case (Cons i "is")
  let ?st = "if 0 \<le> gp_fds st ! i then destroy_slot i st else st"
  have "\<forall>k < length (gp_fds ?st). -1 \<le> gp_fds ?st ! k"
    using Cons.prems by (auto simp: nth_list_update)
  with Cons.IH[of ?st] Cons.prems show ?case
    by (force simp: nth_list_update)
qed

lemma linux_input_shutdown_all:
  assumes "input_inv st"
  shows "no_gamepads (linux_input_shutdown st)" and "kbm_fd (linux_input_shutdown st) < 0"
    and "input_inv (linux_input_shutdown st)"
proof -
  let ?s1 = "shutdown_slots [0..<16] (lock_input st)"
  let ?s2 = "if 0 \<le> kbm_fd ?s1
    then sys [Sys_ioctl (kbm_fd ?s1) UI_DEV_DESTROY, Sys_close (kbm_fd ?s1)] ?s1\<lparr>kbm_fd := -1\<rparr>
    else ?s1"
  note D = input_inv_lockD[OF assms]
  have sh: "input_shape st" using assms by (simp add: input_inv_def)
  have len: "length (gp_fds st) = 16" using sh by (simp add: input_shape_def)
  have gp: "gp_fds ?s1 = replicate 16 (-1)"
    using shutdown_slots_negative[of "[0..<16]" "lock_input st"] sh len
    by (intro nth_equalityI) (auto simp: input_shape_def)
  then have ng1: "no_gamepads ?s1" by (simp add: no_gamepads_def)
  from gp show "no_gamepads (linux_input_shutdown st)"
    by (simp add: linux_input_shutdown_def Let_def no_gamepads_def)
  show "kbm_fd (linux_input_shutdown st) < 0"
    by (simp add: linux_input_shutdown_def Let_def)
  have f1: "fds_ok ?s1" using shutdown_slots_fds_ok[of "lock_input st"] D(3) len by simp
  have "fds_ok ?s2"
  proof (cases "0 \<le> kbm_fd ?s1")
    case True
    have "set_mset (owned ?s1) = live {} (trace ?s1)"
      using f1 by (simp add: fds_ok_def)
    then have L: "live {} (trace ?s1) = {kbm_fd ?s1}"
      using True ng1 by (simp add: owned_no_gamepads)
    have "owned ?s2 = {#}" using ng1 True by (simp add: owned_def no_gamepads_def)
    with True f1 L show ?thesis by (simp add: fds_ok_def)
  next
    case False
    with f1 show ?thesis by simp
  qed
  moreover have "input_shape ?s2" using sh gp by (simp add: input_shape_def)
  moreover have "input_lock ?s2 = Locked" using D(2) by simp
  ultimately show "input_inv (linux_input_shutdown st)"
    unfolding linux_input_shutdown_def Let_def by (intro input_inv_unlock)
qed

lemma no_fds_quiet:
  assumes "input_inv st" and "no_gamepads st" and "kbm_fd st < 0"
  shows "input_quiet st"
proof -
  have "mset_set (live {} (trace st)) = {#}"
    using assms by (simp add: input_inv_def fds_ok_def owned_no_gamepads[OF assms(2)])
  then have "live {} (trace st) = {}"
    by (metis finite_set_mset_mset_set finite.emptyI live_finite set_mset_empty)
  with assms(1) show ?thesis by (simp add: input_quiet_def input_inv_def fds_ok_def)
qed

lemma linux_input_shutdown_quiet: "input_inv st \<Longrightarrow> input_quiet (linux_input_shutdown st)"
  by (rule no_fds_quiet) (rule linux_input_shutdown_all, assumption)+

subsection \<open>Slots\<close>

lemma linux_input_free_slot_inv [keeps]:
  assumes "input_inv st"
  shows "input_inv (snd (linux_input_free_slot slot st))"
proof (cases "unat slot < 16 \<and> 0 \<le> gp_fds st ! unat slot")
  case True
  let ?d = "destroy_slot (unat slot) (lock_input st)"
  let ?s = "?d\<lparr>gp_names := (gp_names st)[unat slot := zeroed 32]\<rparr>"
  note D = input_inv_lockD[OF assms]
  have len: "unat slot < length (gp_fds (lock_input st))"
    using True D(1) by (simp add: input_shape_def)
  have "fds_ok ?d" using fds_ok_destroy_slot[OF D(3) len] True by simp
  then have "fds_ok ?s" by (simp add: fds_ok_def owned_def)
  moreover have "input_shape ?s"
    using input_shape_destroy_slot[OF D(1), of "unat slot"]
    by (auto simp: input_shape_def dest: set_update_subset_insert[THEN subsetD])
  ultimately have "input_inv (unlock_input ?s)" using D(2) by (simp add: input_inv_unlock)
  with True show ?thesis by (simp add: linux_input_free_slot_def Let_def)
next
  case False
  with assms show ?thesis by (auto simp: linux_input_free_slot_def Let_def input_inv_relock)
qed

lemma cleared_facts:
  assumes "input_inv st" and "unat slot < MAX_SLOTS"
  shows "input_shape (cleared slot st)" and "input_lock (cleared slot st) = Locked"
    and "fds_ok (cleared slot st)" and "gp_fds (cleared slot st) ! unat slot = -1"
    and "live {} (trace (cleared slot st)) \<subseteq> live {} (trace st)"
proof -
  note D = input_inv_lockD[OF assms(1)]
  have len: "unat slot < length (gp_fds (lock_input st))"
    using assms(2) D(1) by (simp add: input_shape_def)
  show "input_shape (cleared slot st)" using D(1) by (simp add: cleared_def)
  show "input_lock (cleared slot st) = Locked" using D(2) by (simp add: cleared_def)
  show "fds_ok (cleared slot st)" using fds_ok_destroy_slot[OF D(3) len] D(3) by (simp add: cleared_def)
  have "-1 \<le> gp_fds (lock_input st) ! unat slot"
    using D(1) len nth_mem[OF len] unfolding input_shape_def by blast
  then show "gp_fds (cleared slot st) ! unat slot = -1" using len by (simp add: cleared_def)
  show "live {} (trace (cleared slot st)) \<subseteq> live {} (trace st)" by (auto simp: cleared_def)
qed

lemma linux_input_alloc_slot_eq:
  assumes "unat slot < MAX_SLOTS"
  shows "linux_input_alloc_slot abi env slot vendor product version name st =
    (let st1 = cleared slot st; fd = open_ret env;
         setup = [Sys_open fd] @ map (Sys_ioctl fd) gamepad_setup @
           [Sys_write_dev fd (gamepad_dev abi vendor product version (device_name name))] in
     if fd < 0 then (NEARCADE_ERR_PERMISSION, unlock_input (sys [Sys_open fd] st1))
     else if write_dev_ret env < 0
     then (NEARCADE_ERR_NO_DEVICE, unlock_input (sys (setup @ [Sys_close fd]) st1))
     else if create_ret env < 0
     then (NEARCADE_ERR_NO_DEVICE,
           unlock_input (sys (setup @ [Sys_ioctl fd UI_DEV_CREATE, Sys_close fd]) st1))
     else (NEARCADE_OK,
           unlock_input
             ((sys (setup @ [Sys_ioctl fd UI_DEV_CREATE]) st1)
                \<lparr>gp_fds := (gp_fds st1)[unat slot := fd],
                 gp_names := (gp_names st1)[unat slot :=
                   strncpy (device_name name) 31 (gp_names st1 ! unat slot)]\<rparr>)))"
  using assms unfolding linux_input_alloc_slot_def cleared_def Let_def by simp

lemma gamepad_setup_nonempty [simp]: "gamepad_setup \<noteq> []"
  by (simp add: gamepad_setup_def)

lemma fds_ok_aborted:
  assumes "fds_ok st" and "fd \<notin> live {} (trace st)" and "0 \<le> fd"
    and "live (insert fd (live {} (trace st))) cs = insert fd (live {} (trace st))"
    and "sys_ok (insert fd (live {} (trace st))) cs"
  shows "fds_ok (sys ([Sys_open fd] @ cs @ [Sys_close fd]) st)"
  using assms by (simp add: fds_ok_def owned_def)

lemma fds_ok_open_failed: "fds_ok st \<Longrightarrow> fd < 0 \<Longrightarrow> fd \<notin> live {} (trace st) \<Longrightarrow> fds_ok (sys [Sys_open fd] st)"
  by (simp add: fds_ok_def owned_def)

lemma live_setup [simp, fd_simps]:
  "live L (map (Sys_ioctl fd) rs @ [Sys_write_dev fd d]) = L"
  "live L (map (Sys_ioctl fd) rs @ [Sys_write_dev fd d, Sys_ioctl fd r]) = L"
  "fd \<in> L \<Longrightarrow> sys_ok L (map (Sys_ioctl fd) rs @ [Sys_write_dev fd d])"
  "fd \<in> L \<Longrightarrow> sys_ok L (map (Sys_ioctl fd) rs @ [Sys_write_dev fd d, Sys_ioctl fd r])"
  by simp_all

lemma fds_ok_device:
  assumes "fds_ok st" and "fd \<notin> live {} (trace st)" and "0 \<le> fd"
    and "live (insert fd (live {} (trace st))) cs = insert fd (live {} (trace st))"
    and "sys_ok (insert fd (live {} (trace st))) cs"
    and "i < length (gp_fds st)" and "gp_fds st ! i = -1"
    and "trace st' = trace st @ [Sys_open fd] @ cs"
    and "gp_fds st' = (gp_fds st)[i := fd]" and "kbm_fd st' = kbm_fd st"
  shows "fds_ok st'"
proof -
  have "owned st' = add_mset fd (owned st)"
    using owned_gp_update[OF assms(6,9,10)] assms(3,7) by simp
  then show ?thesis using assms by (simp add: fds_ok_def)
qed

lemma linux_input_alloc_slot_inv [keeps]:
  assumes inv: "input_inv st" and fresh: "open_fresh env st"
  shows "input_inv (snd (linux_input_alloc_slot abi env slot vendor product version name st))"
proof (cases "unat slot < MAX_SLOTS")
  case False
  with inv show ?thesis by (simp add: linux_input_alloc_slot_def)
next
  case True
  let ?c = "cleared slot st" and ?fd = "open_ret env"
  let ?cs = "map (Sys_ioctl ?fd) gamepad_setup @
    [Sys_write_dev ?fd (gamepad_dev abi vendor product version (device_name name))]"
  note C = cleared_facts[OF inv True]
  have nl: "?fd \<notin> live {} (trace ?c)" using fresh C(5) by (auto simp: open_fresh_def)
  have shape: "input_shape (sys cs ?c)" for cs using C(1) by (simp add: input_shape_def)
  have lock: "input_lock (sys cs ?c) = Locked" for cs using C(2) by simp
  note E = linux_input_alloc_slot_eq[OF True, of abi env vendor product version name st]
  consider "?fd < 0" | "0 \<le> ?fd" "write_dev_ret env < 0"
    | "0 \<le> ?fd" "\<not> write_dev_ret env < 0" "create_ret env < 0"
    | "0 \<le> ?fd" "\<not> write_dev_ret env < 0" "\<not> create_ret env < 0" by linarith
  then show ?thesis
  proof cases
    case 1
    have "fds_ok (sys [Sys_open ?fd] ?c)" using fds_ok_open_failed[OF C(3) 1 nl] .
    with input_inv_unlock[OF shape lock] 1 show ?thesis by (simp add: E Let_def)
  next
    case 2
    have "fds_ok (sys ([Sys_open ?fd] @ ?cs @ [Sys_close ?fd]) ?c)"
      using fds_ok_aborted[OF C(3) nl 2(1), of ?cs] by simp
    with input_inv_unlock[OF shape lock] 2 show ?thesis by (simp add: E Let_def)
  next
    case 3
    have "fds_ok (sys ([Sys_open ?fd] @ (?cs @ [Sys_ioctl ?fd UI_DEV_CREATE]) @ [Sys_close ?fd]) ?c)"
      using fds_ok_aborted[OF C(3) nl 3(1), of "?cs @ [Sys_ioctl ?fd UI_DEV_CREATE]"] by simp
    with input_inv_unlock[OF shape lock] 3 show ?thesis by (simp add: E Let_def)
  next
    case 4
    let ?n = "strncpy (device_name name) 31 (gp_names ?c ! unat slot)"
    let ?s = "(sys ([Sys_open ?fd] @ ?cs @ [Sys_ioctl ?fd UI_DEV_CREATE]) ?c)
      \<lparr>gp_fds := (gp_fds ?c)[unat slot := ?fd], gp_names := (gp_names ?c)[unat slot := ?n]\<rparr>"
    have len: "unat slot < length (gp_fds ?c)" "unat slot < length (gp_names ?c)"
      using C(1) True by (simp_all add: input_shape_def)
    have "fds_ok ?s"
      using fds_ok_device[OF C(3) nl 4(1), of "?cs @ [Sys_ioctl ?fd UI_DEV_CREATE]" "unat slot" ?s]
        len C(4) by simp
    moreover have "buf_ok 32 ?n"
      using buf_ok_strncpy[of 32 "gp_names ?c ! unat slot"] C(1) len by (simp add: input_shape_def)
    then have "input_shape ?s"
      using C(1) 4(1) by (auto simp: input_shape_def dest: set_update_subset_insert[THEN subsetD])
    ultimately have "input_inv (unlock_input ?s)" using C(2) by (simp add: input_inv_unlock)
    with 4 show ?thesis by (simp add: E Let_def)
  qed
qed

lemma linux_input_alloc_slot_result:
  "fst (linux_input_alloc_slot abi env slot vendor product version name st) =
     (if unat slot \<ge> MAX_SLOTS then NEARCADE_ERR_INVALID_ARG
      else if open_ret env < 0 then NEARCADE_ERR_PERMISSION
      else if write_dev_ret env < 0 \<or> create_ret env < 0 then NEARCADE_ERR_NO_DEVICE
      else NEARCADE_OK)"
  by (simp add: linux_input_alloc_slot_def Let_def)

lemma linux_input_alloc_slot_gp_fds:
  assumes "input_inv st" and "unat slot < MAX_SLOTS"
  shows "gp_fds (snd (linux_input_alloc_slot abi env slot vendor product version name st)) =
    (gp_fds st)[unat slot :=
       if fst (linux_input_alloc_slot abi env slot vendor product version name st) = NEARCADE_OK
       then open_ret env else -1]"
proof -
  have sh: "length (gp_fds st) = 16" "\<forall>fd\<in>set (gp_fds st). -1 \<le> fd"
    using assms(1) by (simp_all add: input_inv_def input_shape_def)
  have "gp_fds (cleared slot st) = (gp_fds st)[unat slot := -1]"
  proof (cases "0 \<le> gp_fds st ! unat slot")
    case True
    then show ?thesis by (simp add: cleared_def)
  next
    case False
    have "-1 \<le> gp_fds st ! unat slot" using sh assms(2) by simp
    with False have "gp_fds st ! unat slot = -1" by simp
    then have "(gp_fds st)[unat slot := -1] = gp_fds st" by (metis list_update_id)
    with False show ?thesis by (simp add: cleared_def)
  qed
  then show ?thesis
    by (simp add: linux_input_alloc_slot_eq[OF assms(2)] Let_def)
qed

subsection \<open>Events\<close>

lemma linux_input_submit_gamepad_cases:
  "linux_input_submit_gamepad None st = (NEARCADE_ERR_INVALID_ARG, st)"
  "unat (pkt_slot p) \<ge> MAX_SLOTS \<Longrightarrow>
     linux_input_submit_gamepad (Some p) st =
       (NEARCADE_ERR_INVALID_ARG, unlock_input (lock_input st))"
  "unat (pkt_slot p) < MAX_SLOTS \<Longrightarrow> gp_fds st ! unat (pkt_slot p) < 0 \<Longrightarrow>
     linux_input_submit_gamepad (Some p) st =
       (NEARCADE_ERR_NO_DEVICE, unlock_input (lock_input st))"
  "unat (pkt_slot p) < MAX_SLOTS \<Longrightarrow> 0 \<le> gp_fds st ! unat (pkt_slot p) \<Longrightarrow>
     linux_input_submit_gamepad (Some p) st =
       (NEARCADE_OK,
        unlock_input (sys (ev_calls (gp_fds st ! unat (pkt_slot p))
          (gamepad_emits p @ [(EV_SYN, SYN_REPORT, 0)])) (lock_input st)))"
  by (simp_all add: linux_input_submit_gamepad_def Let_def syn_eq emit_all_eq
      ev_calls_append del: ev_calls_Cons)

lemma linux_input_submit_gamepad_inv [keeps]:
  assumes "input_inv st"
  shows "input_inv (snd (linux_input_submit_gamepad pkt st))"
proof (cases pkt)
  case None
  with assms show ?thesis by (simp add: linux_input_submit_gamepad_cases)
next
  case (Some p)
  let ?fd = "gp_fds st ! unat (pkt_slot p)"
  consider "unat (pkt_slot p) \<ge> MAX_SLOTS" | "unat (pkt_slot p) < MAX_SLOTS" "?fd < 0"
    | "unat (pkt_slot p) < MAX_SLOTS" "0 \<le> ?fd" by linarith
  then show ?thesis
  proof cases
    case 3
    have "fds_ok st" "unat (pkt_slot p) < length (gp_fds st)"
      using assms 3 by (simp_all add: input_inv_def input_shape_def)
    from gp_fd_live[OF this 3(2)] show ?thesis
      using input_inv_events[OF assms] by (simp add: Some linux_input_submit_gamepad_cases(4)[OF 3])
  qed (use assms in \<open>simp_all add: Some linux_input_submit_gamepad_cases(2,3) input_inv_relock\<close>)
qed

lemma linux_input_flush_slot_eq:
  "linux_input_flush_slot slot st =
     (NEARCADE_OK,
      if unat slot < MAX_SLOTS \<and> 0 \<le> gp_fds st ! unat slot
      then unlock_input (sys (ev_calls (gp_fds st ! unat slot)
             (flush_emits @ [(EV_SYN, SYN_REPORT, 0)])) (lock_input st))
      else unlock_input (lock_input st))"
  by (simp add: linux_input_flush_slot_def Let_def syn_eq emit_all_eq
      ev_calls_append del: ev_calls_Cons)

lemma linux_input_flush_slot_inv [keeps]:
  assumes "input_inv st"
  shows "input_inv (snd (linux_input_flush_slot slot st))"
proof (cases "unat slot < MAX_SLOTS \<and> 0 \<le> gp_fds st ! unat slot")
  case True
  have "fds_ok st" "unat slot < length (gp_fds st)"
    using assms True by (simp_all add: input_inv_def input_shape_def)
  from gp_fd_live[OF this] True show ?thesis
    using input_inv_events[OF assms] by (simp add: linux_input_flush_slot_eq)
next
  case False
  with assms show ?thesis by (auto simp: linux_input_flush_slot_eq input_inv_relock)
qed

lemma linux_input_submit_kbm_eq:
  "linux_input_submit_kbm abi viewer_id etype key dx dy st =
     (if kbm_fd st < 0 then (NEARCADE_ERR_NO_DEVICE, unlock_input (lock_input st))
      else (NEARCADE_OK,
            unlock_input (sys (ev_calls (kbm_fd st) (kbm_events abi etype key dx dy)) (lock_input st))))"
  by (auto simp: linux_input_submit_kbm_def kbm_events_def Let_def syn_eq emit_eq)

lemma linux_input_submit_kbm_inv [keeps]:
  assumes "input_inv st"
  shows "input_inv (snd (linux_input_submit_kbm abi viewer_id etype key dx dy st))"
proof (cases "kbm_fd st < 0")
  case True
  with assms show ?thesis by (simp add: linux_input_submit_kbm_eq input_inv_relock)
next
  case False
  have "fds_ok st" using assms by (simp add: input_inv_def)
  from kbm_fd_live[OF this] False show ?thesis
    using input_inv_events[OF assms] by (simp add: linux_input_submit_kbm_eq)
qed

lemma linux_frames [simp]:
  "gp_fds (snd (linux_input_submit_gamepad pkt st)) = gp_fds st"
  "kbm_fd (snd (linux_input_submit_gamepad pkt st)) = kbm_fd st"
  "gp_fds (snd (linux_input_flush_slot slot st)) = gp_fds st"
  "kbm_fd (snd (linux_input_flush_slot slot st)) = kbm_fd st"
  "gp_fds (snd (linux_input_submit_kbm abi viewer_id etype key dx dy st)) = gp_fds st"
  "kbm_fd (snd (linux_input_submit_kbm abi viewer_id etype key dx dy st)) = kbm_fd st"
proof -
  have e: "gp_fds (emit fd a b c s) = gp_fds s \<and> kbm_fd (emit fd a b c s) = kbm_fd s" for fd a b c s
    by (simp add: emit_def)
  then have ea: "gp_fds (emit_all fd es s) = gp_fds s \<and> kbm_fd (emit_all fd es s) = kbm_fd s" for fd es s
    by (induction es arbitrary: s) auto
  have sy: "gp_fds (syn fd s) = gp_fds s \<and> kbm_fd (syn fd s) = kbm_fd s" for fd s
    by (simp add: syn_def e)
  show "gp_fds (snd (linux_input_submit_gamepad pkt st)) = gp_fds st"
    "kbm_fd (snd (linux_input_submit_gamepad pkt st)) = kbm_fd st"
    by (simp_all add: linux_input_submit_gamepad_def Let_def sy ea split: option.split)
  show "gp_fds (snd (linux_input_flush_slot slot st)) = gp_fds st"
    "kbm_fd (snd (linux_input_flush_slot slot st)) = kbm_fd st"
    by (simp_all add: linux_input_flush_slot_eq)
  show "gp_fds (snd (linux_input_submit_kbm abi viewer_id etype key dx dy st)) = gp_fds st"
    "kbm_fd (snd (linux_input_submit_kbm abi viewer_id etype key dx dy st)) = kbm_fd st"
    by (simp_all add: linux_input_submit_kbm_eq)
qed

lemma linux_input_free_slot_no_gamepads [keeps]:
  assumes "no_gamepads st"
  shows "no_gamepads (snd (linux_input_free_slot slot st))"
  using assms by (simp add: linux_input_free_slot_def no_gamepads_def Let_def)

lemma linux_input_free_slot_kbm [simp]: "kbm_fd (snd (linux_input_free_slot slot st)) = kbm_fd st"
  by (simp add: linux_input_free_slot_def Let_def)

lemma linux_input_free_slot_result:
  "fst (linux_input_free_slot slot st) =
     (if unat slot \<ge> MAX_SLOTS then NEARCADE_ERR_INVALID_ARG else NEARCADE_OK)"
  by (simp add: linux_input_free_slot_def Let_def)

lemma linux_input_free_slot_gp_fds:
  assumes "unat slot < length (gp_fds st)" and "unat slot < MAX_SLOTS"
  shows "gp_fds (snd (linux_input_free_slot slot st)) ! unat slot < 0"
  using assms by (simp add: linux_input_free_slot_def Let_def)

lemma btn_val_bit: "btn_val btn (push_bit k 1) = of_bool (bit btn k)"
  using bit_imp_le_length[of btn k]
  by (auto simp: btn_val_def push_bit_of_1 and_exp_eq_0_iff_not_bit bit_uint_iff)

lemmas W3C_defs = W3C_A_def W3C_B_def W3C_Y_def W3C_X_def W3C_LB_def W3C_RB_def W3C_BACK_def
  W3C_START_def W3C_LS_def W3C_RS_def W3C_GUIDE_def

lemma not_bit_16 [simp]: "\<not> bit (w :: 16 word) 16"
  using bit_imp_le_length[of w 16] by auto

lemma last_value_append [simp]:
  "last_value fd code v (a @ b) = last_value fd code (last_value fd code v a) b"
  by (induction fd code v a rule: last_value.induct) auto

lemma last_value_ev_calls:
  "last_value fd code v (ev_calls fd es) =
     (case map (snd \<circ> snd) (filter (\<lambda>e. fst (snd e) = code) es) of
        [] \<Rightarrow> v | vs \<Rightarrow> last vs)"
proof (induction es arbitrary: v)
  case Nil
  then show ?case by simp
next
  case (Cons e es)
  then show ?case by (simp split: list.split)
qed

section \<open>Properties\<close>

lemma btn_val_W3C:
  "btn_val b W3C_A = of_bool (bit b 0)" "btn_val b W3C_B = of_bool (bit b 1)"
  "btn_val b W3C_Y = of_bool (bit b 2)" "btn_val b W3C_X = of_bool (bit b 3)"
  "btn_val b W3C_LB = of_bool (bit b 4)" "btn_val b W3C_RB = of_bool (bit b 5)"
  "btn_val b W3C_BACK = of_bool (bit b 8)" "btn_val b W3C_START = of_bool (bit b 9)"
  "btn_val b W3C_LS = of_bool (bit b 10)" "btn_val b W3C_RS = of_bool (bit b 11)"
  "btn_val b W3C_GUIDE = 0"
  by (simp_all only: W3C_defs btn_val_bit not_bit_16 of_bool_eq(1))

lemma gamepad_emits_report: "gamepad_emits p = pad_report p"
  unfolding gamepad_emits_def pad_report_def Let_def btn_val_W3C
  by (simp only: list.map append.simps prod.case)

text \<open>
  C5. Submitting a packet to a slot that has a device succeeds and writes exactly one report
  to that device: the eight axes, the ten buttons by their bits, a zero for the guide
  button, then the synchronisation event. A slot number of 16 or more is an invalid
  argument, a slot without device is reported as such, and neither writes anything. The
  descriptor tables never change and the lock is free again.
\<close>

theorem submit_gamepad_correct:
  assumes "input_lock st = Unlocked"
  shows "linux_input_submit_gamepad (Some p) st =
    (if unat (pkt_slot p) \<ge> MAX_SLOTS then (NEARCADE_ERR_INVALID_ARG, st)
     else if gp_fds st ! unat (pkt_slot p) < 0 then (NEARCADE_ERR_NO_DEVICE, st)
     else (NEARCADE_OK, st\<lparr>trace := trace st @
       ev_calls (gp_fds st ! unat (pkt_slot p)) (pad_report p @ [(EV_SYN, SYN_REPORT, 0)])\<rparr>))"
proof -
  have u: "unlock_input (sys cs (lock_input st)) = st\<lparr>trace := trace st @ cs\<rparr>" for cs
    using assms by (simp add: unlock_input_def lock_input_def sys_def)
  have "unlock_input (lock_input st) = st"
    using u[of "[]"] by simp
  then show ?thesis
    using linux_input_submit_gamepad_cases(2-4)[of p st] u
    by (simp add: gamepad_emits_report not_le not_less)
qed

theorem submit_gamepad_correct_witness:
  "\<exists>st. linux_input_submit_gamepad
     (Some \<lparr>pkt_type = 1, lx = 0, ly = 0x8001, rx = 0, ry = 0, lt = 0, rt = 0, buttons = 1,
            hx = 0, hy = 0, pkt_slot = 3\<rparr>)
     (input_static\<lparr>gp_fds := (replicate 16 (-1))[3 := 7]\<rparr>) = (NEARCADE_OK, st)
   \<and> length (trace st) = 20
   \<and> trace st ! 1 = Sys_write_ev 7 \<lparr>ie_type = EV_ABS, ie_code = ABS_Y, ie_value = -32767\<rparr>
   \<and> trace st ! 8 = Sys_write_ev 7 \<lparr>ie_type = EV_KEY, ie_code = BTN_SOUTH, ie_value = 1\<rparr>"
  using submit_gamepad_correct[of "input_static\<lparr>gp_fds := (replicate 16 (-1))[3 := 7]\<rparr>"
      "\<lparr>pkt_type = 1, lx = 0, ly = 0x8001, rx = 0, ry = 0, lt = 0, rt = 0, buttons = 1,
            hx = 0, hy = 0, pkt_slot = 3\<rparr>"]
  by (simp add: input_static_def pad_report_def)

lemma sint16_min: "-32767 \<le> sint w \<longleftrightarrow> w \<noteq> (0x8000 :: 16 word)"
proof -
  have "sint w \<ge> -32768" using sint_greater_eq[of w] by simp
  then have "-32767 \<le> sint w \<longleftrightarrow> sint w \<noteq> -32768" by auto
  also have "sint w = -32768 \<longleftrightarrow> sint w = sint (0x8000 :: 16 word)" by simp
  also have "\<dots> \<longleftrightarrow> w = 0x8000" by (metis signed_word_eqI)
  finally show ?thesis by simp
qed

lemma sint16_max: "sint (w :: 16 word) \<le> 32767"
  using sint_less[of w] by simp

lemma uint8_max: "uint (w :: 8 word) \<le> 255"
  using uint_bounded[of w] by simp

lemma gamepad_dev_abs:
  "uud_absmin (gamepad_dev abi v pr ver n) =
     (\<lambda>_. 0)(ABS_X := -32767, ABS_Y := -32767, ABS_RX := -32767, ABS_RY := -32767,
             ABS_HAT0X := -1, ABS_HAT0Y := -1)"
  "uud_absmax (gamepad_dev abi v pr ver n) =
     (\<lambda>_. 0)(ABS_X := 32767, ABS_Y := 32767, ABS_RX := 32767, ABS_RY := 32767,
             ABS_Z := 255, ABS_RZ := 255, ABS_HAT0X := 1, ABS_HAT0Y := 1)"
  by (simp_all add: gamepad_dev_def Let_def set_abs_def user_dev_def fun_eq_iff)

text \<open>
  C36. The axis values of a report lie in the ranges the device was registered with exactly
  when no stick component is the most negative 16-bit value and both hat components are
  -1, 0 or 1: the code clamps nothing, so a viewer that sends -32768 (or a larger hat value)
  produces an event outside the announced range.
\<close>

theorem axis_values_in_range:
  "(\<forall>(ty, c, v) \<in> set (gamepad_emits p). ty = EV_ABS \<longrightarrow>
      uud_absmin (gamepad_dev abi vendor product version name) c \<le> v \<and>
      v \<le> uud_absmax (gamepad_dev abi vendor product version name) c) \<longleftrightarrow>
   (\<forall>w\<in>{lx p, ly p, rx p, ry p}. w \<noteq> 0x8000) \<and>
   (\<forall>h\<in>{hx p, hy p}. sint h = -1 \<or> sint h = 0 \<or> sint h = 1)"
proof -
  have hat: "-1 \<le> sint h \<and> sint h \<le> 1 \<longleftrightarrow> sint h = -1 \<or> sint h = 0 \<or> sint h = 1"
    for h :: "8 word" by arith
  show ?thesis
    by (simp add: gamepad_emits_report pad_report_def gamepad_dev_abs sint16_min sint16_max
        uint8_max hat)
qed

theorem axis_values_in_range_witness:
  "\<not> (\<forall>(ty, c, v) \<in> set (gamepad_emits
       \<lparr>pkt_type = 1, lx = 0x8000, ly = 0, rx = 0, ry = 0, lt = 0, rt = 0, buttons = 0,
        hx = 0, hy = 0, pkt_slot = 3\<rparr>).
     ty = EV_ABS \<longrightarrow>
      uud_absmin (gamepad_dev \<lparr>abi_key = (\<lambda>_. 1), abi_name_size = 80\<rparr> 1 2 3 ''pad'') c \<le> v \<and>
      v \<le> uud_absmax (gamepad_dev \<lparr>abi_key = (\<lambda>_. 1), abi_name_size = 80\<rparr> 1 2 3 ''pad'') c)"
  unfolding axis_values_in_range by simp

text \<open>
  Every event of a report was announced when the slot's device was set up: its event type
  and its button or axis code were enabled before \<open>UI_DEV_CREATE\<close>, so the kernel drops none
  of them.
\<close>

lemma gamepad_events_enabled:
  assumes "(ty, c, v) \<in> set (gamepad_emits p)"
  shows "UI_SET_EVBIT ty \<in> set gamepad_setup \<and>
    (if ty = EV_KEY then UI_SET_KEYBIT c \<in> set gamepad_setup
     else ty = EV_ABS \<and> UI_SET_ABSBIT c \<in> set gamepad_setup)"
  using assms by (auto simp: gamepad_emits_report pad_report_def gamepad_setup_def)

lemma flush_covers:
  assumes "UI_SET_KEYBIT c \<in> set gamepad_setup \<or> UI_SET_ABSBIT c \<in> set gamepad_setup"
  shows "last_value fd c v (ev_calls fd (flush_emits @ [(EV_SYN, SYN_REPORT, 0)])) = 0"
  using assms
  by (auto simp: gamepad_setup_def flush_emits_def last_value_ev_calls)

lemma last_value_other: "fd \<noteq> fd' \<Longrightarrow> last_value fd' c v (ev_calls fd es) = v"
  by (induction es) auto

text \<open>
  Flushing a slot neutralises its controller: whatever was sent before, the last value
  sent for every button and axis the device has is 0, and no other device is touched.
  Flushing always reports success.
\<close>

lemma flush_neutralises:
  assumes "unat slot < MAX_SLOTS" and "gp_fds st ! unat slot = fd" and "0 \<le> fd"
    and "UI_SET_KEYBIT c \<in> set gamepad_setup \<or> UI_SET_ABSBIT c \<in> set gamepad_setup"
  shows "fst (linux_input_flush_slot slot st) = NEARCADE_OK
    \<and> last_value fd c 0 (trace (snd (linux_input_flush_slot slot st))) = 0
    \<and> (\<forall>fd' c'. fd' \<noteq> fd \<longrightarrow> last_value fd' c' 0 (trace (snd (linux_input_flush_slot slot st))) =
         last_value fd' c' 0 (trace st))"
  using assms
  by (simp add: linux_input_flush_slot_eq flush_covers last_value_other del: ev_calls_Cons)

lemma key_name_to_code_range:
  assumes "\<And>k. 0 < abi_key abi k \<and> abi_key abi k < 255"
  shows "key_name_to_code abi name = 0 \<or>
    (0 < key_name_to_code abi name \<and> key_name_to_code abi name < 255)"
  using assms by (simp add: key_name_to_code_def Let_def split: option.split)

lemma kbm_setup_key: "0 < k \<Longrightarrow> k < 255 \<Longrightarrow> UI_SET_KEYBIT (KEY_NUM k) \<in> set kbm_setup"
proof -
  assume "0 < k" "k < 255"
  then have "nat k \<in> {1..<255}" "int (nat k) = k" by auto
  then have "UI_SET_KEYBIT (KEY_NUM k) \<in> (\<lambda>i. UI_SET_KEYBIT (KEY_NUM (int i))) ` {1..<255}"
    by (metis rev_image_eqI)
  then show ?thesis unfolding kbm_setup_def by simp
qed

text \<open>
  With the kernel's key numbers in the range 1 to 254 (as its header defines them), every
  keyboard or mouse event that is written was announced when the keyboard/mouse device was
  created: its type is enabled, and so is its key or its relative axis.
\<close>

lemma kbm_events_enabled:
  assumes "\<And>k. 0 < abi_key abi k \<and> abi_key abi k < 255"
    and "(ty, c, v) \<in> set (kbm_events abi etype key dx dy)"
  shows "UI_SET_EVBIT ty \<in> set kbm_setup \<and>
    (case ty of EV_KEY \<Rightarrow> UI_SET_KEYBIT c \<in> set kbm_setup
     | EV_REL \<Rightarrow> UI_SET_RELBIT c \<in> set kbm_setup
     | _ \<Rightarrow> ty = EV_SYN)"
proof -
  have types: "UI_SET_EVBIT EV_KEY \<in> set kbm_setup" "UI_SET_EVBIT EV_REL \<in> set kbm_setup"
    "UI_SET_EVBIT EV_SYN \<in> set kbm_setup" "UI_SET_RELBIT REL_X \<in> set kbm_setup"
    "UI_SET_RELBIT REL_Y \<in> set kbm_setup"
    by (simp_all add: kbm_setup_def)
  let ?k = "key_name_to_code abi key"
  have "UI_SET_KEYBIT (KEY_NUM (take_bit 16 ?k)) \<in> set kbm_setup" if "0 < ?k"
  proof -
    have "?k < 255" using key_name_to_code_range[OF assms(1), of key] that by auto
    with that have "take_bit 16 ?k = ?k" by (simp add: take_bit_int_eq_self)
    then show ?thesis using kbm_setup_key[of ?k] that \<open>?k < 255\<close> by simp
  qed
  with types assms(2) show ?thesis
    by (auto simp: kbm_events_def split: if_splits)
qed

text \<open>
  A freshly allocated slot works until it is freed: after a successful allocation the
  slot's device is the new descriptor under the given name (cut to 31 characters), packets
  for it are accepted, freeing it succeeds, and packets for it are then refused with
  \<open>NEARCADE_ERR_NO_DEVICE\<close>. Allocation fails exactly when the slot number is out of range
  or the kernel refuses one of the three steps, with the error code of that step.
\<close>

lemma alloc_submit_free:
  fixes abi env slot vendor product version name st p
  defines "r \<equiv> linux_input_alloc_slot abi env slot vendor product version name st"
  assumes "input_inv st" and "open_fresh env st" and "c_string (device_name name)"
    and "pkt_slot p = slot"
  shows "fst r = (if unat slot \<ge> MAX_SLOTS then NEARCADE_ERR_INVALID_ARG
      else if open_ret env < 0 then NEARCADE_ERR_PERMISSION
      else if write_dev_ret env < 0 \<or> create_ret env < 0 then NEARCADE_ERR_NO_DEVICE
      else NEARCADE_OK)
    \<and> (fst r = NEARCADE_OK \<longrightarrow>
         gp_fds (snd r) ! unat slot = open_ret env
       \<and> cstr (gp_names (snd r) ! unat slot) = take 31 (device_name name)
       \<and> fst (linux_input_submit_gamepad (Some p) (snd r)) = NEARCADE_OK
       \<and> fst (linux_input_free_slot slot (snd r)) = NEARCADE_OK
       \<and> fst (linux_input_submit_gamepad (Some p) (snd (linux_input_free_slot slot (snd r))))
           = NEARCADE_ERR_NO_DEVICE)"
proof (rule conjI[OF _ impI], simp add: r_def linux_input_alloc_slot_result)
  assume ok: "fst r = NEARCADE_OK"
  then have slot: "unat slot < MAX_SLOTS" and fd: "0 \<le> open_ret env"
    and w: "\<not> write_dev_ret env < 0" "\<not> create_ret env < 0"
    by (auto simp: r_def linux_input_alloc_slot_result split: if_splits)
  have inv: "input_inv (snd r)"
    unfolding r_def using assms(2,3) by (rule linux_input_alloc_slot_inv)
  then have len: "length (gp_fds (snd r)) = 16" by (simp add: input_inv_def input_shape_def)
  have gp: "gp_fds (snd r) ! unat slot = open_ret env"
    using linux_input_alloc_slot_gp_fds[OF assms(2) slot] ok slot assms(2)
    by (simp add: r_def input_inv_def input_shape_def)
  note C = cleared_facts[OF assms(2) slot]
  have "buf_ok 32 (gp_names (cleared slot st) ! unat slot)"
    and ln: "length (gp_names (cleared slot st)) = 16"
    using C(1) slot by (simp_all add: input_shape_def)
  from cstr_strncpy[OF this(1) assms(4)]
  have nm: "cstr (gp_names (snd r) ! unat slot) = take 31 (device_name name)"
    using w fd ln slot by (simp add: r_def linux_input_alloc_slot_eq[OF slot] Let_def)
  have "gp_fds (snd (linux_input_free_slot slot (snd r))) ! unat slot < 0"
    using linux_input_free_slot_gp_fds slot len by simp
  then show "gp_fds (snd r) ! unat slot = open_ret env
       \<and> cstr (gp_names (snd r) ! unat slot) = take 31 (device_name name)
       \<and> fst (linux_input_submit_gamepad (Some p) (snd r)) = NEARCADE_OK
       \<and> fst (linux_input_free_slot slot (snd r)) = NEARCADE_OK
       \<and> fst (linux_input_submit_gamepad (Some p) (snd (linux_input_free_slot slot (snd r))))
           = NEARCADE_ERR_NO_DEVICE"
    using gp nm fd slot assms(5)
    by (simp add: linux_input_submit_gamepad_cases linux_input_free_slot_result)
qed

lemma input_static_quiet: "input_quiet input_static"
  by (simp add: input_quiet_def input_static_def)

lemma input_started_inv: "input_inv input_started"
  unfolding input_started_def
  by (rule linux_input_init_inv[OF input_static_quiet]) (simp add: open_fresh_def input_static_def)

lemma input_started_live: "live {} (trace input_started) = {5}"
  by (simp add: input_started_def linux_input_init_def input_static_def env_ok_def
      create_kbm_device_def Let_def)

text \<open>
  Before the first \<open>input_init\<close> the descriptor table is zero-filled, not filled with -1:
  a packet for any of the 16 slots is accepted as if a device existed and its 20 events are
  written to descriptor 0, the standard input of the host process.
\<close>

lemma submit_before_init_writes_descriptor_0:
  assumes "unat (pkt_slot p) < MAX_SLOTS"
  shows "fst (linux_input_submit_gamepad (Some p) input_static) = NEARCADE_OK
    \<and> trace (snd (linux_input_submit_gamepad (Some p) input_static)) =
        ev_calls 0 (pad_report p @ [(EV_SYN, SYN_REPORT, 0)])"
proof -
  have "gp_fds input_static ! unat (pkt_slot p) = 0"
    using assms by (simp add: input_static_def)
  then show ?thesis
    using linux_input_submit_gamepad_cases(4)[OF assms, of input_static]
    by (simp add: gamepad_emits_report input_static_def)
qed

end
