(* ===== verification/Input_Stubs.thy ===== *)
theory Input_Stubs
  imports Nearcade_Types
begin

text \<open>
  \<open>src/input_win.c\<close> and \<open>src/input_mac.c\<close>: the backends of the platforms without injection.
  Both only log; the model keeps their arguments and returns the state of the caller
  untouched.
\<close>

section \<open>Windows\<close>

definition win_input_init :: "'s \<Rightarrow> nearcade_error \<times> 's" where
  "win_input_init st = (NEARCADE_OK, st)"

definition win_input_shutdown :: "'s \<Rightarrow> 's" where
  "win_input_shutdown st = st"

definition win_input_alloc_slot ::
    "8 word \<Rightarrow> 16 word \<Rightarrow> 16 word \<Rightarrow> 16 word \<Rightarrow> string option \<Rightarrow> 's \<Rightarrow> nearcade_error \<times> 's" where
  "win_input_alloc_slot slot vendor product version name st = (NEARCADE_OK, st)"

definition win_input_free_slot :: "8 word \<Rightarrow> 's \<Rightarrow> nearcade_error \<times> 's" where
  "win_input_free_slot slot st = (NEARCADE_OK, st)"

definition win_input_submit_gamepad :: "nearcade_gamepad_packet option \<Rightarrow> 's \<Rightarrow> nearcade_error \<times> 's" where
  "win_input_submit_gamepad pkt st = (NEARCADE_OK, st)"

definition win_input_submit_kbm ::
    "string \<Rightarrow> string \<Rightarrow> string option \<Rightarrow> int \<Rightarrow> int \<Rightarrow> 's \<Rightarrow> nearcade_error \<times> 's" where
  "win_input_submit_kbm viewer_id etype key dx dy st = (NEARCADE_OK, st)"

definition win_input_flush_slot :: "8 word \<Rightarrow> 's \<Rightarrow> nearcade_error \<times> 's" where
  "win_input_flush_slot slot st = (NEARCADE_OK, st)"

section \<open>macOS\<close>

definition mac_input_init :: "'s \<Rightarrow> nearcade_error \<times> 's" where
  "mac_input_init st = (NEARCADE_OK, st)"

definition mac_input_shutdown :: "'s \<Rightarrow> 's" where
  "mac_input_shutdown st = st"

definition mac_input_alloc_slot ::
    "8 word \<Rightarrow> 16 word \<Rightarrow> 16 word \<Rightarrow> 16 word \<Rightarrow> string option \<Rightarrow> 's \<Rightarrow> nearcade_error \<times> 's" where
  "mac_input_alloc_slot slot vendor product version name st = (NEARCADE_OK, st)"

definition mac_input_free_slot :: "8 word \<Rightarrow> 's \<Rightarrow> nearcade_error \<times> 's" where
  "mac_input_free_slot slot st = (NEARCADE_OK, st)"

definition mac_input_submit_gamepad :: "nearcade_gamepad_packet option \<Rightarrow> 's \<Rightarrow> nearcade_error \<times> 's" where
  "mac_input_submit_gamepad pkt st = (NEARCADE_OK, st)"

definition mac_input_submit_kbm ::
    "string \<Rightarrow> string \<Rightarrow> string option \<Rightarrow> int \<Rightarrow> int \<Rightarrow> 's \<Rightarrow> nearcade_error \<times> 's" where
  "mac_input_submit_kbm viewer_id etype key dx dy st = (NEARCADE_OK, st)"

definition mac_input_flush_slot :: "8 word \<Rightarrow> 's \<Rightarrow> nearcade_error \<times> 's" where
  "mac_input_flush_slot slot st = (NEARCADE_OK, st)"

lemmas win_input_defs = win_input_init_def win_input_shutdown_def win_input_alloc_slot_def
  win_input_free_slot_def win_input_submit_gamepad_def win_input_submit_kbm_def
  win_input_flush_slot_def

lemmas mac_input_defs = mac_input_init_def mac_input_shutdown_def mac_input_alloc_slot_def
  mac_input_free_slot_def mac_input_submit_gamepad_def mac_input_submit_kbm_def
  mac_input_flush_slot_def

end
