(* ===== verification/Input_Backend.thy ===== *)
theory Input_Backend
  imports Input_Linux Input_Stubs
begin

text \<open>
  The backend interface that \<open>src/nearcade_internal.h\<close> declares and \<open>CMakeLists.txt\<close> resolves
  by platform, as functions that dispatch on the platform, and the contract the
  orchestrator relies on: initialisation from a quiet state either establishes the
  backend's invariant or leaves the state quiet, every call keeps the invariant, and
  shutdown returns to a quiet state. The three backends are interpretations of it.
\<close>

definition input_init ::
    "platform \<Rightarrow> evdev_abi \<Rightarrow> uinput_env \<Rightarrow> input_state \<Rightarrow> nearcade_error \<times> input_state" where
  "input_init plat abi env st =
     (case plat of Linux \<Rightarrow> linux_input_init abi env st
      | Windows \<Rightarrow> win_input_init st | MacOS \<Rightarrow> mac_input_init st)"

definition input_shutdown :: "platform \<Rightarrow> input_state \<Rightarrow> input_state" where
  "input_shutdown plat st =
     (case plat of Linux \<Rightarrow> linux_input_shutdown st
      | Windows \<Rightarrow> win_input_shutdown st | MacOS \<Rightarrow> mac_input_shutdown st)"

definition input_alloc_slot ::
    "platform \<Rightarrow> evdev_abi \<Rightarrow> uinput_env \<Rightarrow> 8 word \<Rightarrow> 16 word \<Rightarrow> 16 word \<Rightarrow> 16 word \<Rightarrow> string option
     \<Rightarrow> input_state \<Rightarrow> nearcade_error \<times> input_state" where
  "input_alloc_slot plat abi env slot vendor product version name st =
     (case plat of Linux \<Rightarrow> linux_input_alloc_slot abi env slot vendor product version name st
      | Windows \<Rightarrow> win_input_alloc_slot slot vendor product version name st
      | MacOS \<Rightarrow> mac_input_alloc_slot slot vendor product version name st)"

definition input_free_slot :: "platform \<Rightarrow> 8 word \<Rightarrow> input_state \<Rightarrow> nearcade_error \<times> input_state" where
  "input_free_slot plat slot st =
     (case plat of Linux \<Rightarrow> linux_input_free_slot slot st
      | Windows \<Rightarrow> win_input_free_slot slot st | MacOS \<Rightarrow> mac_input_free_slot slot st)"

definition input_submit_gamepad ::
    "platform \<Rightarrow> nearcade_gamepad_packet option \<Rightarrow> input_state \<Rightarrow> nearcade_error \<times> input_state" where
  "input_submit_gamepad plat pkt st =
     (case plat of Linux \<Rightarrow> linux_input_submit_gamepad pkt st
      | Windows \<Rightarrow> win_input_submit_gamepad pkt st | MacOS \<Rightarrow> mac_input_submit_gamepad pkt st)"

definition input_submit_kbm ::
    "platform \<Rightarrow> evdev_abi \<Rightarrow> string \<Rightarrow> string \<Rightarrow> string option \<Rightarrow> int \<Rightarrow> int
     \<Rightarrow> input_state \<Rightarrow> nearcade_error \<times> input_state" where
  "input_submit_kbm plat abi viewer_id etype key dx dy st =
     (case plat of Linux \<Rightarrow> linux_input_submit_kbm abi viewer_id etype key dx dy st
      | Windows \<Rightarrow> win_input_submit_kbm viewer_id etype key dx dy st
      | MacOS \<Rightarrow> mac_input_submit_kbm viewer_id etype key dx dy st)"

definition input_flush_slot :: "platform \<Rightarrow> 8 word \<Rightarrow> input_state \<Rightarrow> nearcade_error \<times> input_state" where
  "input_flush_slot plat slot st =
     (case plat of Linux \<Rightarrow> linux_input_flush_slot slot st
      | Windows \<Rightarrow> win_input_flush_slot slot st | MacOS \<Rightarrow> mac_input_flush_slot slot st)"

text \<open>A call of the interface as data, so that whole sessions can be quantified over.\<close>

datatype input_op =
    Alloc uinput_env "8 word" "16 word" "16 word" "16 word" "string option"
  | Free "8 word"
  | Submit "nearcade_gamepad_packet option"
  | Kbm string string "string option" int int
  | Flush "8 word"

fun exec_op :: "platform \<Rightarrow> evdev_abi \<Rightarrow> input_op \<Rightarrow> input_state \<Rightarrow> nearcade_error \<times> input_state" where
  "exec_op plat abi (Alloc env slot vendor product version name) st =
     input_alloc_slot plat abi env slot vendor product version name st"
| "exec_op plat abi (Free slot) st = input_free_slot plat slot st"
| "exec_op plat abi (Submit pkt) st = input_submit_gamepad plat pkt st"
| "exec_op plat abi (Kbm vid etype key dx dy) st = input_submit_kbm plat abi vid etype key dx dy st"
| "exec_op plat abi (Flush slot) st = input_flush_slot plat slot st"

text \<open>The kernel's promise for an allocation: \<open>open\<close> returns no descriptor still in use.\<close>

fun op_fresh :: "input_op \<Rightarrow> input_state \<Rightarrow> bool" where
  "op_fresh (Alloc env _ _ _ _ _) st = open_fresh env st"
| "op_fresh _ st = True"

fun run_ops :: "platform \<Rightarrow> evdev_abi \<Rightarrow> input_op list \<Rightarrow> input_state \<Rightarrow> input_state" where
  "run_ops plat abi [] st = st"
| "run_ops plat abi (c # cs) st = run_ops plat abi cs (snd (exec_op plat abi c st))"

fun ops_fresh :: "platform \<Rightarrow> evdev_abi \<Rightarrow> input_op list \<Rightarrow> input_state \<Rightarrow> bool" where
  "ops_fresh plat abi [] st = True"
| "ops_fresh plat abi (c # cs) st =
     (op_fresh c st \<and> ops_fresh plat abi cs (snd (exec_op plat abi c st)))"


section \<open>The contract\<close>

locale input_backend =
  fixes quiet :: "'s \<Rightarrow> bool"
    and inv :: "'s \<Rightarrow> bool"
    and fresh :: "'e \<Rightarrow> 's \<Rightarrow> bool"
    and adm :: "'op \<Rightarrow> 's \<Rightarrow> bool"
    and init :: "'e \<Rightarrow> 's \<Rightarrow> nearcade_error \<times> 's"
    and shutdown :: "'s \<Rightarrow> 's"
    and exec :: "'op \<Rightarrow> 's \<Rightarrow> nearcade_error \<times> 's"
  assumes init_inv: "quiet s \<Longrightarrow> fresh e s \<Longrightarrow> inv (snd (init e s))"
    and init_fail: "quiet s \<Longrightarrow> fresh e s \<Longrightarrow> fst (init e s) \<noteq> NEARCADE_OK \<Longrightarrow> quiet (snd (init e s))"
    and exec_inv: "inv s \<Longrightarrow> adm c s \<Longrightarrow> inv (snd (exec c s))"
    and shutdown_quiet: "inv s \<Longrightarrow> quiet (shutdown s)"
begin

fun run :: "'op list \<Rightarrow> 's \<Rightarrow> 's" where
  "run [] s = s"
| "run (c # cs) s = run cs (snd (exec c s))"

fun run_adm :: "'op list \<Rightarrow> 's \<Rightarrow> bool" where
  "run_adm [] s = True"
| "run_adm (c # cs) s = (adm c s \<and> run_adm cs (snd (exec c s)))"

lemma run_inv: "inv s \<Longrightarrow> run_adm cs s \<Longrightarrow> inv (run cs s)"
  by (induction cs arbitrary: s) (auto intro: exec_inv)

text \<open>Whole life cycles, one after another: each starts from what the previous one left.\<close>

lemma session_quiet:
  assumes "quiet s" and "fresh e s" and "run_adm cs (snd (init e s))"
  shows "quiet (shutdown (run cs (snd (init e s))))"
  using assms by (blast intro: shutdown_quiet run_inv init_inv)

fun sessions :: "('e \<times> 'op list) list \<Rightarrow> 's \<Rightarrow> 's" where
  "sessions [] s = s"
| "sessions ((e, cs) # ss) s = sessions ss (shutdown (run cs (snd (init e s))))"

fun sessions_adm :: "('e \<times> 'op list) list \<Rightarrow> 's \<Rightarrow> bool" where
  "sessions_adm [] s = True"
| "sessions_adm ((e, cs) # ss) s =
     (fresh e s \<and> run_adm cs (snd (init e s)) \<and>
      sessions_adm ss (shutdown (run cs (snd (init e s)))))"

lemma sessions_quiet: "quiet s \<Longrightarrow> sessions_adm ss s \<Longrightarrow> quiet (sessions ss s)"
  by (induction ss s rule: sessions.induct) (auto intro: session_quiet)

end


section \<open>The backends meet the contract\<close>

lemma exec_op_Linux_inv [keeps]:
  "input_inv st \<Longrightarrow> op_fresh c st \<Longrightarrow> input_inv (snd (exec_op Linux abi c st))"
  by (cases c)
    (auto simp: input_alloc_slot_def input_free_slot_def input_submit_gamepad_def
      input_submit_kbm_def input_flush_slot_def intro!: keeps)

interpretation uinput: input_backend input_quiet input_inv open_fresh op_fresh
  "input_init Linux abi" "input_shutdown Linux" "exec_op Linux abi" for abi
  by unfold_locales
    (auto simp: input_init_def input_shutdown_def
      intro: linux_input_init_inv linux_input_init_fail_quiet exec_op_Linux_inv linux_input_shutdown_quiet)

lemma exec_op_stub: "plat \<noteq> Linux \<Longrightarrow> exec_op plat abi c st = (NEARCADE_OK, st)"
  by (cases plat; cases c)
    (simp_all add: input_alloc_slot_def input_free_slot_def input_submit_gamepad_def
      input_submit_kbm_def input_flush_slot_def win_input_defs mac_input_defs)

text \<open>The stub backends keep whatever state they find, so their invariant is that state.\<close>

interpretation vigem: input_backend "\<lambda>st. st = s0" "\<lambda>st. st = s0" "\<lambda>_ _. True" "\<lambda>_ _. True"
  "input_init Windows abi" "input_shutdown Windows" "exec_op Windows abi" for abi s0
  by unfold_locales (auto simp: input_init_def input_shutdown_def exec_op_stub win_input_defs)

interpretation hid_stub: input_backend "\<lambda>st. st = s0" "\<lambda>st. st = s0" "\<lambda>_ _. True" "\<lambda>_ _. True"
  "input_init MacOS abi" "input_shutdown MacOS" "exec_op MacOS abi" for abi s0
  by unfold_locales (auto simp: input_init_def input_shutdown_def exec_op_stub mac_input_defs)

lemma run_ops_Linux: "run_ops Linux abi cs st = uinput.run abi cs st"
  by (induction cs arbitrary: st) simp_all

lemma ops_fresh_Linux: "ops_fresh Linux abi cs st = uinput.run_adm abi cs st"
  by (induction cs arbitrary: st) simp_all

lemma run_ops_stub: "plat \<noteq> Linux \<Longrightarrow> run_ops plat abi cs st = st"
  by (induction cs arbitrary: st) (simp_all add: exec_op_stub)


section \<open>Properties\<close>

text \<open>
  C7. A life cycle of the Linux backend releases everything it acquired: from a state in
  which nothing is open, initialise, make any sequence of interface calls, shut down. Then
  no descriptor is open, every system call of the run was on a descriptor open at that
  moment (nothing is used after it was closed, nothing is closed twice), and the input lock
  is free. This holds whether initialisation and the allocations succeed or fail.
\<close>

theorem linux_session_releases_all:
  assumes "input_quiet st" and "open_fresh env st"
    and "ops_fresh Linux abi cs (snd (input_init Linux abi env st))"
  shows "let st' = input_shutdown Linux (run_ops Linux abi cs (snd (input_init Linux abi env st)))
    in live {} (trace st') = {} \<and> sys_ok {} (trace st') \<and> input_lock st' = Unlocked"
  using uinput.session_quiet[OF assms(1,2)] assms(3)
  by (simp add: run_ops_Linux ops_fresh_Linux input_quiet_def Let_def)

theorem linux_session_releases_all_witness:
  "live {} (trace (input_shutdown Linux (run_ops Linux linux_abi
     [Alloc (env_ok 6) 0 1 2 3 None, Kbm ''viewer_0'' ''mousemove'' None 100 50, Flush 0]
     (snd (input_init Linux linux_abi (env_ok 5) input_static))))) = {}"
proof -
  have start: "snd (input_init Linux linux_abi (env_ok 5) input_static) = input_started"
    by (simp add: input_init_def input_started_def)
  have "open_fresh (env_ok 5) input_static" by (simp add: open_fresh_def input_static_def)
  moreover have "ops_fresh Linux linux_abi
     [Alloc (env_ok 6) 0 1 2 3 None, Kbm ''viewer_0'' ''mousemove'' None 100 50, Flush 0] input_started"
    by (simp add: open_fresh_def input_started_live env_ok_def)
  ultimately show ?thesis
    using linux_session_releases_all[OF input_static_quiet, of "env_ok 5" linux_abi
      "[Alloc (env_ok 6) 0 1 2 3 None, Kbm ''viewer_0'' ''mousemove'' None 100 50, Flush 0]"]
    by (simp add: start Let_def)
qed

text \<open>
  On Windows and macOS the backend is inert, as the documentation says: every call of
  the interface reports success and changes nothing, in any order and number.
\<close>

lemma stub_backends_inert:
  assumes "plat = Windows \<or> plat = MacOS"
  shows "fst (input_init plat abi env st) = NEARCADE_OK
    \<and> fst (exec_op plat abi c st) = NEARCADE_OK
    \<and> input_shutdown plat (run_ops plat abi cs (snd (input_init plat abi env st))) = st"
proof -
  have "plat \<noteq> Linux" using assms by auto
  then show ?thesis
    using assms
    by (auto simp: exec_op_stub run_ops_stub input_init_def input_shutdown_def
        win_input_defs mac_input_defs)
qed

end
