(* ===== verification/Capture.thy ===== *)
theory Capture
  imports Nearcade_Types
begin

text \<open>
  \<open>src/capture.c\<close>: the legacy screen capture, an FFmpeg child process. The structure
  \<open>g_ff\<close> is the record \<open>ffmpeg_capture\<close> together with the process-control calls made so
  far. The operating system is a parameter: what \<open>fork\<close>, \<open>popen\<close> with \<open>fgets\<close>, and the
  up to three \<open>waitpid\<close> calls of one function answer is a record \<open>capture_env\<close>.
\<close>

datatype signal = SIGTERM | SIGKILL

datatype proc_call =
    P_fork int
  | P_exec int "string list"
  | P_kill int signal
  | P_waitpid int bool int
  | P_usleep nat

record capture_env =
  fork_ret :: int
  popen_line :: "string option"
  wait1 :: int
  wait2 :: int
  wait3 :: int

record ffmpeg_capture =
  ff_pid :: int
  ff_active :: bool
  ff_encoder :: cbuf
  ff_trace :: "proc_call list"

definition capture_static :: ffmpeg_capture where
  "capture_static = \<lparr>ff_pid = 0, ff_active = False, ff_encoder = zeroed 32, ff_trace = []\<rparr>"

definition proc :: "proc_call list \<Rightarrow> ffmpeg_capture \<Rightarrow> ffmpeg_capture" where
  "proc cs ff = ff\<lparr>ff_trace := ff_trace ff @ cs\<rparr>"

text \<open>\<open>fgets(buf, n, fp)\<close>: at most \<open>n - 1\<close> characters of the first line, newline included.\<close>

definition fgets :: "nat \<Rightarrow> string \<Rightarrow> string" where
  "fgets n s = take (n - 1) (takeWhile (\<lambda>c. c \<noteq> CHR 0x0A) s @ take 1 (dropWhile (\<lambda>c. c \<noteq> CHR 0x0A) s))"

definition detect_vaapi :: "capture_env \<Rightarrow> cbuf \<Rightarrow> bool \<times> cbuf" where
  "detect_vaapi env device =
     (case popen_line env of
        None \<Rightarrow> (False, device)
      | Some out \<Rightarrow>
          if take 3 (fgets 8 out) = ''yes''
          then (True, snprintf ''/dev/dri/renderD128'' (length device) device)
          else (False, device))"

text \<open>On Windows the four functions are stubs.\<close>

definition win_capture_init :: "ffmpeg_capture \<Rightarrow> nearcade_error \<times> ffmpeg_capture" where
  [simp]: "win_capture_init ff = (NEARCADE_OK, ff)"

definition win_capture_start :: "ffmpeg_capture \<Rightarrow> nearcade_error \<times> ffmpeg_capture" where
  [simp]: "win_capture_start ff = (NEARCADE_ERR_CAPTURE, ff)"

definition win_capture_stop :: "ffmpeg_capture \<Rightarrow> nearcade_error \<times> ffmpeg_capture" where
  [simp]: "win_capture_stop ff = (NEARCADE_OK, ff)"

definition win_capture_shutdown :: "ffmpeg_capture \<Rightarrow> ffmpeg_capture" where
  [simp]: "win_capture_shutdown ff = ff"

definition capture_init :: "platform \<Rightarrow> ffmpeg_capture \<Rightarrow> nearcade_error \<times> ffmpeg_capture" where
  "capture_init plat ff =
     (if plat = Windows then win_capture_init ff
      else (NEARCADE_OK, ff\<lparr>ff_pid := 0, ff_active := False, ff_encoder := zeroed 32\<rparr>))"

text \<open>C division truncates towards zero.\<close>

definition div_1000 :: "int \<Rightarrow> int" where
  "div_1000 x = (if x < 0 then - ((- x) div 1000) else x div 1000)"

definition ffmpeg_argv :: "nearcade_config \<Rightarrow> capture_env \<Rightarrow> string list" where
  "ffmpeg_argv cfg env =
     (let res = cstr (snprintf (fmt_d (screen_width cfg) @ ''x'' @ fmt_d (screen_height cfg)) 32 (zeroed 32));
          br = cstr (snprintf (fmt_d (div_1000 (max_bitrate cfg)) @ ''k'') 32 (zeroed 32));
          fps_str = cstr (snprintf (fmt_d (fps cfg)) 8 (zeroed 8));
          gop_str = cstr (snprintf (fmt_d (wrap32 (fps cfg * 2))) 8 (zeroed 8));
          (use_vaapi, vaapi_dev) = detect_vaapi env (zeroed 64)
      in if use_vaapi then
        [''ffmpeg'', ''-hide_banner'', ''-loglevel'', ''error'',
         ''-f'', ''x11grab'', ''-framerate'', fps_str, ''-video_size'', res, ''-i'', '':0'',
         ''-vf'', ''format=nv12,hwupload'', ''-vaapi_device'', cstr vaapi_dev,
         ''-c:v'', ''h264_vaapi'', ''-profile:v'', ''high'', ''-b:v'', br, ''-bf'', ''0'',
         ''-g'', gop_str, ''-tune'', ''zerolatency'', ''-f'', ''mp4'',
         ''-movflags'', ''empty_moov+default_base_moof+frag_keyframe'', ''pipe:1'']
      else
        [''ffmpeg'', ''-hide_banner'', ''-loglevel'', ''error'',
         ''-f'', ''x11grab'', ''-framerate'', fps_str, ''-video_size'', res, ''-i'', '':0'',
         ''-c:v'', ''libx264'', ''-preset'', ''ultrafast'', ''-tune'', ''zerolatency'',
         ''-b:v'', br, ''-bf'', ''0'', ''-g'', gop_str, ''-f'', ''mp4'',
         ''-movflags'', ''empty_moov+default_base_moof+frag_keyframe'', ''pipe:1''])"

text \<open>The parent's view; what the child does with its copy is the recorded \<open>exec\<close>.\<close>

definition capture_start ::
    "platform \<Rightarrow> nearcade_config \<Rightarrow> capture_env \<Rightarrow> ffmpeg_capture \<Rightarrow> nearcade_error \<times> ffmpeg_capture" where
  "capture_start plat cfg env ff =
     (if plat = Windows then win_capture_start ff
      else if plat \<noteq> Linux then (NEARCADE_ERR_CAPTURE, ff)
      else if ff_active ff then (NEARCADE_OK, ff)
      else
        let pid = fork_ret env; ff = proc [P_fork pid] ff in
        if pid < 0 then (NEARCADE_ERR_CAPTURE, ff)
        else (NEARCADE_OK, proc [P_exec pid (ffmpeg_argv cfg env)] ff\<lparr>ff_pid := pid, ff_active := True\<rparr>))"

definition capture_stop :: "platform \<Rightarrow> capture_env \<Rightarrow> ffmpeg_capture \<Rightarrow> nearcade_error \<times> ffmpeg_capture" where
  "capture_stop plat env ff =
     (if plat = Windows then win_capture_stop ff
      else if ff_active ff \<and> 0 < ff_pid ff then
        let pid = ff_pid ff;
            ff = proc [P_kill pid SIGTERM, P_waitpid pid True (wait1 env)] ff;
            ff = (if wait1 env = 0 then
                    let ff = proc [P_usleep 100000, P_waitpid pid True (wait2 env)] ff in
                    if wait2 env = 0
                    then proc [P_kill pid SIGKILL, P_waitpid pid False (wait3 env)] ff
                    else ff
                  else ff)
        in (NEARCADE_OK, ff\<lparr>ff_active := False, ff_pid := 0\<rparr>)
      else (NEARCADE_OK, ff))"

definition capture_shutdown :: "platform \<Rightarrow> capture_env \<Rightarrow> ffmpeg_capture \<Rightarrow> ffmpeg_capture" where
  "capture_shutdown plat env ff = (if plat = Windows then win_capture_shutdown ff else snd (capture_stop plat env ff))"


section \<open>Specification: child processes\<close>

text \<open>The children forked and not yet reaped, and the discipline of a run: signals and waits
  go to such a child only.\<close>

fun unreaped :: "int set \<Rightarrow> proc_call list \<Rightarrow> int set" where
  "unreaped K [] = K"
| "unreaped K (P_fork pid # t) = unreaped (if 0 < pid then insert pid K else K) t"
| "unreaped K (P_waitpid pid nohang r # t) = unreaped (if r = pid then K - {pid} else K) t"
| "unreaped K (_ # t) = unreaped K t"

fun proc_ok :: "int set \<Rightarrow> proc_call list \<Rightarrow> bool" where
  "proc_ok K [] = True"
| "proc_ok K (P_fork pid # t) = proc_ok (if 0 < pid then insert pid K else K) t"
| "proc_ok K (P_waitpid pid nohang r # t) =
     (pid \<in> K \<and> proc_ok (if r = pid then K - {pid} else K) t)"
| "proc_ok K (P_kill pid _ # t) = (pid \<in> K \<and> proc_ok K t)"
| "proc_ok K (_ # t) = proc_ok K t"

definition capture_inv :: "ffmpeg_capture \<Rightarrow> bool" where
  "capture_inv ff \<longleftrightarrow>
     (ff_active ff \<longrightarrow> 0 < ff_pid ff) \<and> proc_ok {} (ff_trace ff) \<and>
     unreaped {} (ff_trace ff) = (if ff_active ff then {ff_pid ff} else {})"

text \<open>In the parent \<open>fork\<close> returns a positive process id or -1. A \<open>waitpid\<close> with
  \<open>WNOHANG\<close> on an own child returns 0 or its id, a blocking one its id.\<close>

definition fork_parent :: "capture_env \<Rightarrow> bool" where
  "fork_parent env \<longleftrightarrow> fork_ret env \<noteq> 0"

definition wait_answers :: "capture_env \<Rightarrow> int \<Rightarrow> bool" where
  "wait_answers env pid \<longleftrightarrow>
     (wait1 env = 0 \<or> wait1 env = pid) \<and> (wait2 env = 0 \<or> wait2 env = pid) \<and> wait3 env = pid"

text \<open>A sequence of calls of the component.\<close>

datatype capture_op = Start capture_env | Stop capture_env

fun exec_capture :: "platform \<Rightarrow> nearcade_config \<Rightarrow> capture_op \<Rightarrow> ffmpeg_capture \<Rightarrow> ffmpeg_capture" where
  "exec_capture plat cfg (Start env) ff = snd (capture_start plat cfg env ff)"
| "exec_capture plat cfg (Stop env) ff = snd (capture_stop plat env ff)"

fun op_answers :: "capture_op \<Rightarrow> ffmpeg_capture \<Rightarrow> bool" where
  "op_answers (Start env) ff = fork_parent env"
| "op_answers (Stop env) ff = wait_answers env (ff_pid ff)"

fun run_capture :: "platform \<Rightarrow> nearcade_config \<Rightarrow> capture_op list \<Rightarrow> ffmpeg_capture \<Rightarrow> ffmpeg_capture" where
  "run_capture plat cfg [] ff = ff"
| "run_capture plat cfg (c # cs) ff = run_capture plat cfg cs (exec_capture plat cfg c ff)"

fun run_answers :: "platform \<Rightarrow> nearcade_config \<Rightarrow> capture_op list \<Rightarrow> ffmpeg_capture \<Rightarrow> bool" where
  "run_answers plat cfg [] ff = True"
| "run_answers plat cfg (c # cs) ff =
     (op_answers c ff \<and> run_answers plat cfg cs (exec_capture plat cfg c ff))"


section \<open>Facts\<close>

lemma unreaped_append [simp]: "unreaped K (a @ b) = unreaped (unreaped K a) b"
  by (induction K a rule: unreaped.induct) auto

lemma proc_ok_append [simp]: "proc_ok K (a @ b) \<longleftrightarrow> proc_ok K a \<and> proc_ok (unreaped K a) b"
  by (induction K a rule: proc_ok.induct) auto

lemma proc_fields [simp]:
  "ff_trace (proc cs ff) = ff_trace ff @ cs" "ff_pid (proc cs ff) = ff_pid ff"
  "ff_active (proc cs ff) = ff_active ff"
  by (simp_all add: proc_def)

lemma capture_static_inv: "capture_inv capture_static"
  by (simp add: capture_inv_def capture_static_def)

lemma capture_init_inv [keeps]:
  "capture_inv ff \<Longrightarrow> \<not> ff_active ff \<Longrightarrow> capture_inv (snd (capture_init plat ff))"
  by (simp add: capture_init_def capture_inv_def)

lemma capture_start_inv [keeps]:
  "capture_inv ff \<Longrightarrow> fork_parent env \<Longrightarrow> capture_inv (snd (capture_start plat cfg env ff))"
  by (auto simp: capture_start_def capture_inv_def fork_parent_def Let_def)

lemma capture_stop_inactive:
  "plat = Linux \<Longrightarrow> capture_inv ff \<Longrightarrow> \<not> ff_active (snd (capture_stop plat env ff))"
  by (auto simp: capture_stop_def capture_inv_def Let_def)

lemma capture_stop_inv [keeps]:
  "capture_inv ff \<Longrightarrow> wait_answers env (ff_pid ff) \<Longrightarrow> capture_inv (snd (capture_stop plat env ff))"
  by (auto simp: capture_stop_def capture_inv_def wait_answers_def Let_def)

lemma capture_shutdown_inv [keeps]:
  "capture_inv ff \<Longrightarrow> wait_answers env (ff_pid ff) \<Longrightarrow> capture_inv (capture_shutdown plat env ff)"
  by (simp add: capture_shutdown_def capture_stop_inv)

lemma capture_only_linux: "plat \<noteq> Linux \<Longrightarrow> \<not> ff_active ff \<Longrightarrow> \<not> ff_active (run_capture plat cfg cs ff)"
proof (induction cs arbitrary: ff)
  case Nil
  then show ?case by simp
next
  case (Cons c cs)
  then show ?case by (cases c) (simp_all add: capture_start_def capture_stop_def Let_def)
qed

lemma run_capture_inv:
  "capture_inv ff \<Longrightarrow> run_answers plat cfg cs ff \<Longrightarrow> capture_inv (run_capture plat cfg cs ff)"
proof (induction cs arbitrary: ff)
  case Nil
  then show ?case by simp
next
  case (Cons c cs)
  then show ?case by (cases c) (auto intro: capture_start_inv capture_stop_inv)
qed

lemma fmt_d_fits:
  assumes "0 \<le> i" and "i < 10 ^ k" and "0 < k"
  shows "length (fmt_d i) \<le> k"
  using assms fmt_nat_bound[of "nat i" k] by (simp add: fmt_d_def nat_less_iff)

lemma cstr_snprintf_fits:
  "c_string txt \<Longrightarrow> length txt < n \<Longrightarrow> cstr (snprintf txt n b) = txt"
  by (simp add: cstr_snprintf)


section \<open>Properties\<close>



text \<open>
  The FFmpeg command line carries the configuration exactly, with no truncation by the
  small text buffers: for a frame rate below five million and non-negative sizes and bit
  rate, the arguments after \<open>-framerate\<close>, \<open>-g\<close>, \<open>-video_size\<close> and \<open>-b:v\<close> are the frame
  rate, twice the frame rate, the size and the bit rate in thousands.
\<close>

lemma ffmpeg_argv_exact:
  assumes "0 \<le> fps cfg" and "fps cfg < 5000000"
    and "0 \<le> screen_width cfg" and "screen_width cfg < 2 ^ 31"
    and "0 \<le> screen_height cfg" and "screen_height cfg < 2 ^ 31"
    and "0 \<le> max_bitrate cfg" and "max_bitrate cfg < 2 ^ 31"
  shows "\<exists>pre post.
    ffmpeg_argv cfg env =
      [''ffmpeg'', ''-hide_banner'', ''-loglevel'', ''error'', ''-f'', ''x11grab'',
       ''-framerate'', fmt_d (fps cfg),
       ''-video_size'', fmt_d (screen_width cfg) @ ''x'' @ fmt_d (screen_height cfg)] @ pre @
      [''-b:v'', fmt_d (max_bitrate cfg div 1000) @ ''k'', ''-bf'', ''0'',
       ''-g'', fmt_d (2 * fps cfg)] @ post"
proof -
  have "length (fmt_d (fps cfg)) \<le> 7" and "length (fmt_d (2 * fps cfg)) \<le> 7"
    and "length (fmt_d (screen_width cfg)) \<le> 10" and "length (fmt_d (screen_height cfg)) \<le> 10"
    and "length (fmt_d (max_bitrate cfg div 1000)) \<le> 10"
    using assms by (intro fmt_d_fits; simp)+
  then have "cstr (snprintf (fmt_d (fps cfg)) 8 (zeroed 8)) = fmt_d (fps cfg)"
    "cstr (snprintf (fmt_d (2 * fps cfg)) 8 (zeroed 8)) = fmt_d (2 * fps cfg)"
    "cstr (snprintf (fmt_d (screen_width cfg) @ ''x'' @ fmt_d (screen_height cfg)) 32 (zeroed 32)) =
      fmt_d (screen_width cfg) @ ''x'' @ fmt_d (screen_height cfg)"
    "cstr (snprintf (fmt_d (max_bitrate cfg div 1000) @ ''k'') 32 (zeroed 32)) =
      fmt_d (max_bitrate cfg div 1000) @ ''k''"
    by (intro cstr_snprintf_fits; simp)+
  moreover have "wrap32 (fps cfg * 2) = 2 * fps cfg" using assms(1,2) by simp
  moreover have "div_1000 (max_bitrate cfg) = max_bitrate cfg div 1000"
    using assms(7) by (simp add: div_1000_def)
  moreover obtain use dev where "detect_vaapi env (zeroed 64) = (use, dev)" by force
  ultimately have "ffmpeg_argv cfg env =
      [''ffmpeg'', ''-hide_banner'', ''-loglevel'', ''error'', ''-f'', ''x11grab'',
       ''-framerate'', fmt_d (fps cfg),
       ''-video_size'', fmt_d (screen_width cfg) @ ''x'' @ fmt_d (screen_height cfg)] @
      (if use then [''-i'', '':0'', ''-vf'', ''format=nv12,hwupload'', ''-vaapi_device'', cstr dev,
         ''-c:v'', ''h264_vaapi'', ''-profile:v'', ''high'']
       else [''-i'', '':0'', ''-c:v'', ''libx264'', ''-preset'', ''ultrafast'',
         ''-tune'', ''zerolatency'']) @
      [''-b:v'', fmt_d (max_bitrate cfg div 1000) @ ''k'', ''-bf'', ''0'', ''-g'', fmt_d (2 * fps cfg)] @
      (if use then [''-tune'', ''zerolatency''] else []) @
      [''-f'', ''mp4'', ''-movflags'', ''empty_moov+default_base_moof+frag_keyframe'', ''pipe:1'']"
    by (simp add: ffmpeg_argv_def Let_def)
  then show ?thesis by blast
qed

end
