(* ===== verification/Signaling.thy ===== *)
theory Signaling
  imports Nearcade_Types Thread_Compat Slot_Table
begin

text \<open>
  \<open>src/signaling.c\<close>: the WebSocket signaling server. The file-level variables are the record
  \<open>signaling\<close>. A connection handle of libwebsockets is a number; \<open>NULL\<close> is \<open>None\<close>. The
  library is a parameter: the context and thread it creates, whether the buffer for a frame
  can be allocated and what \<open>lws_write\<close> returns are records of answers, and \<open>lws_trace\<close>
  holds the calls made to it.

  \<open>callback_signaling\<close> is the whole handler. The function pointers \<open>g_viewer_cb\<close> and
  \<open>g_msg_cb\<close> and the event delivery of \<open>fire_event\<close> are its arguments: functions on the
  state \<open>'w\<close> of the rest of the program.
\<close>

type_synonym lws = nat
type_synonym lws_context = nat

datatype lws_reason =
    LWS_CALLBACK_ESTABLISHED string
  | LWS_CALLBACK_CLOSED
  | LWS_CALLBACK_RECEIVE "char list"
  | LWS_CALLBACK_OTHER

datatype lws_call =
    L_create lws_context
  | L_destroy lws_context
  | L_write lws string int

record lws_env =
  malloc_ok :: bool
  write_ret :: int

record sig_env =
  created_ctx :: "lws_context option"
  thread_rc :: int

record signaling =
  g_wsi :: "lws_context option"
  g_host_ws :: "lws option"
  g_viewer_ws :: "lws option list"
  g_num_viewers :: int
  g_port :: int
  g_ws_lock :: mutex
  g_msg_cb :: bool
  g_viewer_cb :: bool
  lws_trace :: "lws_call list"

definition signaling_static :: signaling where
  "signaling_static =
     \<lparr>g_wsi = None, g_host_ws = None, g_viewer_ws = replicate MAX_VIEWERS None,
      g_num_viewers = 0, g_port = 3000, g_ws_lock = Unlocked,
      g_msg_cb = False, g_viewer_cb = False, lws_trace = []\<rparr>"


section \<open>Text\<close>

abbreviation DQ :: char where "DQ \<equiv> CHR 0x22"
abbreviation BS :: char where "BS \<equiv> CHR 0x5C"
abbreviation LF :: char where "LF \<equiv> CHR 0x0A"
abbreviation CR :: char where "CR \<equiv> CHR 0x0D"
abbreviation HT :: char where "HT \<equiv> CHR 0x09"

text \<open>The second character of the two-character escapes.\<close>

fun escape_of :: "char \<Rightarrow> char option" where
  "escape_of c =
     (if c = DQ then Some DQ
      else if c = BS then Some BS
      else if c = LF then Some (CHR ''n'')
      else if c = CR then Some (CHR ''r'')
      else if c = HT then Some (CHR ''t'')
      else None)"

text \<open>\<open>out_size - 1\<close> as a \<open>size_t\<close>.\<close>

definition size_minus_1 :: "nat \<Rightarrow> nat" where
  "size_minus_1 n = (if n = 0 then 2 ^ 64 - 1 else n - 1)"

fun json_escape_loop :: "nat \<Rightarrow> string \<Rightarrow> string \<Rightarrow> string" where
  "json_escape_loop out_size [] out = out"
| "json_escape_loop out_size (c # cs) out =
     (if length out < size_minus_1 out_size then
        json_escape_loop out_size cs
          (case escape_of c of
             Some e \<Rightarrow> (if length out + 2 < out_size then out @ [BS, e] else out)
           | None \<Rightarrow> out @ [c])
      else out)"

definition json_escape :: "string \<Rightarrow> nat \<Rightarrow> string" where
  "json_escape inp out_size = json_escape_loop out_size inp []"

definition quoted :: "string \<Rightarrow> string" where
  "quoted s = [DQ] @ s @ [DQ]"

text \<open>\<open>{"type":"T","K":"V"}\<close>\<close>

definition json_message :: "string \<Rightarrow> string \<Rightarrow> string \<Rightarrow> string" where
  "json_message t k v =
     ''{'' @ quoted ''type'' @ '':'' @ quoted t @ '','' @ quoted k @ '':'' @ quoted v @ ''}''"


section \<open>Connections\<close>

definition lock_ws :: "signaling \<Rightarrow> signaling" where
  "lock_ws st = st\<lparr>g_ws_lock := nearcade_mutex_lock (g_ws_lock st)\<rparr>"

definition unlock_ws :: "signaling \<Rightarrow> signaling" where
  "unlock_ws st = st\<lparr>g_ws_lock := nearcade_mutex_unlock (g_ws_lock st)\<rparr>"

definition viewer_ws_by_id :: "string option \<Rightarrow> signaling \<Rightarrow> lws option" where
  "viewer_ws_by_id viewer_id st =
     (case viewer_id of
        None \<Rightarrow> None
      | Some vid \<Rightarrow>
          (case sscanf_viewer vid of
             Some idx \<Rightarrow>
               if 0 \<le> idx \<and> idx < int MAX_VIEWERS then g_viewer_ws st ! nat idx else None
           | None \<Rightarrow> None))"

text \<open>The loop that takes the first free entry, with \<open>viewer_idx\<close> as its result.\<close>

definition register_viewer :: "lws \<Rightarrow> signaling \<Rightarrow> int \<times> signaling" where
  "register_viewer wsi st =
     (case first_index (\<lambda>w. w = None) (g_viewer_ws st) of
        Some i \<Rightarrow> (int i, st\<lparr>g_viewer_ws := (g_viewer_ws st)[i := Some wsi],
                            g_num_viewers := g_num_viewers st + 1\<rparr>)
      | None \<Rightarrow> (-1, st))"

definition callback_signaling ::
    "(int \<Rightarrow> bool \<Rightarrow> 'w \<Rightarrow> 'w) \<Rightarrow> (string \<Rightarrow> string \<Rightarrow> 'w \<Rightarrow> 'w) \<Rightarrow> (nearcade_event \<Rightarrow> 'w \<Rightarrow> 'w)
     \<Rightarrow> lws \<Rightarrow> lws_reason \<Rightarrow> signaling \<times> 'w \<Rightarrow> signaling \<times> 'w" where
  "callback_signaling viewer_cb msg_cb fire wsi reason = (\<lambda>(st, w).
     (case reason of
        LWS_CALLBACK_ESTABLISHED uri \<Rightarrow>
          let st = lock_ws st;
              (viewer_idx, st) =
                (if strstr uri ''/host'' \<noteq> None then (-1, st\<lparr>g_host_ws := Some wsi\<rparr>)
                 else if strstr uri ''/viewer'' \<noteq> None then register_viewer wsi st
                 else register_viewer wsi st);
              st = unlock_ws st
          in (st, if 0 \<le> viewer_idx \<and> g_viewer_cb st then viewer_cb viewer_idx True w else w)
      | LWS_CALLBACK_CLOSED \<Rightarrow>
          let st = lock_ws st;
              (closed_idx, st) =
                (if g_host_ws st = Some wsi then (-1, st\<lparr>g_host_ws := None\<rparr>)
                 else (case first_index (\<lambda>v. v = Some wsi) (g_viewer_ws st) of
                         Some i \<Rightarrow> (int i, st\<lparr>g_viewer_ws := (g_viewer_ws st)[i := None],
                                             g_num_viewers := g_num_viewers st - 1\<rparr>)
                       | None \<Rightarrow> (-1, st)));
              st = unlock_ws st
          in (st, if 0 \<le> closed_idx \<and> g_viewer_cb st then viewer_cb closed_idx False w else w)
      | LWS_CALLBACK_RECEIVE inp \<Rightarrow>
          let rx_buf = take 4095 inp @ [NUL];
              data = strncpy (cstr rx_buf) 2047 (zeroed 2048);
              st = lock_ws st;
              who = (if g_host_ws st = Some wsi then Some (snprintf ''host'' 64 (zeroed 64))
                     else (case first_index (\<lambda>v. v = Some wsi) (g_viewer_ws st) of
                             Some i \<Rightarrow> Some (snprintf (viewer_id_of (int i)) 64 (zeroed 64))
                           | None \<Rightarrow> None));
              st = unlock_ws st
          in (case who of
                None \<Rightarrow> (st, w)
              | Some viewer_id \<Rightarrow>
                  let w = (if g_msg_cb st \<and> g_host_ws st \<noteq> Some wsi
                           then msg_cb (cstr viewer_id) (cstr rx_buf) w else w)
                  in (st, fire (NEARCADE_EVENT_SIGNALING viewer_id data) w))
      | LWS_CALLBACK_OTHER \<Rightarrow> (st, w)))"

definition signaling_set_internal_callbacks :: "bool \<Rightarrow> bool \<Rightarrow> signaling \<Rightarrow> signaling" where
  "signaling_set_internal_callbacks msg_cb viewer_cb st =
     st\<lparr>g_msg_cb := msg_cb, g_viewer_cb := viewer_cb\<rparr>"

definition lws :: "lws_call list \<Rightarrow> signaling \<Rightarrow> signaling" where
  "lws cs st = st\<lparr>lws_trace := lws_trace st @ cs\<rparr>"

definition signaling_init :: "sig_env \<Rightarrow> nearcade_config \<Rightarrow> signaling \<Rightarrow> nearcade_error \<times> signaling" where
  "signaling_init env config st =
     (let st = st\<lparr>g_port := port config, g_wsi := created_ctx env\<rparr> in
      case created_ctx env of
        None \<Rightarrow> (NEARCADE_ERR_NETWORK, st)
      | Some ctx \<Rightarrow>
          let st = lws [L_create ctx] st in
          if thread_rc env \<noteq> 0
          then (NEARCADE_ERR_INIT, (lws [L_destroy ctx] st)\<lparr>g_wsi := None\<rparr>)
          else (NEARCADE_OK, st))"

definition signaling_shutdown :: "signaling \<Rightarrow> signaling" where
  "signaling_shutdown st =
     (let st = lock_ws st;
          ctx = g_wsi st;
          st = unlock_ws (st\<lparr>g_wsi := None, g_host_ws := None,
                             g_viewer_ws := replicate MAX_VIEWERS None, g_num_viewers := 0\<rparr>)
      in case ctx of None \<Rightarrow> st | Some c \<Rightarrow> lws [L_destroy c] st)"

definition signaling_get_url :: "cbuf \<Rightarrow> nat \<Rightarrow> cbuf \<Rightarrow> signaling \<Rightarrow> cbuf" where
  "signaling_get_url lan_ip buf_size buf st =
     snprintf (''ws://'' @ cstr lan_ip @ '':'' @ fmt_d (g_port st)) buf_size buf"


section \<open>Sending\<close>

definition send_to_lws ::
    "lws_env \<Rightarrow> lws option \<Rightarrow> string option \<Rightarrow> signaling \<Rightarrow> int \<times> signaling" where
  "send_to_lws env wsi data st =
     (case (wsi, data) of
        (Some w, Some d) \<Rightarrow>
          if length d = 0 then (-1, st)
          else if \<not> malloc_ok env then (-1, st)
          else
            let st = lws [L_write w d (write_ret env)] st in
            if write_ret env < 0 then (-1, st) else (0, st)
      | _ \<Rightarrow> (-1, st))"

definition signaling_send_to_viewer ::
    "lws_env \<Rightarrow> string option \<Rightarrow> string option \<Rightarrow> signaling \<Rightarrow> int \<times> signaling" where
  "signaling_send_to_viewer env viewer_id data st =
     (case (viewer_id, data) of
        (Some vid, Some d) \<Rightarrow>
          let st = lock_ws st;
              (ret, st) =
                (case viewer_ws_by_id (Some vid) st of
                   Some target \<Rightarrow> send_to_lws env (Some target) (Some d) st
                 | None \<Rightarrow> (-1, st))
          in (ret, unlock_ws st)
      | _ \<Rightarrow> (-1, st))"

definition signaling_send_offer ::
    "lws_env \<Rightarrow> string option \<Rightarrow> string option \<Rightarrow> signaling \<Rightarrow> int \<times> signaling" where
  "signaling_send_offer env viewer_id sdp st =
     (case sdp of
        None \<Rightarrow> (-1, st)
      | Some s \<Rightarrow>
          let buf = cstr (snprintf (json_message ''offer'' ''sdp'' (json_escape s 4096)) 4096 (zeroed 4096));
              st = lock_ws st;
              (ret, st) = send_to_lws env (g_host_ws st) (Some buf) st
          in (ret, unlock_ws st))"

definition signaling_send_answer ::
    "lws_env \<Rightarrow> string option \<Rightarrow> string option \<Rightarrow> signaling \<Rightarrow> int \<times> signaling" where
  "signaling_send_answer env viewer_id sdp st =
     (case sdp of
        None \<Rightarrow> (-1, st)
      | Some s \<Rightarrow>
          let buf = cstr (snprintf (json_message ''answer'' ''sdp'' (json_escape s 4096)) 4096 (zeroed 4096));
              st = lock_ws st;
              (ret, st) =
                (if viewer_id = Some ''host'' then send_to_lws env (g_host_ws st) (Some buf) st
                 else (case viewer_ws_by_id viewer_id st of
                         Some target \<Rightarrow> send_to_lws env (Some target) (Some buf) st
                       | None \<Rightarrow> send_to_lws env (g_host_ws st) (Some buf) st))
          in (ret, unlock_ws st))"

definition signaling_send_ice ::
    "lws_env \<Rightarrow> string option \<Rightarrow> string option \<Rightarrow> signaling \<Rightarrow> int \<times> signaling" where
  "signaling_send_ice env viewer_id candidate st =
     (case candidate of
        None \<Rightarrow> (-1, st)
      | Some s \<Rightarrow>
          let buf = cstr (snprintf (json_message ''ice'' ''candidate'' (json_escape s 4096)) 4096 (zeroed 4096));
              st = lock_ws st;
              (ret, st) =
                (if viewer_id = Some ''host'' then send_to_lws env (g_host_ws st) (Some buf) st
                 else (case viewer_ws_by_id viewer_id st of
                         Some target \<Rightarrow> send_to_lws env (Some target) (Some buf) st
                       | None \<Rightarrow> send_to_lws env (g_host_ws st) (Some buf) st))
          in (ret, unlock_ws st))"


section \<open>Specification\<close>

text \<open>The registry of viewers: every entry counted, every connection at most once.\<close>

definition registry_inv :: "signaling \<Rightarrow> bool" where
  "registry_inv st \<longleftrightarrow>
     length (g_viewer_ws st) = MAX_VIEWERS \<and>
     g_num_viewers st = int (length (filter (\<lambda>w. w \<noteq> None) (g_viewer_ws st)))"

definition viewers_distinct :: "signaling \<Rightarrow> bool" where
  "viewers_distinct st \<longleftrightarrow>
     (\<forall>i<MAX_VIEWERS. \<forall>j<MAX_VIEWERS. \<forall>w.
        g_viewer_ws st ! i = Some w \<longrightarrow> g_viewer_ws st ! j = Some w \<longrightarrow> i = j)"

definition sig_inv :: "signaling \<Rightarrow> bool" where
  "sig_inv st \<longleftrightarrow>
     registry_inv st \<and> viewers_distinct st \<and> g_ws_lock st = Unlocked \<and>
     (g_host_ws st = None \<or> g_host_ws st \<notin> set (g_viewer_ws st))"

definition viewer_at :: "signaling \<Rightarrow> nat \<Rightarrow> lws option" where
  "viewer_at st i = (if i < MAX_VIEWERS then g_viewer_ws st ! i else None)"

text \<open>Clearing an entry, as the \<open>CLOSED\<close> branch does once it has found the connection.\<close>

definition unregister_viewer :: "int \<Rightarrow> signaling \<Rightarrow> signaling" where
  "unregister_viewer r st =
     (if 0 \<le> r \<and> r < int MAX_VIEWERS \<and> g_viewer_ws st ! nat r \<noteq> None
      then st\<lparr>g_viewer_ws := (g_viewer_ws st)[nat r := None], g_num_viewers := g_num_viewers st - 1\<rparr>
      else st)"

text \<open>libwebsockets reports a connection once, before anything else about it.\<close>

definition wsi_fresh :: "lws \<Rightarrow> signaling \<Rightarrow> bool" where
  "wsi_fresh wsi st \<longleftrightarrow> Some wsi \<notin> set (g_viewer_ws st) \<and> g_host_ws st \<noteq> Some wsi"

text \<open>The body of a JSON string: no raw quote, no raw line break or tab, no dangling
  backslash. And its value, by the escapes of RFC 8259 that the code produces.\<close>

fun json_body :: "string \<Rightarrow> bool" where
  "json_body [] = True"
| "json_body [c] = (c \<notin> {BS, DQ, LF, CR, HT})"
| "json_body (c # d # ds) =
     (if c = BS then d \<in> {DQ, BS, CHR ''n'', CHR ''r'', CHR ''t''} \<and> json_body ds
      else c \<notin> {DQ, LF, CR, HT} \<and> json_body (d # ds))"

definition unescape_of :: "char \<Rightarrow> char" where
  "unescape_of d =
     (if d = CHR ''n'' then LF else if d = CHR ''r'' then CR else if d = CHR ''t'' then HT else d)"

fun json_value :: "string \<Rightarrow> string" where
  "json_value [] = []"
| "json_value [c] = (if c = BS then [] else [c])"
| "json_value (c # d # ds) =
     (if c = BS then unescape_of d # json_value ds else c # json_value (d # ds))"

definition escaped :: "char \<Rightarrow> string" where
  "escaped c = (case escape_of c of Some e \<Rightarrow> [BS, e] | None \<Rightarrow> [c])"


section \<open>Facts: escaping\<close>

lemma size_minus_1_pos: "0 < n \<Longrightarrow> size_minus_1 n = n - 1"
  by (simp add: size_minus_1_def)

lemma json_body_Cons: "c \<notin> {BS, DQ, LF, CR, HT} \<Longrightarrow> json_body (c # cs) = json_body cs"
  by (cases cs) auto

lemma json_value_Cons: "c \<noteq> BS \<Longrightarrow> json_value (c # cs) = c # json_value cs"
  by (cases cs) auto

lemma json_append:
  "json_body a \<Longrightarrow> json_body (a @ b) = json_body b \<and> json_value (a @ b) = json_value a @ json_value b"
proof (induction a rule: json_body.induct)
  case 1
  then show ?case by simp
next
  case (2 c)
  then show ?case by (simp add: json_body_Cons json_value_Cons)
next
  case (3 c d ds)
  then show ?case by (cases "c = BS") auto
qed

lemmas json_body_append = json_append[THEN conjunct1]

lemmas json_value_append = json_append[THEN conjunct2]

lemma json_body_escaped: "json_body (escaped c)"
  by (simp add: escaped_def)

lemma json_value_escaped: "json_value (escaped c) = [c]"
  by (simp add: escaped_def unescape_of_def)

lemma length_escaped: "length (escaped c) \<le> 2" "0 < length (escaped c)"
  by (simp_all add: escaped_def)

lemma json_escape_loop_bound:
  "0 < n \<Longrightarrow> length out < n \<Longrightarrow> json_body out \<Longrightarrow>
   length (json_escape_loop n s out) < n \<and> json_body (json_escape_loop n s out)"
proof (induction n s out rule: json_escape_loop.induct)
  case (1 n out)
  then show ?case by simp
next
  case (2 n c cs out)
  let ?out = "case escape_of c of Some e \<Rightarrow> (if length out + 2 < n then out @ [BS, e] else out)
    | None \<Rightarrow> out @ [c]"
  have body: "json_body (out @ escaped c)"
    using 2 json_body_escaped by (simp add: json_body_append)
  have "length ?out < n \<and> json_body ?out" if "length out < n - 1"
  proof (cases "escape_of c")
    case None
    with body that 2 show ?thesis by (simp add: escaped_def del: escape_of.simps)
  next
    case (Some e)
    with body that 2 show ?thesis by (simp add: escaped_def del: escape_of.simps)
  qed
  with 2 show ?case by (simp add: size_minus_1_pos del: escape_of.simps)
qed

lemma json_escape_loop_fits:
  "length out + length (concat (map escaped s)) < n \<Longrightarrow>
   json_escape_loop n s out = out @ concat (map escaped s)"
proof (induction s arbitrary: out)
  case Nil
  then show ?case by simp
next
  case (Cons c cs)
  have pos: "0 < n" using Cons.prems by simp
  show ?case
  proof (cases "escape_of c")
    case None
    with Cons pos show ?thesis by (simp add: escaped_def size_minus_1_pos del: escape_of.simps)
  next
    case (Some e)
    with Cons pos show ?thesis by (simp add: escaped_def size_minus_1_pos del: escape_of.simps)
  qed
qed

lemma json_escape_fits:
  "length (concat (map escaped s)) < n \<Longrightarrow> json_escape s n = concat (map escaped s)"
  using json_escape_loop_fits[of "[]" s n] by (simp add: json_escape_def)

lemma length_concat_escaped: "length (concat (map escaped s)) \<le> 2 * length s"
proof (induction s)
  case (Cons c cs)
  then show ?case using length_escaped(1)[of c] by simp
qed simp

lemma json_value_concat_escaped: "json_value (concat (map escaped s)) = s"
  by (induction s) (simp_all add: json_value_append json_body_escaped json_value_escaped)

lemma json_escape_safe: "0 < n \<Longrightarrow> length (json_escape s n) < n \<and> json_body (json_escape s n)"
  unfolding json_escape_def by (rule json_escape_loop_bound) simp_all

lemma json_escape_loop_kept:
  "\<exists>kept. subseq kept s \<and> json_escape_loop n s out = out @ concat (map escaped kept)"
proof (induction n s out rule: json_escape_loop.induct)
  case (1 n out)
  show ?case by (rule exI[of _ "[]"]) simp
next
  case (2 n c cs out)
  show ?case
  proof (cases "length out < size_minus_1 n")
    case False
    then show ?thesis by (intro exI[of _ "[]"]) simp
  next
    case True
    let ?out = "case escape_of c of Some e \<Rightarrow> (if length out + 2 < n then out @ [BS, e] else out) | None \<Rightarrow> out @ [c]"
    have x: "?out = out \<or> ?out = out @ escaped c"
      by (simp add: escaped_def del: escape_of.simps split: option.split)
    obtain kept where k: "subseq kept cs" "json_escape_loop n (c # cs) out = ?out @ concat (map escaped kept)"
      using "2.IH"[OF True] True by (auto simp del: escape_of.simps)
    have "subseq kept (c # cs)" "subseq (c # kept) (c # cs)" using k(1) by (auto intro: list_emb_Cons)
    moreover have "json_escape_loop n (c # cs) out = out @ concat (map escaped kept)
        \<or> json_escape_loop n (c # cs) out = out @ concat (map escaped (c # kept))"
      using x k(2) by (auto simp del: escape_of.simps json_escape_loop.simps)
    ultimately show ?thesis by blast
  qed
qed

lemma json_escape_subseq: "subseq (json_value (json_escape s n)) s"
  using json_escape_loop_kept[of s n "[]"] by (auto simp: json_escape_def json_value_concat_escaped)

lemma c_string_json_escape: 
  assumes "c_string s" shows "c_string (json_escape s n)"
proof -
  have "c_string out \<Longrightarrow> c_string s \<Longrightarrow> c_string (json_escape_loop n s out)" for out
    by (induction n s out rule: json_escape_loop.induct) (auto split: option.splits if_splits)
  with assms show ?thesis by (simp add: json_escape_def)
qed

lemma c_string_quoted [simp]: "c_string (quoted s) \<longleftrightarrow> c_string s"
  by (simp add: quoted_def)

lemma c_string_json_message [simp]:
  "c_string (json_message t k v) \<longleftrightarrow> c_string t \<and> c_string k \<and> c_string v"
  by (auto simp: json_message_def)

section \<open>Facts: the viewer registry\<close>

lemma lock_ws_fields [simp]:
  "g_wsi (lock_ws st) = g_wsi st" "g_host_ws (lock_ws st) = g_host_ws st"
  "g_viewer_ws (lock_ws st) = g_viewer_ws st" "g_num_viewers (lock_ws st) = g_num_viewers st"
  "g_port (lock_ws st) = g_port st" "g_msg_cb (lock_ws st) = g_msg_cb st"
  "g_viewer_cb (lock_ws st) = g_viewer_cb st" "lws_trace (lock_ws st) = lws_trace st"
  "g_ws_lock (lock_ws st) = nearcade_mutex_lock (g_ws_lock st)"
  by (simp_all add: lock_ws_def)

lemma unlock_ws_fields [simp]:
  "g_wsi (unlock_ws st) = g_wsi st" "g_host_ws (unlock_ws st) = g_host_ws st"
  "g_viewer_ws (unlock_ws st) = g_viewer_ws st" "g_num_viewers (unlock_ws st) = g_num_viewers st"
  "g_port (unlock_ws st) = g_port st" "g_msg_cb (unlock_ws st) = g_msg_cb st"
  "g_viewer_cb (unlock_ws st) = g_viewer_cb st" "lws_trace (unlock_ws st) = lws_trace st"
  "g_ws_lock (unlock_ws st) = nearcade_mutex_unlock (g_ws_lock st)"
  by (simp_all add: unlock_ws_def)

lemma lws_fields [simp]:
  "g_wsi (lws cs st) = g_wsi st" "g_host_ws (lws cs st) = g_host_ws st"
  "g_viewer_ws (lws cs st) = g_viewer_ws st" "g_num_viewers (lws cs st) = g_num_viewers st"
  "g_port (lws cs st) = g_port st" "g_msg_cb (lws cs st) = g_msg_cb st"
  "g_viewer_cb (lws cs st) = g_viewer_cb st" "lws_trace (lws cs st) = lws_trace st @ cs"
  "g_ws_lock (lws cs st) = g_ws_lock st"
  by (simp_all add: lws_def)

lemma unlock_lock_ws: "g_ws_lock st = Unlocked \<Longrightarrow> unlock_ws (lock_ws st) = st"
  by (simp add: unlock_ws_def lock_ws_def)

lemma register_viewer_frame [simp]:
  "g_wsi (snd (register_viewer w st)) = g_wsi st" "g_host_ws (snd (register_viewer w st)) = g_host_ws st"
  "g_port (snd (register_viewer w st)) = g_port st" "g_msg_cb (snd (register_viewer w st)) = g_msg_cb st"
  "g_viewer_cb (snd (register_viewer w st)) = g_viewer_cb st"
  "lws_trace (snd (register_viewer w st)) = lws_trace st"
  "g_ws_lock (snd (register_viewer w st)) = g_ws_lock st"
  by (simp_all add: register_viewer_def split: option.split)

lemma register_viewer_cases:
  obtains (taken) i where "first_index (\<lambda>w. w = None) (g_viewer_ws st) = Some i"
      "register_viewer wsi st = (int i, st\<lparr>g_viewer_ws := (g_viewer_ws st)[i := Some wsi],
         g_num_viewers := g_num_viewers st + 1\<rparr>)"
  | (full) "first_index (\<lambda>w. w = None) (g_viewer_ws st) = None" "register_viewer wsi st = (-1, st)"
  by (cases "first_index (\<lambda>w. w = None) (g_viewer_ws st)") (simp_all add: register_viewer_def)

lemma registry_inv_register [keeps]:
  assumes "registry_inv st"
  shows "registry_inv (snd (register_viewer wsi st))"
proof (cases rule: register_viewer_cases[of st wsi])
  case (taken i)
  from first_index_SomeD(1,2)[OF taken(1)] taken assms show ?thesis
    by (simp add: registry_inv_def length_filter_set)
next
  case full
  with assms show ?thesis by simp
qed

lemma registry_inv_unregister [keeps]: "registry_inv st \<Longrightarrow> registry_inv (unregister_viewer r st)"
  using length_filter_clear[of "nat r" "g_viewer_ws st" "\<lambda>w. w \<noteq> None" None]
  by (auto simp: unregister_viewer_def registry_inv_def nat_less_iff)

lemma viewer_at_register:
  assumes "registry_inv st" and "fst (register_viewer wsi st) = int i"
  shows "i < MAX_VIEWERS \<and> viewer_at st i = None \<and> (\<forall>j<i. viewer_at st j \<noteq> None)
    \<and> viewer_at (snd (register_viewer wsi st)) = (viewer_at st)(i \<mapsto> wsi)"
proof (cases rule: register_viewer_cases[of st wsi])
  case (taken k)
  then have "k = i" using assms(2) by simp
  with first_index_SomeD[OF taken(1)] taken(2) assms(1) show ?thesis
    by (auto simp: viewer_at_def registry_inv_def fun_eq_iff nth_list_update)
next
  case full
  with assms(2) show ?thesis by simp
qed

lemma viewer_at_full:
  assumes "registry_inv st" and "fst (register_viewer wsi st) < 0"
  shows "(\<forall>i<MAX_VIEWERS. viewer_at st i \<noteq> None)
    \<and> viewer_at (snd (register_viewer wsi st)) = viewer_at st"
proof (cases rule: register_viewer_cases[of st wsi])
  case (taken k)
  with assms(2) show ?thesis by simp
next
  case full
  with assms(1) show ?thesis
    by (simp add: first_index_None_iff viewer_at_def registry_inv_def)
qed

interpretation ws: slot_table registry_inv viewer_at MAX_VIEWERS "\<lambda>w. w" "\<lambda>_. True"
  register_viewer unregister_viewer
proof unfold_locales
  fix s :: signaling and i :: nat
  show "MAX_VIEWERS \<le> i \<Longrightarrow> viewer_at s i = None" by (simp add: viewer_at_def)
next
  fix s :: signaling and r :: int
  assume inv: "registry_inv s"
  show "registry_inv (unregister_viewer r s)" using inv by (rule registry_inv_unregister)
  show "viewer_at (unregister_viewer r s) =
    (if 0 \<le> r \<and> r < int MAX_VIEWERS then (viewer_at s)(nat r := None) else viewer_at s)"
    using inv
    by (auto simp: unregister_viewer_def viewer_at_def registry_inv_def fun_eq_iff nth_list_update)
next
  fix s :: signaling and a :: nat and i :: nat
  assume inv: "registry_inv s"
  show "registry_inv (snd (register_viewer a s))" using inv by (rule registry_inv_register)
  show "fst (register_viewer a s) = int i \<Longrightarrow>
      i < MAX_VIEWERS \<and> viewer_at s i = None \<and> (\<forall>j<i. viewer_at s j \<noteq> None)"
    and "fst (register_viewer a s) = int i \<Longrightarrow>
      viewer_at (snd (register_viewer a s)) = (viewer_at s)(i \<mapsto> a)"
    using viewer_at_register[OF inv] by blast+
  show "fst (register_viewer a s) < 0 \<Longrightarrow>
      (\<forall>i<MAX_VIEWERS. viewer_at s i \<noteq> None) \<and> viewer_at (snd (register_viewer a s)) = viewer_at s"
    using viewer_at_full[OF inv] by blast
qed


section \<open>Runs of the service loop\<close>

text \<open>The connections libwebsockets has reported open, and the order in which it reports:
  a connection is established before anything else is said of it, and closed once.\<close>

fun lws_ok :: "lws set \<Rightarrow> (lws \<times> lws_reason) list \<Rightarrow> bool" where
  "lws_ok open_ws [] = True"
| "lws_ok open_ws ((wsi, reason) # es) =
     (case reason of
        LWS_CALLBACK_ESTABLISHED uri \<Rightarrow> wsi \<notin> open_ws \<and> lws_ok (insert wsi open_ws) es
      | LWS_CALLBACK_CLOSED \<Rightarrow> wsi \<in> open_ws \<and> lws_ok (open_ws - {wsi}) es
      | LWS_CALLBACK_RECEIVE inp \<Rightarrow> wsi \<in> open_ws \<and> lws_ok open_ws es
      | LWS_CALLBACK_OTHER \<Rightarrow> lws_ok open_ws es)"

text \<open>The callbacks of a run of the service loop, one after the other.\<close>

fun run_signaling ::
    "(int \<Rightarrow> bool \<Rightarrow> 'w \<Rightarrow> 'w) \<Rightarrow> (string \<Rightarrow> string \<Rightarrow> 'w \<Rightarrow> 'w) \<Rightarrow> (nearcade_event \<Rightarrow> 'w \<Rightarrow> 'w)
     \<Rightarrow> (lws \<times> lws_reason) list \<Rightarrow> signaling \<times> 'w \<Rightarrow> signaling \<times> 'w" where
  "run_signaling viewer_cb msg_cb fire [] s = s"
| "run_signaling viewer_cb msg_cb fire ((wsi, reason) # es) s =
     run_signaling viewer_cb msg_cb fire es (callback_signaling viewer_cb msg_cb fire wsi reason s)"

text \<open>What the registry holds belongs to open connections.\<close>

definition held :: "signaling \<Rightarrow> lws set" where
  "held st = {w. Some w \<in> set (g_viewer_ws st) \<or> g_host_ws st = Some w}"

text \<open>A client of the join and leave notifications that keeps the set of present viewers.\<close>

definition present :: "int \<Rightarrow> bool \<Rightarrow> nat set \<Rightarrow> nat set" where
  "present i joined js = (if joined then insert (nat i) js else js - {nat i})"


section \<open>Facts: the handler\<close>

lemma sig_inv_host:
  assumes "sig_inv st" and "h = None \<or> h \<notin> set (g_viewer_ws st)"
  shows "sig_inv (st\<lparr>g_host_ws := h\<rparr>)" and "viewer_at (st\<lparr>g_host_ws := h\<rparr>) = viewer_at st"
  using assms by (auto simp: sig_inv_def registry_inv_def viewers_distinct_def viewer_at_def)

lemma established_eq:
  assumes "g_ws_lock st = Unlocked"
  shows "callback_signaling viewer_cb msg_cb fire wsi (LWS_CALLBACK_ESTABLISHED uri) (st, w) =
    (if strstr uri ''/host'' \<noteq> None then (st\<lparr>g_host_ws := Some wsi\<rparr>, w)
     else (case first_index (\<lambda>w. w = None) (g_viewer_ws st) of
             Some i \<Rightarrow> (st\<lparr>g_viewer_ws := (g_viewer_ws st)[i := Some wsi],
                          g_num_viewers := g_num_viewers st + 1\<rparr>,
                        if g_viewer_cb st then viewer_cb (int i) True w else w)
           | None \<Rightarrow> (st, w)))"
  using assms
  by (auto simp: callback_signaling_def register_viewer_def lock_ws_def unlock_ws_def Let_def
      split: option.split)

lemma closed_eq:
  assumes "g_ws_lock st = Unlocked"
  shows "callback_signaling viewer_cb msg_cb fire wsi LWS_CALLBACK_CLOSED (st, w) =
    (if g_host_ws st = Some wsi then (st\<lparr>g_host_ws := None\<rparr>, w)
     else (case first_index (\<lambda>v. v = Some wsi) (g_viewer_ws st) of
             Some i \<Rightarrow> (st\<lparr>g_viewer_ws := (g_viewer_ws st)[i := None],
                          g_num_viewers := g_num_viewers st - 1\<rparr>,
                        if g_viewer_cb st then viewer_cb (int i) False w else w)
           | None \<Rightarrow> (st, w)))"
  using assms
  by (auto simp: callback_signaling_def lock_ws_def unlock_ws_def Let_def split: option.split)

lemma receive_state:
  assumes "g_ws_lock st = Unlocked"
  shows "fst (callback_signaling viewer_cb msg_cb fire wsi (LWS_CALLBACK_RECEIVE inp) (st, w)) = st"
  using assms
  by (auto simp: callback_signaling_def lock_ws_def unlock_ws_def Let_def split: option.split)

lemma other_eq:
  "callback_signaling viewer_cb msg_cb fire wsi LWS_CALLBACK_OTHER s = s"
  by (cases s) (simp add: callback_signaling_def)

lemma sig_inv_set_viewer:
  assumes "sig_inv st" and "first_index (\<lambda>w. w = None) (g_viewer_ws st) = Some i"
    and "wsi \<notin> held st"
  defines "st' \<equiv> st\<lparr>g_viewer_ws := (g_viewer_ws st)[i := Some wsi], g_num_viewers := g_num_viewers st + 1\<rparr>"
  shows "sig_inv st'" and "viewer_at st' = (viewer_at st)(i \<mapsto> wsi)" and "held st' = insert wsi (held st)"
proof -
  have i: "i < MAX_VIEWERS" "g_viewer_ws st ! i = None" and len: "length (g_viewer_ws st) = MAX_VIEWERS"
    using first_index_SomeD[OF assms(2)] assms(1) by (auto simp: sig_inv_def registry_inv_def)
  have new: "g_viewer_ws st ! j \<noteq> Some wsi" if "j < MAX_VIEWERS" for j
    using assms(3) len that by (metis (mono_tags) held_def mem_Collect_eq nth_mem)
  have mem: "Some v \<in> set ((g_viewer_ws st)[i := Some wsi]) \<longleftrightarrow> v = wsi \<or> Some v \<in> set (g_viewer_ws st)" for v
    using i len by (simp add: set_update_member)
  have "registry_inv st'"
    using assms(1) i len by (simp add: sig_inv_def registry_inv_def st'_def length_filter_set)
  moreover have "viewers_distinct st'"
    using assms(1) i len new by (auto simp: sig_inv_def viewers_distinct_def st'_def nth_list_update)
  moreover have "g_host_ws st = None \<or> g_host_ws st \<notin> set ((g_viewer_ws st)[i := Some wsi])"
    using assms(1,3) mem by (cases "g_host_ws st") (auto simp: sig_inv_def held_def)
  ultimately show "sig_inv st'" using assms(1) by (simp add: sig_inv_def st'_def)
  show "viewer_at st' = (viewer_at st)(i \<mapsto> wsi)"
    using i len by (auto simp: viewer_at_def st'_def fun_eq_iff nth_list_update)
  show "held st' = insert wsi (held st)" using mem by (auto simp: held_def st'_def)
qed

lemma sig_inv_clear_viewer:
  assumes "sig_inv st" and "first_index (\<lambda>v. v = Some wsi) (g_viewer_ws st) = Some i"
    and "g_host_ws st \<noteq> Some wsi"
  defines "st' \<equiv> st\<lparr>g_viewer_ws := (g_viewer_ws st)[i := None], g_num_viewers := g_num_viewers st - 1\<rparr>"
  shows "sig_inv st'" and "viewer_at st' = (viewer_at st)(i := None)" and "held st' = held st - {wsi}"
proof -
  have i: "i < MAX_VIEWERS" "g_viewer_ws st ! i = Some wsi" and len: "length (g_viewer_ws st) = MAX_VIEWERS"
    using first_index_SomeD[OF assms(2)] assms(1) by (auto simp: sig_inv_def registry_inv_def)
  have uniq: "Some wsi \<notin> set ((g_viewer_ws st)[i := None])"
    using assms(1) i len set_update_unique[of i "g_viewer_ws st" None]
    by (auto simp: sig_inv_def viewers_distinct_def)
  have mem: "Some v \<in> set ((g_viewer_ws st)[i := None]) \<longleftrightarrow> v \<noteq> wsi \<and> Some v \<in> set (g_viewer_ws st)" for v
    using i len uniq by (cases "v = wsi") (simp_all add: set_update_member)
  have "registry_inv st'"
    using assms(1) i len length_filter_clear[of i "g_viewer_ws st" "\<lambda>w. w \<noteq> None" None]
    by (auto simp: sig_inv_def registry_inv_def st'_def)
  moreover have "viewers_distinct st'"
    using assms(1) i len by (auto simp: sig_inv_def viewers_distinct_def st'_def nth_list_update)
  moreover have "g_host_ws st = None \<or> g_host_ws st \<notin> set ((g_viewer_ws st)[i := None])"
    using assms(1) mem by (cases "g_host_ws st") (auto simp: sig_inv_def)
  ultimately show "sig_inv st'" using assms(1) by (simp add: sig_inv_def st'_def)
  show "viewer_at st' = (viewer_at st)(i := None)"
    using i len by (auto simp: viewer_at_def st'_def fun_eq_iff nth_list_update)
  show "held st' = held st - {wsi}" using assms(3) mem by (auto simp: held_def st'_def)
qed

text \<open>The step of the registry under each callback.\<close>

lemma established_step:
  assumes "sig_inv st" and "wsi \<notin> held st" and "g_viewer_cb st"
    and "callback_signaling viewer_cb msg_cb fire wsi (LWS_CALLBACK_ESTABLISHED uri) (st, w) = (st', w')"
  shows "sig_inv st'" and "held st' \<subseteq> insert wsi (held st)" and "g_viewer_cb st'"
    and "(viewer_at st' = viewer_at st \<and> w' = w) \<or>
      (\<exists>i<MAX_VIEWERS. viewer_at st i = None \<and> viewer_at st' = (viewer_at st)(i \<mapsto> wsi) \<and> w' = viewer_cb (int i) True w)"
proof -
  have lock: "g_ws_lock st = Unlocked" and len: "length (g_viewer_ws st) = MAX_VIEWERS"
    using assms(1,2) by (auto simp: sig_inv_def registry_inv_def held_def)
  note eq = assms(4)[unfolded established_eq[OF lock]]
  have "sig_inv st' \<and> held st' \<subseteq> insert wsi (held st) \<and> g_viewer_cb st' \<and>
    ((viewer_at st' = viewer_at st \<and> w' = w) \<or>
      (\<exists>i<MAX_VIEWERS. viewer_at st i = None \<and> viewer_at st' = (viewer_at st)(i \<mapsto> wsi) \<and> w' = viewer_cb (int i) True w))"
  proof (cases "strstr uri ''/host'' \<noteq> None")
    case True
    then have st': "st' = st\<lparr>g_host_ws := Some wsi\<rparr>" "w' = w" using eq by auto
    then have "sig_inv st'" "viewer_at st' = viewer_at st"
      using sig_inv_host[OF assms(1), of "Some wsi"] assms(2) by (auto simp: held_def)
    then show ?thesis using st' assms(3) by (auto simp: held_def)
  next
    case False
    show ?thesis
    proof (cases "first_index (\<lambda>w. w = None) (g_viewer_ws st)")
      case None
      with False eq assms show ?thesis by auto
    next
      case (Some i)
      note step = sig_inv_set_viewer[OF assms(1) Some assms(2)]
      have "i < MAX_VIEWERS" "viewer_at st i = None"
        using first_index_SomeD(1,2)[OF Some] len by (auto simp: viewer_at_def)
      with step False eq Some assms(3) show ?thesis by auto
    qed
  qed
  then show "sig_inv st'" "held st' \<subseteq> insert wsi (held st)" "g_viewer_cb st'"
    "(viewer_at st' = viewer_at st \<and> w' = w) \<or>
      (\<exists>i<MAX_VIEWERS. viewer_at st i = None \<and> viewer_at st' = (viewer_at st)(i \<mapsto> wsi) \<and> w' = viewer_cb (int i) True w)"
    by blast+
qed

lemma closed_step:
  assumes "sig_inv st" and "g_viewer_cb st" 
    and "callback_signaling viewer_cb msg_cb fire wsi LWS_CALLBACK_CLOSED (st, w) = (st', w')"
  shows "sig_inv st' \<and> held st' = held st - {wsi} \<and> g_viewer_cb st' \<and> 
    ((viewer_at st' = viewer_at st \<and> w' = w) \<or>
      (\<exists>i<MAX_VIEWERS. viewer_at st i = Some wsi \<and> viewer_at st' = (viewer_at st)(i := None) \<and> w' = viewer_cb (int i) False w))"
proof -
  have lock: "g_ws_lock st = Unlocked" and len: "length (g_viewer_ws st) = MAX_VIEWERS"
    using assms(1) by (auto simp: sig_inv_def registry_inv_def)
  note eq = assms(3)[unfolded closed_eq[OF lock]]
  show ?thesis
  proof (cases "g_host_ws st = Some wsi")
    case True
    then have st': "st' = st\<lparr>g_host_ws := None\<rparr>" "w' = w" using eq by auto
    then have "sig_inv st'" "viewer_at st' = viewer_at st"
      using sig_inv_host[OF assms(1), of None] by auto
    then show ?thesis using st' assms(1,2) True by (auto simp: held_def sig_inv_def)
  next
    case False
    show ?thesis
    proof (cases "first_index (\<lambda>v. v = Some wsi) (g_viewer_ws st)")
      case None
      then have "wsi \<notin> held st" using False by (auto simp: first_index_None_iff held_def)
      moreover have "st' = st" "w' = w" using None False eq by auto
      ultimately show ?thesis using assms(1,2) by simp
    next
      case (Some i)
      note step = sig_inv_clear_viewer[OF assms(1) Some False]
      have "i < MAX_VIEWERS" "viewer_at st i = Some wsi"
        using first_index_SomeD(1,2)[OF Some] len by (auto simp: viewer_at_def)
      moreover have "w' = viewer_cb (int i) False w"
        and st': "st' = st\<lparr>g_viewer_ws := (g_viewer_ws st)[i := None], g_num_viewers := g_num_viewers st - 1\<rparr>"
        using False eq Some assms(2) by auto
      ultimately show ?thesis using step[folded st'] assms(2) st' by (metis select_convs(8) signaling.surjective signaling.update_convs(3,4))
    qed
  qed
qed

text \<open>The service loop as a whole: the invariant, and the connections held are open ones.\<close>

lemma present_dom:
  "present (int i) True {j. f j \<noteq> None} = {j. (f(i \<mapsto> v)) j \<noteq> None}"
  "present (int i) False {j. f j \<noteq> None} = {j. (f(i := None)) j \<noteq> None}"
  by (auto simp: present_def)

lemma run_signaling_step:
  assumes "sig_inv st" and "held st \<subseteq> ws" and "g_viewer_cb st" and "lws_ok ws ((wsi, reason) # es)"
    and "js = {i. viewer_at st i \<noteq> None}"
    and "callback_signaling present msg_cb fire wsi reason (st, js) = (st', js')"
    and "\<And>v m x. msg_cb v m x = x" and "\<And>e x. fire e x = x"
  obtains ws' where "sig_inv st'" and "held st' \<subseteq> ws'" and "g_viewer_cb st'" and "lws_ok ws' es"
    and "js' = {i. viewer_at st' i \<noteq> None}"
proof (cases reason)
  case (LWS_CALLBACK_ESTABLISHED uri)
  then have fresh: "wsi \<notin> held st" and ok: "lws_ok (insert wsi ws) es" using assms(2,4) by auto
  note step = established_step[OF assms(1) fresh assms(3) assms(6)[unfolded LWS_CALLBACK_ESTABLISHED]]
  have "js' = {i. viewer_at st' i \<noteq> None}"
    using step(4)
  proof (elim disjE exE conjE)
    fix i
    assume "viewer_at st' = (viewer_at st)(i \<mapsto> wsi)" and "js' = present (int i) True js"
    then show ?thesis by (simp only: present_dom assms(5))
  qed (simp add: assms(5))
  with step(1-3) ok assms(2) that[of "insert wsi ws"] show thesis by blast
next
  case LWS_CALLBACK_CLOSED
  then have ok: "lws_ok (ws - {wsi}) es" using assms(4) by auto
  note step = closed_step[OF assms(1,3) assms(6)[unfolded LWS_CALLBACK_CLOSED]]
  have "js' = {i. viewer_at st' i \<noteq> None}"
    using step[THEN conjunct2, THEN conjunct2, THEN conjunct2]
  proof (elim disjE exE conjE)
    fix i
    assume "viewer_at st' = (viewer_at st)(i := None)" and "js' = present (int i) False js"
    then show ?thesis by (simp only: present_dom assms(5))
  qed (simp add: assms(5))
  with step ok assms(2) that[of "ws - {wsi}"] show thesis by blast
next
  case (LWS_CALLBACK_RECEIVE inp)
  have "st' = st"
    using receive_state[of st present msg_cb fire wsi inp js] assms(1,6) LWS_CALLBACK_RECEIVE
    by (simp add: sig_inv_def)
  moreover have "js' = js"
    using assms(6-8) LWS_CALLBACK_RECEIVE
    by (auto simp: callback_signaling_def Let_def split: option.splits if_splits)
  ultimately show thesis using assms(1-5) LWS_CALLBACK_RECEIVE that[of ws] by simp
next
  case LWS_CALLBACK_OTHER
  then have "st' = st" "js' = js" using assms(6) by (simp_all add: other_eq)
  with LWS_CALLBACK_OTHER assms(1-5) that[of ws] show thesis by simp
qed

lemma run_signaling_inv:
  assumes "sig_inv st" and "held st \<subseteq> ws" and "g_viewer_cb st" and "lws_ok ws es"
    and "js = {i. viewer_at st i \<noteq> None}"
    and "run_signaling present (\<lambda>_ _ x. x) (\<lambda>_ x. x) es (st, js) = (st', js')"
  shows "sig_inv st' \<and> js' = {i. viewer_at st' i \<noteq> None}"
  using assms
proof (induction es arbitrary: st js ws)
  case Nil
  then show ?case by auto
next
  case (Cons e es)
  obtain wsi reason where e: "e = (wsi, reason)" by (cases e)
  obtain st1 js1 where step:
    "callback_signaling present (\<lambda>_ _ x. x) (\<lambda>_ x. x) wsi reason (st, js) = (st1, js1)"
    by (meson surj_pair)
  from Cons.prems(4) have ok: "lws_ok ws ((wsi, reason) # es)" by (simp only: e)
  obtain ws' where "sig_inv st1" "held st1 \<subseteq> ws'" "g_viewer_cb st1" "lws_ok ws' es"
      "js1 = {i. viewer_at st1 i \<noteq> None}"
    by (rule run_signaling_step[OF Cons.prems(1-3) ok Cons.prems(5) step]) simp_all
  then show ?case using Cons.IH[of st1 ws' js1] Cons.prems(6) by (simp add: e step)
qed


section \<open>Contexts and addresses\<close>

text \<open>The contexts created and not destroyed, in a trace of library calls.\<close>

fun live_contexts :: "lws_context set \<Rightarrow> lws_call list \<Rightarrow> lws_context set" where
  "live_contexts C [] = C"
| "live_contexts C (L_create ctx # cs) = live_contexts (insert ctx C) cs"
| "live_contexts C (L_destroy ctx # cs) = live_contexts (C - {ctx}) cs"
| "live_contexts C (L_write _ _ _ # cs) = live_contexts C cs"

text \<open>The connection a reply to a viewer goes to: the viewer's own, or the host's when the
  viewer is not there.\<close>

definition reply_target :: "string option \<Rightarrow> signaling \<Rightarrow> lws option" where
  "reply_target viewer_id st =
     (if viewer_id = Some ''host'' then g_host_ws st
      else case viewer_ws_by_id viewer_id st of Some t \<Rightarrow> Some t | None \<Rightarrow> g_host_ws st)"

text \<open>The state before any connection: what the loader and a start of the server leave.\<close>

definition sig_idle :: "signaling \<Rightarrow> bool" where
  "sig_idle st \<longleftrightarrow>
     g_host_ws st = None \<and> g_viewer_ws st = replicate MAX_VIEWERS None \<and> g_num_viewers st = 0
     \<and> g_ws_lock st = Unlocked"


section \<open>Facts: messages and addresses\<close>

lemma live_contexts_append [simp]: "live_contexts C (a @ b) = live_contexts (live_contexts C a) b"
  by (induction C a rule: live_contexts.induct) simp_all

lemma sig_idle_inv: "sig_idle st \<Longrightarrow> sig_inv st \<and> held st = {} \<and> viewer_at st = (\<lambda>_. None)"
  by (auto simp: sig_idle_def sig_inv_def registry_inv_def viewers_distinct_def held_def viewer_at_def
      fun_eq_iff)

lemma sig_idle_init: "sig_idle st \<Longrightarrow> sig_idle (snd (signaling_init env cfg st))"
  by (auto simp: sig_idle_def signaling_init_def Let_def split: option.split)

lemma sig_idle_callbacks [simp]: "sig_idle (signaling_set_internal_callbacks a b st) = sig_idle st"
  by (simp add: sig_idle_def signaling_set_internal_callbacks_def)

lemma sig_idle_static: "sig_idle signaling_static"
  by (simp add: sig_idle_def signaling_static_def)

lemma num_viewers_card:
  assumes "registry_inv st"
  shows "g_num_viewers st = int (card {i. viewer_at st i \<noteq> None})"
proof -
  have "{i. viewer_at st i \<noteq> None} = {i. i < length (g_viewer_ws st) \<and> g_viewer_ws st ! i \<noteq> None}"
    using assms by (auto simp: viewer_at_def registry_inv_def)
  with assms show ?thesis
    by (simp add: registry_inv_def length_filter_conv_card)
qed

lemma viewer_ws_by_id_id:
  assumes "registry_inv st" and "i < MAX_VIEWERS"
  shows "viewer_ws_by_id (Some (viewer_id_of (int i))) st = viewer_at st i"
  using assms sscanf_viewer_id[of "int i"] by (simp add: viewer_ws_by_id_def viewer_at_def)

lemma send_to_lws_ok:
  assumes "d \<noteq> []" and "malloc_ok env"
  shows "send_to_lws env (Some w) (Some d) st =
    (if write_ret env < 0 then -1 else 0, lws [L_write w d (write_ret env)] st)"
  using assms by (simp add: send_to_lws_def Let_def)

lemma send_frame_eq [simp]:
  "g_wsi (snd (send_to_lws env w d st)) = g_wsi st" "g_ws_lock (snd (send_to_lws env w d st)) = g_ws_lock st"
  by (auto simp: send_to_lws_def Let_def split: option.splits)

lemma length_json_message:
  "length (json_message t k v) = length t + length k + length v + 17"
  by (simp add: json_message_def quoted_def)

lemma json_message_nonempty [simp]: "json_message t k v \<noteq> []"
  by (simp add: json_message_def)

lemma unlock_lws_lock_ws:
  "g_ws_lock st = Unlocked \<Longrightarrow> unlock_ws (lws cs (lock_ws st)) = lws cs st"
  by (simp add: unlock_ws_def lock_ws_def lws_def)

lemma reply_target_lock [simp]:
  "viewer_ws_by_id v (lock_ws st) = viewer_ws_by_id v st" "g_host_ws (lock_ws st) = g_host_ws st"
  by (simp_all add: viewer_ws_by_id_def split: option.split)

lemma send_answer_eq:
  "signaling_send_answer env vid (Some s) st =
    (let (r, st') = send_to_lws env (reply_target vid st)
        (Some (cstr (snprintf (json_message ''answer'' ''sdp'' (json_escape s 4096)) 4096 (zeroed 4096))))
        (lock_ws st)
     in (r, unlock_ws st'))"
  by (simp add: signaling_send_answer_def reply_target_def Let_def split: option.split)

lemma send_ice_eq:
  "signaling_send_ice env vid (Some s) st =
    (let (r, st') = send_to_lws env (reply_target vid st)
        (Some (cstr (snprintf (json_message ''ice'' ''candidate'' (json_escape s 4096)) 4096 (zeroed 4096))))
        (lock_ws st)
     in (r, unlock_ws st'))"
  by (simp add: signaling_send_ice_def reply_target_def Let_def split: option.split)

lemma json_frame:
  assumes "c_string t" and "c_string k" and "c_string s"
  shows "cstr (snprintf (json_message t k (json_escape s 4096)) 4096 (zeroed 4096)) =
    take 4095 (json_message t k (json_escape s 4096))"
  using assms by (simp add: cstr_snprintf c_string_json_escape)

lemma json_frame_fits:
  assumes "c_string t" and "c_string k" and "c_string s"
    and "length t + length k + 2 * length s + 17 < 4096"
  shows "cstr (snprintf (json_message t k (json_escape s 4096)) 4096 (zeroed 4096)) =
    json_message t k (concat (map escaped s))"
proof -
  have "length (concat (map escaped s)) \<le> 2 * length s" by (rule length_concat_escaped)
  then have "json_escape s 4096 = concat (map escaped s)"
    and "length (json_message t k (concat (map escaped s))) \<le> 4095"
    using assms(4) by (simp_all add: json_escape_fits length_json_message)
  with json_frame[OF assms(1-3)] show ?thesis by simp
qed

lemma strict_prefix_take: "n < length xs \<Longrightarrow> strict_prefix (take n xs) xs"
  by (auto simp: strict_prefix_def take_is_prefix)

lemma find_viewer:
  assumes "sig_inv st" and "viewer_at st i = Some wsi"
  shows "first_index (\<lambda>v. v = Some wsi) (g_viewer_ws st) = Some i" and "i < MAX_VIEWERS"
    and "g_host_ws st \<noteq> Some wsi"
proof -
  from assms have i: "i < MAX_VIEWERS" "g_viewer_ws st ! i = Some wsi"
    and len: "length (g_viewer_ws st) = MAX_VIEWERS"
    by (auto simp: viewer_at_def sig_inv_def registry_inv_def split: if_splits)
  then show "i < MAX_VIEWERS" by simp
  show "first_index (\<lambda>v. v = Some wsi) (g_viewer_ws st) = Some i"
    using i len assms(1) by (intro first_index_unique) (auto simp: sig_inv_def viewers_distinct_def)
  have "Some wsi \<in> set (g_viewer_ws st)" using i len by (metis nth_mem)
  then show "g_host_ws st \<noteq> Some wsi" using assms(1) by (auto simp: sig_inv_def)
qed

lemma received_text:
  assumes "c_string m" and "length m \<le> 4095"
  shows "cstr (take 4095 m @ [NUL]) = m" and "cstr (strncpy m 2047 (zeroed 2048)) = take 2047 m"
  using assms cstr_append_NUL[of m "[]"] cstr_strncpy[of 2048 "zeroed 2048" m] by simp_all

lemma receive_from_viewer:
  assumes "sig_inv st" and "c_string m" and "length m \<le> 4095" and "viewer_at st i = Some wsi"
  shows "callback_signaling viewer_cb msg_cb fire wsi (LWS_CALLBACK_RECEIVE m) (st, w) =
    (st, fire (NEARCADE_EVENT_SIGNALING (snprintf (viewer_id_of (int i)) 64 (zeroed 64))
            (strncpy m 2047 (zeroed 2048)))
          (if g_msg_cb st then msg_cb (viewer_id_of (int i)) m w else w))"
proof -
  have lock: "g_ws_lock st = Unlocked" using assms(1) by (simp add: sig_inv_def)
  have "cstr (snprintf (viewer_id_of (int i)) 64 (zeroed 64)) = viewer_id_of (int i)"
    using find_viewer(2)[OF assms(1,4)] by (simp add: cstr_viewer_id_buf)
  then show ?thesis
    using find_viewer[OF assms(1,4)] received_text[OF assms(2,3)]
    by (simp add: callback_signaling_def Let_def unlock_lock_ws[OF lock])
qed

lemma receive_from_host:
  assumes "sig_inv st" and "c_string m" and "length m \<le> 4095" and "g_host_ws st = Some wsi"
  shows "callback_signaling viewer_cb msg_cb fire wsi (LWS_CALLBACK_RECEIVE m) (st, w) =
    (st, fire (NEARCADE_EVENT_SIGNALING (snprintf ''host'' 64 (zeroed 64))
            (strncpy m 2047 (zeroed 2048))) w)"
proof -
  have lock: "g_ws_lock st = Unlocked" using assms(1) by (simp add: sig_inv_def)
  show ?thesis
    using assms(4) received_text[OF assms(2,3)]
    by (simp add: callback_signaling_def Let_def unlock_lock_ws[OF lock])
qed

lemma receive_from_unknown:
  assumes "sig_inv st" and "wsi_fresh wsi st"
  shows "callback_signaling viewer_cb msg_cb fire wsi (LWS_CALLBACK_RECEIVE m) (st, w) = (st, w)"
proof -
  have lock: "g_ws_lock st = Unlocked" using assms(1) by (simp add: sig_inv_def)
  have "first_index (\<lambda>v. v = Some wsi) (g_viewer_ws st) = None"
    using assms(2) by (auto simp: first_index_None_iff wsi_fresh_def)
  with assms(2) show ?thesis
    by (simp add: callback_signaling_def Let_def wsi_fresh_def unlock_lock_ws[OF lock])
qed



text \<open>
  C6. The viewer registry is consistent over any run of the server. Starting from a successful
  \<open>signaling_init\<close>, whatever connections open, close and send, in any order libwebsockets can
  report, no connection is registered twice, the count is the number of occupied entries, the
  mutex is free between callbacks, and a client that follows the join and leave notifications
  knows exactly the occupied entries.
\<close>

theorem viewer_registry_consistent:
  assumes "signaling_init env cfg signaling_static = (NEARCADE_OK, st0)"
    and "lws_ok {} es"
    and "run_signaling present (\<lambda>_ _ x. x) (\<lambda>_ x. x) es
           (signaling_set_internal_callbacks True True st0, {}) = (st, js)"
  shows "sig_inv st \<and> js = {i. viewer_at st i \<noteq> None} \<and> g_num_viewers st = int (card js)"
proof -
  let ?st = "signaling_set_internal_callbacks True True st0"
  have "sig_idle ?st" using sig_idle_init[OF sig_idle_static, of env cfg] assms(1) by simp
  then have init: "sig_inv ?st" "held ?st \<subseteq> {}" "viewer_at ?st = (\<lambda>_. None)"
    using sig_idle_inv by auto
  have cb: "g_viewer_cb ?st" by (simp add: signaling_set_internal_callbacks_def)
  from run_signaling_inv[OF init(1,2) cb assms(2) _ assms(3)] init(3)
  have "sig_inv st" and "js = {i. viewer_at st i \<noteq> None}" by auto
  then show ?thesis using num_viewers_card[of st] by (simp add: sig_inv_def)
qed

theorem viewer_registry_consistent_witness:
  "let st0 = snd (signaling_init \<lparr>created_ctx = Some 1, thread_rc = 0\<rparr> NEARCADE_DEFAULT_CONFIG signaling_static);
       es = [(7, LWS_CALLBACK_ESTABLISHED ''/host''), (8, LWS_CALLBACK_ESTABLISHED ''/viewer''),
             (9, LWS_CALLBACK_ESTABLISHED ''/''), (8, LWS_CALLBACK_CLOSED)];
       (st, js) = run_signaling present (\<lambda>_ _ x. x) (\<lambda>_ x. x) es
           (signaling_set_internal_callbacks True True st0, {})
   in sig_inv st \<and> js = {i. viewer_at st i \<noteq> None} \<and> g_num_viewers st = int (card js)"
proof -
  let ?env = "\<lparr>created_ctx = Some 1, thread_rc = 0\<rparr>"
  let ?es = "[(7, LWS_CALLBACK_ESTABLISHED ''/host''), (8, LWS_CALLBACK_ESTABLISHED ''/viewer''),
             (9, LWS_CALLBACK_ESTABLISHED ''/''), (8, LWS_CALLBACK_CLOSED)]"
  obtain st0 where st0: "signaling_init ?env NEARCADE_DEFAULT_CONFIG signaling_static = (NEARCADE_OK, st0)"
    by (simp add: signaling_init_def)
  obtain st js where run: "run_signaling present (\<lambda>_ _ x. x) (\<lambda>_ x. x) ?es
           (signaling_set_internal_callbacks True True st0, {}) = (st, js)"
    by (meson surj_pair)
  have "lws_ok {} ?es" by simp
  from viewer_registry_consistent[OF st0 this run] st0 run show ?thesis by simp
qed

text \<open>
  C12. A message of a registered viewer is handed to the WebRTC side under that viewer's
  identifier, cut only at 4095 bytes, and then to the application, cut at 2047 bytes; the
  identifier it carries is the address of the same connection. A message of the host goes to the
  application only, and one of an unregistered connection goes nowhere. The registry is unchanged.
\<close>

theorem receive_dispatch:
  assumes "sig_inv st" and "c_string m" and "length m \<le> 4095" and "g_msg_cb st"
  shows "let out = callback_signaling viewer_cb msg_cb fire wsi (LWS_CALLBACK_RECEIVE m) (st, w) in
    (\<forall>i. viewer_at st i = Some wsi \<longrightarrow>
      (\<exists>vid data. out = (st, fire (NEARCADE_EVENT_SIGNALING vid data) (msg_cb (viewer_id_of (int i)) m w))
        \<and> cstr vid = viewer_id_of (int i) \<and> cstr data = take 2047 m
        \<and> viewer_ws_by_id (Some (cstr vid)) st = Some wsi))
    \<and> (g_host_ws st = Some wsi \<longrightarrow>
      (\<exists>vid data. out = (st, fire (NEARCADE_EVENT_SIGNALING vid data) w)
        \<and> cstr vid = ''host'' \<and> cstr data = take 2047 m))
    \<and> (wsi_fresh wsi st \<longrightarrow> out = (st, w))"
proof -
  have data: "cstr (strncpy m 2047 (zeroed 2048)) = take 2047 m"
    using received_text assms(2,3) by blast
  have addr: "cstr (snprintf (viewer_id_of (int i)) 64 (zeroed 64)) = viewer_id_of (int i)
      \<and> viewer_ws_by_id (Some (viewer_id_of (int i))) st = Some wsi"
    if "viewer_at st i = Some wsi" for i
    using that find_viewer(2)[OF assms(1) that] assms(1)
    by (simp add: cstr_viewer_id_buf viewer_ws_by_id_id sig_inv_def)
  have host: "cstr (snprintf ''host'' 64 (zeroed 64)) = ''host''" by (simp add: cstr_snprintf)
  show ?thesis
    unfolding Let_def
  proof (intro conjI allI impI)
    fix i
    assume at: "viewer_at st i = Some wsi"
    show "\<exists>vid data. callback_signaling viewer_cb msg_cb fire wsi (LWS_CALLBACK_RECEIVE m) (st, w)
          = (st, fire (NEARCADE_EVENT_SIGNALING vid data) (msg_cb (viewer_id_of (int i)) m w))
        \<and> cstr vid = viewer_id_of (int i) \<and> cstr data = take 2047 m
        \<and> viewer_ws_by_id (Some (cstr vid)) st = Some wsi"
      unfolding receive_from_viewer[OF assms(1-3) at] using addr[OF at] data assms(4)
      by (intro exI[of _ "snprintf (viewer_id_of (int i)) 64 (zeroed 64)"]
          exI[of _ "strncpy m 2047 (zeroed 2048)"]) simp
  next
    assume at: "g_host_ws st = Some wsi"
    show "\<exists>vid data. callback_signaling viewer_cb msg_cb fire wsi (LWS_CALLBACK_RECEIVE m) (st, w)
          = (st, fire (NEARCADE_EVENT_SIGNALING vid data) w)
        \<and> cstr vid = ''host'' \<and> cstr data = take 2047 m"
      unfolding receive_from_host[OF assms(1-3) at] using host data by auto
  qed (rule receive_from_unknown[OF assms(1)])
qed

theorem receive_dispatch_witness:
  "let st = (snd (register_viewer 8 signaling_static))\<lparr>g_msg_cb := True\<rparr>;
       out = callback_signaling (\<lambda>_ _ x. x) (\<lambda>v m x. x @ [v, m]) (\<lambda>e x. x @ [''event'']) 8
               (LWS_CALLBACK_RECEIVE ''hello'') (st, [])
   in snd out = [''viewer_0'', ''hello'', ''event'']"
proof -
  let ?st = "(snd (register_viewer 8 signaling_static))\<lparr>g_msg_cb := True\<rparr>"
  let ?out = "callback_signaling (\<lambda>_ _ x. x) (\<lambda>v m x. x @ [v, m]) (\<lambda>e x. x @ [''event'']) 8
               (LWS_CALLBACK_RECEIVE ''hello'') (?st, [])"
  have inv: "sig_inv ?st"
    by (auto simp: sig_inv_def registry_inv_def viewers_distinct_def register_viewer_def
        signaling_static_def nth_list_update length_filter_set)
  have at: "viewer_at ?st 0 = Some 8"
    by (simp add: viewer_at_def register_viewer_def signaling_static_def)
  have "\<exists>vid data. ?out = (?st, [viewer_id_of 0, ''hello''] @ [''event''])"
    using receive_dispatch[of ?st "''hello''" "\<lambda>_ _ x. x" "\<lambda>v m x. x @ [v, m]"
        "\<lambda>e x. x @ [''event'']" 8 "[]"] inv at
    by (force simp: Let_def)
  then show ?thesis by (simp add: Let_def viewer_id_of_def fmt_eval)
qed

text \<open>
  A full registry turns a further viewer away silently: with 64 viewers registered, the
  callbacks of a 65th connection, from opening to closing, change nothing, register nothing and
  deliver none of its messages. With room left the next viewer is registered under the lowest
  free index.
\<close>

lemma viewer_admission:
  assumes "sig_inv st" and "wsi_fresh wsi st" and "strstr uri ''/host'' = None"
  shows "if g_num_viewers st < 64
    then \<exists>i. viewer_at st i = None \<and> (\<forall>j<i. viewer_at st j \<noteq> None)
      \<and> viewer_at (fst (callback_signaling viewer_cb msg_cb fire wsi
           (LWS_CALLBACK_ESTABLISHED uri) (st, w))) = (viewer_at st)(i \<mapsto> wsi)
    else run_signaling viewer_cb msg_cb fire
           [(wsi, LWS_CALLBACK_ESTABLISHED uri), (wsi, LWS_CALLBACK_RECEIVE m), (wsi, LWS_CALLBACK_CLOSED)]
           (st, w) = (st, w)"
proof -
  have reg: "registry_inv st" and lock: "g_ws_lock st = Unlocked" using assms(1) by (simp_all add: sig_inv_def)
  have room: "0 \<le> fst (register_viewer wsi st) \<longleftrightarrow> g_num_viewers st < 64"
    using ws.claim_succeeds_iff[OF reg, of wsi] num_viewers_card[OF reg] by (simp add: ws.occupied_def)
  show ?thesis
  proof (cases "g_num_viewers st < 64")
    case True
    then obtain i where i: "fst (register_viewer wsi st) = int i" using room nonneg_int_cases by blast
    have "fst (callback_signaling viewer_cb msg_cb fire wsi (LWS_CALLBACK_ESTABLISHED uri) (st, w))
        = snd (register_viewer wsi st)"
      using assms(3) by (simp add: established_eq[OF lock] register_viewer_def split: option.split)
    with ws.claim_free[OF reg _ i] ws.claim_owner[OF reg _ i] True show ?thesis by auto
  next
    case False
    then have "first_index (\<lambda>w. w = None) (g_viewer_ws st) = None"
      using room by (cases rule: register_viewer_cases[of st wsi]) auto
    moreover have "first_index (\<lambda>v. v = Some wsi) (g_viewer_ws st) = None" "g_host_ws st \<noteq> Some wsi"
      using assms(2) by (auto simp: first_index_None_iff wsi_fresh_def)
    ultimately show ?thesis
      using False assms(3)
      by (simp add: receive_from_unknown[OF assms(1,2)] established_eq[OF lock] closed_eq[OF lock])
  qed
qed



text \<open>
  A longer text is cut, and the cut frame is sent as if it were complete. Once the escaped
  text passes 4070 characters the answer no longer fits its 4096-byte buffer: the frame written is
  the first 4095 characters, without the closing quote and brace, and the call still returns 0.
\<close>

lemma long_answer_sent_truncated:
  assumes "sig_inv st" and "c_string s" and "malloc_ok env" and "0 \<le> write_ret env"
    and "reply_target vid st = Some target" and "4070 \<le> length (json_escape s 4096)"
  shows "\<exists>frame. signaling_send_answer env vid (Some s) st =
      (0, lws [L_write target frame (write_ret env)] st)
    \<and> length frame = 4095
    \<and> strict_prefix frame (json_message ''answer'' ''sdp'' (json_escape s 4096))"
proof -
  let ?msg = "json_message ''answer'' ''sdp'' (json_escape s 4096)"
  have lock: "g_ws_lock st = Unlocked" using assms(1) by (simp add: sig_inv_def)
  have len: "4095 < length ?msg" using assms(6) by (simp add: length_json_message)
  have "strict_prefix (take 4095 ?msg) ?msg"
    using len by (rule strict_prefix_take)
  moreover have "take 4095 ?msg \<noteq> []" using len by (cases ?msg) simp_all
  then have "signaling_send_answer env vid (Some s) st =
      (0, lws [L_write target (take 4095 ?msg) (write_ret env)] st)"
    using lock assms(3-5) json_frame[of "''answer''" "''sdp''" s] assms(2)
    by (simp add: send_answer_eq send_to_lws_ok unlock_lws_lock_ws)
  moreover have "length (take 4095 ?msg) = 4095" using len by simp
  ultimately show ?thesis by blast
qed

text \<open>
  No libwebsockets context is leaked: whether \<open>signaling_init\<close> succeeds, fails to create
  the context or fails to start the thread, after the failure or after \<open>signaling_shutdown\<close> no
  context is left, and shutdown clears the whole registry.
\<close>

lemma signaling_contexts_released:
  assumes "signaling_init env cfg st = (r, st1)" and "g_ws_lock st = Unlocked"
    and "live_contexts {} (lws_trace st) = {}"
  shows "live_contexts {} (lws_trace (signaling_shutdown st1)) = {}
    \<and> sig_idle (signaling_shutdown st1) \<and> g_wsi (signaling_shutdown st1) = None
    \<and> (r \<noteq> NEARCADE_OK \<longrightarrow> live_contexts {} (lws_trace st1) = {} \<and> g_wsi st1 = None)
    \<and> (r = NEARCADE_OK \<longrightarrow> live_contexts {} (lws_trace st1) = set_option (g_wsi st1) \<and> g_wsi st1 \<noteq> None)"
  using assms
  by (auto simp: signaling_init_def signaling_shutdown_def sig_idle_def Let_def
      split: option.splits if_splits)

end
