(* ===== verification/Webrtc.thy ===== *)
theory Webrtc
  imports Signaling
begin

text \<open>
  \<open>src/webrtc.cpp\<close>: one libdatachannel session per viewer. The file-level variables are the
  record \<open>webrtc\<close>. \<open>g_sessions\<close> is a list of sessions (every element comes from
  \<open>make_unique\<close>, so the null checks on elements always pass); a peer connection is a number,
  fresh at each \<open>make_shared\<close>, and its track and channel carry the same number. libdatachannel
  is a parameter: \<open>rtc_env\<close> says which remote descriptions and candidates it accepts without
  an exception, \<open>rtc_trace\<close> holds the calls made to it. Its constructors are
  taken to succeed here; \<open>Session_Failure\<close> has the other case.

  The function pointers \<open>g_send_cb\<close>, \<open>g_input_cb\<close> and \<open>g_viewer_cb\<close> are arguments of the
  definitions that call them, functions on the state \<open>'w\<close> of the rest of the program; the
  record keeps whether they are set. The four lambdas that \<open>create_session\<close> installs are the
  definitions \<open>on_state_change\<close>, \<open>on_local_description\<close>, \<open>on_local_candidate\<close> and
  \<open>on_input_message\<close>.
\<close>

type_synonym pc = nat

text \<open>The file has log levels and a log macro of its own.\<close>

datatype rtc_log_level =
    LOG_L_ERROR
  | LOG_L_WARN
  | LOG_L_INFO
  | LOG_L_DEBUG
  | LOG_L_TRACE

fun rtc_log_num :: "rtc_log_level \<Rightarrow> int" where
  "rtc_log_num LOG_L_ERROR = 1"
| "rtc_log_num LOG_L_WARN = 2"
| "rtc_log_num LOG_L_INFO = 3"
| "rtc_log_num LOG_L_DEBUG = 4"
| "rtc_log_num LOG_L_TRACE = 5"

definition rtc_log_enabled :: "int \<Rightarrow> rtc_log_level \<Rightarrow> bool" where
  "rtc_log_enabled g_loglevel level \<longleftrightarrow> rtc_log_num level \<le> g_loglevel"

record webrtc_session =
  sess_pc :: "pc option"
  video_track :: "pc option"
  input_chan :: "pc option"
  sess_viewer_idx :: int
  connected :: bool

datatype rtc_call =
    R_peer_connection pc string
  | R_data_channel pc string
  | R_add_track pc
  | R_remote_description pc string
  | R_remote_candidate pc string
  | R_send pc "8 word list"
  | R_free pc

datatype pc_state = New | Connecting | Connected | Disconnected | Failed | Closed

datatype rtc_message = Binary "8 word list" | Text string

record rtc_env =
  description_ok :: "string \<Rightarrow> bool"
  candidate_ok :: "string \<Rightarrow> bool"

record webrtc =
  g_lock :: mutex
  g_sessions :: "webrtc_session list"
  g_initialized :: bool
  g_send_cb :: bool
  g_input_cb :: bool
  g_viewer_state_cb :: bool
  next_pc :: pc
  rtc_trace :: "rtc_call list"

definition webrtc_static :: webrtc where
  "webrtc_static =
     \<lparr>g_lock = Unlocked, g_sessions = [], g_initialized = False, g_send_cb = False,
      g_input_cb = False, g_viewer_state_cb = False, next_pc = 0, rtc_trace = []\<rparr>"


section \<open>Sessions\<close>

text \<open>\<open>std::lock_guard\<close> takes the mutex and its destructor releases it on every path.\<close>

definition lock_guard :: "webrtc \<Rightarrow> webrtc" where
  "lock_guard wr = wr\<lparr>g_lock := nearcade_mutex_lock (g_lock wr)\<rparr>"

definition end_guard :: "webrtc \<Rightarrow> webrtc" where
  "end_guard wr = wr\<lparr>g_lock := nearcade_mutex_unlock (g_lock wr)\<rparr>"

definition rtc :: "rtc_call list \<Rightarrow> webrtc \<Rightarrow> webrtc" where
  "rtc cs wr = wr\<lparr>rtc_trace := rtc_trace wr @ cs\<rparr>"

definition session_idx_for_viewer :: "int \<Rightarrow> webrtc \<Rightarrow> int" where
  "session_idx_for_viewer viewer_idx wr =
     (case first_index (\<lambda>s. sess_viewer_idx s = viewer_idx) (g_sessions wr) of
        Some i \<Rightarrow> int i
      | None \<Rightarrow> -1)"

definition new_session :: "int \<Rightarrow> pc \<Rightarrow> webrtc_session" where
  "new_session viewer_idx h =
     \<lparr>sess_pc = Some h, video_track = Some h, input_chan = Some h,
      sess_viewer_idx = viewer_idx, connected = False\<rparr>"

definition create_session :: "int \<Rightarrow> webrtc \<Rightarrow> int \<times> webrtc" where
  "create_session viewer_idx wr =
     (let h = next_pc wr;
          wr = rtc [R_peer_connection h ''stun:stun.l.google.com:19302'',
                    R_data_channel h ''nearcade-input'', R_add_track h] (wr\<lparr>next_pc := h + 1\<rparr>);
          wr = lock_guard wr;
          wr = wr\<lparr>g_sessions := g_sessions wr @ [new_session viewer_idx h]\<rparr>;
          ret = int (length (g_sessions wr)) - 1
      in (ret, end_guard wr))"

text \<open>Destroying a session releases its peer connection.\<close>

definition free_session :: "webrtc_session \<Rightarrow> rtc_call list" where
  "free_session s = (case sess_pc s of Some h \<Rightarrow> [R_free h] | None \<Rightarrow> [])"

definition webrtc_init :: "webrtc \<Rightarrow> nearcade_error \<times> webrtc" where
  "webrtc_init wr = (NEARCADE_OK, wr\<lparr>g_initialized := True\<rparr>)"

definition webrtc_shutdown :: "webrtc \<Rightarrow> webrtc" where
  "webrtc_shutdown wr =
     (let wr = lock_guard wr;
          wr = rtc (concat (map free_session (g_sessions wr))) (wr\<lparr>g_sessions := []\<rparr>);
          wr = wr\<lparr>g_initialized := False\<rparr>
      in end_guard wr)"

definition webrtc_set_send_callback :: "bool \<Rightarrow> webrtc \<Rightarrow> webrtc" where
  "webrtc_set_send_callback cb wr = wr\<lparr>g_send_cb := cb\<rparr>"

definition webrtc_set_input_callback :: "bool \<Rightarrow> webrtc \<Rightarrow> webrtc" where
  "webrtc_set_input_callback cb wr = wr\<lparr>g_input_cb := cb\<rparr>"

definition webrtc_set_viewer_callback :: "bool \<Rightarrow> webrtc \<Rightarrow> webrtc" where
  "webrtc_set_viewer_callback cb wr = wr\<lparr>g_viewer_state_cb := cb\<rparr>"

definition webrtc_viewer_joined :: "int \<Rightarrow> webrtc \<Rightarrow> nearcade_error \<times> webrtc" where
  "webrtc_viewer_joined viewer_idx wr =
     (if \<not> g_initialized wr then (NEARCADE_ERR_INIT, wr)
      else (NEARCADE_OK, snd (create_session viewer_idx wr)))"

definition webrtc_viewer_left :: "int \<Rightarrow> webrtc \<Rightarrow> webrtc" where
  "webrtc_viewer_left viewer_idx wr =
     (let wr = lock_guard wr;
          wr = (case first_index (\<lambda>s. sess_viewer_idx s = viewer_idx) (g_sessions wr) of
                  Some i \<Rightarrow> rtc (free_session (g_sessions wr ! i))
                    (wr\<lparr>g_sessions := take i (g_sessions wr) @ drop (Suc i) (g_sessions wr)\<rparr>)
                | None \<Rightarrow> wr)
      in end_guard wr)"


section \<open>Remote messages\<close>

text \<open>The loop that copies the value after \<open>"sdp":"\<close> or \<open>"candidate":"\<close> up to the next
  quote, turning \<open>\"\<close> into a quote and copying every other character. The end of the list
  is the terminator of the C string.\<close>

fun extract_value :: "string \<Rightarrow> string" where
  "extract_value [] = []"
| "extract_value [c] = (if c = DQ then [] else [c])"
| "extract_value (c # d # ds) =
     (if c = DQ then []
      else if c = BS \<and> d = DQ then DQ # extract_value ds
      else c # extract_value (d # ds))"

text \<open>The body of \<open>webrtc_handle_signaling\<close> once the session is found: the result and the
  library call on its peer connection \<open>h\<close>. An exception of the library gives
  \<open>NEARCADE_ERR_NETWORK\<close>.\<close>

definition remote_message :: "rtc_env \<Rightarrow> pc \<Rightarrow> string \<Rightarrow> nearcade_error \<times> rtc_call list" where
  "remote_message env h d =
     (let sdp_val = map_option (drop 7) (strstr d (quoted ''sdp'' @ '':'' @ [DQ]));
          cand_val = map_option (drop 13) (strstr d (quoted ''candidate'' @ '':'' @ [DQ]))
      in
      if strstr d (quoted ''answer'') \<noteq> None then
        (case sdp_val of
           None \<Rightarrow> (NEARCADE_ERR_INVALID_ARG, [])
         | Some v \<Rightarrow>
             if description_ok env (extract_value v)
             then (NEARCADE_OK, [R_remote_description h (extract_value v)])
             else (NEARCADE_ERR_NETWORK, []))
      else if strstr d (quoted ''offer'') \<noteq> None then (NEARCADE_OK, [])
      else if strstr d (quoted ''ice'') \<noteq> None then
        (case cand_val of
           None \<Rightarrow> (NEARCADE_ERR_INVALID_ARG, [])
         | Some v \<Rightarrow>
             if candidate_ok env (extract_value v)
             then (NEARCADE_OK, [R_remote_candidate h (extract_value v)])
             else (NEARCADE_ERR_NETWORK, []))
      else (NEARCADE_ERR_INVALID_ARG, []))"

definition webrtc_handle_signaling ::
    "rtc_env \<Rightarrow> string option \<Rightarrow> string option \<Rightarrow> webrtc \<Rightarrow> nearcade_error \<times> webrtc" where
  "webrtc_handle_signaling env viewer_id data wr =
     (case (viewer_id, data) of
        (Some vid, Some d) \<Rightarrow>
          (case sscanf_viewer vid of
             None \<Rightarrow> (NEARCADE_ERR_INVALID_ARG, wr)
           | Some viewer_idx \<Rightarrow>
               if viewer_idx < 0 then (NEARCADE_ERR_INVALID_ARG, wr)
               else
                 let wr = lock_guard wr;
                     idx = session_idx_for_viewer viewer_idx wr
                 in if idx < 0 then (NEARCADE_ERR_INVALID_ARG, end_guard wr)
                 else
                   (case sess_pc (g_sessions wr ! nat idx) of
                      None \<Rightarrow> (NEARCADE_ERR_INVALID_ARG, end_guard wr)
                    | Some h \<Rightarrow>
                        let (rc, cs) = remote_message env h d in (rc, end_guard (rtc cs wr))))
      | _ \<Rightarrow> (NEARCADE_ERR_INVALID_ARG, wr))"

definition webrtc_send_h264 :: "8 word list option \<Rightarrow> webrtc \<Rightarrow> nearcade_error \<times> webrtc" where
  "webrtc_send_h264 data wr =
     (case data of
        None \<Rightarrow> (NEARCADE_ERR_INVALID_ARG, wr)
      | Some bin \<Rightarrow>
          if length bin = 0 then (NEARCADE_ERR_INVALID_ARG, wr)
          else
            let wr = lock_guard wr;
                sends = concat (map (\<lambda>s. case video_track s of
                                           Some t \<Rightarrow> if connected s then [R_send t bin] else []
                                         | None \<Rightarrow> []) (g_sessions wr))
            in (NEARCADE_OK, end_guard (rtc sends wr)))"


section \<open>Callbacks of a session\<close>

definition send_to_viewer ::
    "(string \<Rightarrow> string \<Rightarrow> 'w \<Rightarrow> 'w) \<Rightarrow> string \<Rightarrow> string \<Rightarrow> webrtc \<Rightarrow> 'w \<Rightarrow> 'w" where
  "send_to_viewer send_cb viewer_id data wr w = (if g_send_cb wr then send_cb viewer_id data w else w)"

definition session_id :: "int \<Rightarrow> string" where
  "session_id viewer_idx = cstr (snprintf (viewer_id_of viewer_idx) 64 (zeroed 64))"

definition on_state_change ::
    "(int \<Rightarrow> bool \<Rightarrow> 'w \<Rightarrow> 'w) \<Rightarrow> int \<Rightarrow> pc_state \<Rightarrow> webrtc \<Rightarrow> 'w \<Rightarrow> 'w" where
  "on_state_change viewer_cb viewer_idx state wr w =
     (if state = Connected then
        (if g_viewer_state_cb wr then viewer_cb viewer_idx True w else w)
      else if state = Disconnected \<or> state = Failed \<or> state = Closed then
        (if g_viewer_state_cb wr then viewer_cb viewer_idx False w else w)
      else w)"

definition on_local_description ::
    "(string \<Rightarrow> string \<Rightarrow> 'w \<Rightarrow> 'w) \<Rightarrow> int \<Rightarrow> string \<Rightarrow> string \<Rightarrow> webrtc \<Rightarrow> 'w \<Rightarrow> 'w" where
  "on_local_description send_cb viewer_idx type sdp wr w =
     (let msg = json_message type ''sdp'' sdp; n = length msg in
      if 0 < n \<and> n < 8192
      then send_to_viewer send_cb (session_id viewer_idx) (cstr (snprintf msg 8192 (zeroed 8192))) wr w
      else w)"

definition on_local_candidate ::
    "(string \<Rightarrow> string \<Rightarrow> 'w \<Rightarrow> 'w) \<Rightarrow> int \<Rightarrow> string \<Rightarrow> webrtc \<Rightarrow> 'w \<Rightarrow> 'w" where
  "on_local_candidate send_cb viewer_idx c wr w =
     (let msg = json_message ''ice'' ''candidate'' c; n = length msg in
      if 0 < n \<and> n < 4096
      then send_to_viewer send_cb (session_id viewer_idx) (cstr (snprintf msg 4096 (zeroed 4096))) wr w
      else w)"

definition on_input_message ::
    "(nearcade_gamepad_packet \<Rightarrow> 'w \<Rightarrow> 'w) \<Rightarrow> rtc_message \<Rightarrow> webrtc \<Rightarrow> 'w \<Rightarrow> 'w" where
  "on_input_message input_cb msg wr w =
     (case msg of
        Text _ \<Rightarrow> w
      | Binary bin \<Rightarrow>
          if length bin < sizeof_packet then w
          else if g_input_cb wr then input_cb (decode_packet (take sizeof_packet bin)) w else w)"


section \<open>Specification\<close>

text \<open>What a trace of library calls leaves: the peer connections in use, or \<open>None\<close> when one
  was created twice, released twice or used while not in use.\<close>

fun rtc_run :: "pc set \<Rightarrow> rtc_call list \<Rightarrow> pc set option" where
  "rtc_run S [] = Some S"
| "rtc_run S (c # cs) =
     (case c of
        R_peer_connection h _ \<Rightarrow> if h \<in> S then None else rtc_run (insert h S) cs
      | R_data_channel h _ \<Rightarrow> if h \<in> S then rtc_run S cs else None
      | R_add_track h \<Rightarrow> if h \<in> S then rtc_run S cs else None
      | R_remote_description h _ \<Rightarrow> if h \<in> S then rtc_run S cs else None
      | R_remote_candidate h _ \<Rightarrow> if h \<in> S then rtc_run S cs else None
      | R_send h _ \<Rightarrow> if h \<in> S then rtc_run S cs else None
      | R_free h \<Rightarrow> if h \<in> S then rtc_run (S - {h}) cs else None)"

definition session_pcs :: "webrtc \<Rightarrow> pc list" where
  "session_pcs wr = map (\<lambda>s. the (sess_pc s)) (g_sessions wr)"

definition sess_pc_set :: "webrtc \<Rightarrow> pc set" where
  "sess_pc_set wr = {h. \<exists>s\<in>set (g_sessions wr). sess_pc s = Some h}"

definition session_viewers :: "webrtc \<Rightarrow> int list" where
  "session_viewers wr = map sess_viewer_idx (g_sessions wr)"

definition sends_video :: "rtc_call \<Rightarrow> bool" where
  "sends_video c = (case c of R_send _ _ \<Rightarrow> True | _ \<Rightarrow> False)"

text \<open>A session as \<open>create_session\<close> made it: no code changes it afterwards.\<close>

definition sess_ok :: "webrtc_session \<Rightarrow> bool" where
  "sess_ok s \<longleftrightarrow> s = new_session (sess_viewer_idx s) (the (sess_pc s))"

definition webrtc_inv :: "webrtc \<Rightarrow> bool" where
  "webrtc_inv wr \<longleftrightarrow>
     g_lock wr = Unlocked \<and>
     (\<forall>s\<in>set (g_sessions wr). sess_ok s) \<and>
     distinct (session_pcs wr) \<and> (\<forall>h\<in>set (session_pcs wr). h < next_pc wr) \<and>
     rtc_run {} (rtc_trace wr) = Some (set (session_pcs wr)) \<and>
     \<not> list_ex sends_video (rtc_trace wr)"

text \<open>What the receiving loop makes of an escaped character: only the escape of the quote is
  undone.\<close>

definition half_escaped :: "char \<Rightarrow> string" where
  "half_escaped c = (if c = DQ then [DQ] else escaped c)"

text \<open>The calls the rest of the program makes, in any order.\<close>

datatype webrtc_op =
    W_init
  | W_shutdown
  | W_joined int
  | W_left int
  | W_signaling "string option" "string option"
  | W_send_h264 "8 word list option"

fun exec_webrtc :: "rtc_env \<Rightarrow> webrtc_op \<Rightarrow> webrtc \<Rightarrow> webrtc" where
  "exec_webrtc env W_init wr = snd (webrtc_init wr)"
| "exec_webrtc env W_shutdown wr = webrtc_shutdown wr"
| "exec_webrtc env (W_joined i) wr = snd (webrtc_viewer_joined i wr)"
| "exec_webrtc env (W_left i) wr = webrtc_viewer_left i wr"
| "exec_webrtc env (W_signaling v d) wr = snd (webrtc_handle_signaling env v d wr)"
| "exec_webrtc env (W_send_h264 d) wr = snd (webrtc_send_h264 d wr)"

fun run_webrtc :: "rtc_env \<Rightarrow> webrtc_op list \<Rightarrow> webrtc \<Rightarrow> webrtc" where
  "run_webrtc env [] wr = wr"
| "run_webrtc env (p # ps) wr = run_webrtc env ps (exec_webrtc env p wr)"


section \<open>Facts: sessions\<close>

lemma lock_guard_fields [simp]:
  "g_sessions (lock_guard wr) = g_sessions wr" "g_initialized (lock_guard wr) = g_initialized wr"
  "g_send_cb (lock_guard wr) = g_send_cb wr" "g_input_cb (lock_guard wr) = g_input_cb wr"
  "g_viewer_state_cb (lock_guard wr) = g_viewer_state_cb wr" "next_pc (lock_guard wr) = next_pc wr"
  "rtc_trace (lock_guard wr) = rtc_trace wr"
  by (simp_all add: lock_guard_def)

lemma end_guard_fields [simp]:
  "g_sessions (end_guard wr) = g_sessions wr" "g_initialized (end_guard wr) = g_initialized wr"
  "g_send_cb (end_guard wr) = g_send_cb wr" "g_input_cb (end_guard wr) = g_input_cb wr"
  "g_viewer_state_cb (end_guard wr) = g_viewer_state_cb wr" "next_pc (end_guard wr) = next_pc wr"
  "rtc_trace (end_guard wr) = rtc_trace wr"
  by (simp_all add: end_guard_def)

lemma rtc_fields [simp]:
  "g_sessions (rtc cs wr) = g_sessions wr" "g_initialized (rtc cs wr) = g_initialized wr"
  "g_send_cb (rtc cs wr) = g_send_cb wr" "g_input_cb (rtc cs wr) = g_input_cb wr"
  "g_viewer_state_cb (rtc cs wr) = g_viewer_state_cb wr" "next_pc (rtc cs wr) = next_pc wr"
  "rtc_trace (rtc cs wr) = rtc_trace wr @ cs" "g_lock (rtc cs wr) = g_lock wr"
  by (simp_all add: rtc_def)

lemma guarded: "g_lock wr = Unlocked \<Longrightarrow> end_guard (lock_guard wr) = wr"
  "g_lock wr = Unlocked \<Longrightarrow> end_guard (rtc cs (lock_guard wr)) = rtc cs wr"
  by (simp_all add: end_guard_def lock_guard_def rtc_def)

lemma rtc_Nil: "rtc [] wr = wr"
  by (simp add: rtc_def)

lemma new_session_fields [simp]:
  "sess_pc (new_session i h) = Some h" "video_track (new_session i h) = Some h"
  "sess_viewer_idx (new_session i h) = i" "\<not> connected (new_session i h)"
  by (simp_all add: new_session_def)

lemma create_session_eq:
  "g_lock wr = Unlocked \<Longrightarrow> create_session i wr =
    (int (length (g_sessions wr)),
     rtc [R_peer_connection (next_pc wr) ''stun:stun.l.google.com:19302'',
          R_data_channel (next_pc wr) ''nearcade-input'', R_add_track (next_pc wr)]
       (wr\<lparr>next_pc := next_pc wr + 1, g_sessions := g_sessions wr @ [new_session i (next_pc wr)]\<rparr>))"
  by (simp add: create_session_def Let_def lock_guard_def end_guard_def rtc_def)

lemma viewer_left_eq:
  "g_lock wr = Unlocked \<Longrightarrow> webrtc_viewer_left i wr =
    (case first_index (\<lambda>s. sess_viewer_idx s = i) (g_sessions wr) of
       Some k \<Rightarrow> rtc (free_session (g_sessions wr ! k))
                  (wr\<lparr>g_sessions := take k (g_sessions wr) @ drop (Suc k) (g_sessions wr)\<rparr>)
     | None \<Rightarrow> wr)"
  by (simp add: webrtc_viewer_left_def Let_def lock_guard_def end_guard_def rtc_def split: option.split)

lemma shutdown_eq:
  "g_lock wr = Unlocked \<Longrightarrow> webrtc_shutdown wr =
    rtc (concat (map free_session (g_sessions wr))) (wr\<lparr>g_sessions := [], g_initialized := False\<rparr>)"
  by (simp add: webrtc_shutdown_def Let_def lock_guard_def end_guard_def rtc_def)

lemma rtc_run_append: "rtc_run S (a @ b) = Option.bind (rtc_run S a) (\<lambda>S'. rtc_run S' b)"
proof (induction a arbitrary: S)
  case (Cons c a)
  then show ?case by (cases c) simp_all
qed simp

lemma rtc_run_free: "distinct hs \<Longrightarrow> set hs \<subseteq> S \<Longrightarrow> rtc_run S (map R_free hs) = Some (S - set hs)"
proof (induction hs arbitrary: S)
  case (Cons h hs)
  then have "rtc_run (S - {h}) (map R_free hs) = Some (S - {h} - set hs)" by (intro Cons.IH) auto
  moreover have "S - {h} - set hs = S - set (h # hs)" by auto
  ultimately show ?case using Cons.prems by simp
qed simp

lemma sess_okD:
  assumes "sess_ok s"
  shows "sess_pc s = Some (the (sess_pc s))" and "\<not> connected s"
    and "free_session s = [R_free (the (sess_pc s))]"
proof -
  obtain i h where s: "s = new_session i h" using assms by (auto simp: sess_ok_def)
  show "sess_pc s = Some (the (sess_pc s))" "\<not> connected s" "free_session s = [R_free (the (sess_pc s))]"
    by (simp_all add: s free_session_def)
qed

lemma sess_ok_new [simp]: "sess_ok (new_session i h)"
  by (simp add: sess_ok_def)

lemma remove_nth:
  assumes "k < length xs" and "distinct xs"
  shows "set (take k xs @ drop (Suc k) xs) = set xs - {xs ! k}" and "distinct (take k xs @ drop (Suc k) xs)"
proof -
  have xs: "xs = take k xs @ xs ! k # drop (Suc k) xs" using assms(1) by (rule id_take_nth_drop)
  have d: "distinct (take k xs @ xs ! k # drop (Suc k) xs)" using assms(2) xs by simp
  then show "distinct (take k xs @ drop (Suc k) xs)" by auto
  have "set xs = insert (xs ! k) (set (take k xs @ drop (Suc k) xs))" by (subst xs) simp
  then show "set (take k xs @ drop (Suc k) xs) = set xs - {xs ! k}" using d by auto
qed

lemma session_pcs_rtc [simp]: "session_pcs (rtc cs wr) = session_pcs wr"
  by (simp add: session_pcs_def)

lemma webrtc_inv_static: "webrtc_inv webrtc_static"
  by (simp add: webrtc_inv_def webrtc_static_def session_pcs_def)

lemma webrtc_inv_joined [keeps]:
  assumes "webrtc_inv wr" shows "webrtc_inv (snd (webrtc_viewer_joined i wr))"
proof -
  have lock: "g_lock wr = Unlocked" using assms by (simp add: webrtc_inv_def)
  have "next_pc wr \<notin> set (session_pcs wr)" using assms by (auto simp: webrtc_inv_def)
  then show ?thesis
    using assms
    by (auto simp: webrtc_viewer_joined_def create_session_eq[OF lock] webrtc_inv_def session_pcs_def
        rtc_run_append sends_video_def less_Suc_eq)
qed

lemma webrtc_inv_left [keeps]:
  assumes "webrtc_inv wr" shows "webrtc_inv (webrtc_viewer_left i wr)"
proof (cases "first_index (\<lambda>s. sess_viewer_idx s = i) (g_sessions wr)")
  case None
  with assms show ?thesis by (simp add: viewer_left_eq webrtc_inv_def)
next
  case (Some k)
  let ?ss = "g_sessions wr" and ?ss' = "take k (g_sessions wr) @ drop (Suc k) (g_sessions wr)"
  have lock: "g_lock wr = Unlocked" using assms by (simp add: webrtc_inv_def)
  have k: "k < length ?ss" using first_index_SomeD(1)[OF Some] .
  have pcs: "session_pcs (wr\<lparr>g_sessions := ?ss'\<rparr>) = take k (session_pcs wr) @ drop (Suc k) (session_pcs wr)"
    by (simp add: session_pcs_def take_map drop_map)
  have hk: "session_pcs wr ! k = the (sess_pc (?ss ! k))" "k < length (session_pcs wr)"
    using k by (simp_all add: session_pcs_def)
  have free: "free_session (?ss ! k) = [R_free (session_pcs wr ! k)]"
    using assms k hk by (simp add: webrtc_inv_def sess_okD(3))
  have "session_pcs wr ! k \<in> set (session_pcs wr)" using hk(2) by simp
  moreover have "set ?ss' \<subseteq> set ?ss" by (auto dest: in_set_takeD in_set_dropD)
  moreover note rest = remove_nth[OF hk(2), folded pcs]
  have "webrtc_viewer_left i wr = rtc [R_free (session_pcs wr ! k)] (wr\<lparr>g_sessions := ?ss'\<rparr>)"
    by (simp only: viewer_left_eq[OF lock] Some option.case free)
  moreover have "distinct (session_pcs wr)" using assms by (simp add: webrtc_inv_def)
  ultimately show ?thesis
    using rest assms by (auto simp: webrtc_inv_def rtc_run_append sends_video_def session_pcs_rtc)
qed

lemma free_sessions_eq:
  "\<forall>s\<in>set (g_sessions wr). sess_ok s \<Longrightarrow> concat (map free_session (g_sessions wr)) = map R_free (session_pcs wr)"
proof -
  have "concat (map free_session ss) = map R_free (map (\<lambda>s. the (sess_pc s)) ss)"
    if "\<forall>s\<in>set ss. sess_ok s" for ss
    using that by (induction ss) (simp_all add: sess_okD(3))
  then show "\<forall>s\<in>set (g_sessions wr). sess_ok s \<Longrightarrow> ?thesis" unfolding session_pcs_def .
qed

lemma webrtc_inv_shutdown [keeps]:
  assumes "webrtc_inv wr" shows "webrtc_inv (webrtc_shutdown wr)"
proof -
  have lock: "g_lock wr = Unlocked" using assms by (simp add: webrtc_inv_def)
  have "concat (map free_session (g_sessions wr)) = map R_free (session_pcs wr)"
    using assms by (simp add: free_sessions_eq webrtc_inv_def)
  moreover have "rtc_run (set (session_pcs wr)) (map R_free (session_pcs wr)) = Some {}"
    using assms rtc_run_free[of "session_pcs wr" "set (session_pcs wr)"] by (simp add: webrtc_inv_def)
  moreover have "session_pcs (wr\<lparr>g_sessions := [], g_initialized := False\<rparr>) = []"
    by (simp add: session_pcs_def)
  moreover have "\<not> list_ex sends_video (map R_free hs)" for hs
    by (induction hs) (simp_all add: sends_video_def)
  ultimately show ?thesis
    using assms by (simp add: shutdown_eq[OF lock] webrtc_inv_def rtc_run_append)
qed

lemma idx_session:
  assumes "session_idx_for_viewer i wr = int k"
  shows "k < length (g_sessions wr)" and "sess_viewer_idx (g_sessions wr ! k) = i"
  using assms first_index_SomeD(1,2)[of "\<lambda>s. sess_viewer_idx s = i" "g_sessions wr" k]
  by (auto simp: session_idx_for_viewer_def split: option.splits)

lemma remote_message_calls:
  "snd (remote_message env h d) = [] \<or> (\<exists>t. snd (remote_message env h d) = [R_remote_description h t])
   \<or> (\<exists>t. snd (remote_message env h d) = [R_remote_candidate h t])"
  by (simp add: remote_message_def Let_def split: option.split)

lemma webrtc_inv_remote:
  assumes "webrtc_inv wr" and "h \<in> set (session_pcs wr)"
  shows "webrtc_inv (rtc (snd (remote_message env h d)) wr)"
  using assms remote_message_calls[of env h d]
  by (auto simp: webrtc_inv_def rtc_run_append sends_video_def rtc_Nil)

text \<open>The handler either does nothing or forwards the message to the viewer's own session.\<close>

lemma handle_signaling_cases [consumes 1, case_names nothing forward]:
  assumes "g_lock wr = Unlocked"
  obtains (nothing) "snd (webrtc_handle_signaling env v d wr) = wr"
  | (forward) h m where "h \<in> sess_pc_set wr"
      "snd (webrtc_handle_signaling env v d wr) = rtc (snd (remote_message env h m)) wr"
proof (cases "\<exists>vid m i h. v = Some vid \<and> d = Some m \<and> sscanf_viewer vid = Some i \<and> \<not> i < 0
      \<and> \<not> session_idx_for_viewer i wr < 0
      \<and> sess_pc (g_sessions wr ! nat (session_idx_for_viewer i wr)) = Some h")
  case True
  then obtain vid m i h where c: "v = Some vid" "d = Some m" "sscanf_viewer vid = Some i" "\<not> i < 0"
      "\<not> session_idx_for_viewer i wr < 0"
      "sess_pc (g_sessions wr ! nat (session_idx_for_viewer i wr)) = Some h" by blast
  have lk: "session_idx_for_viewer i (lock_guard wr) = session_idx_for_viewer i wr"
    by (simp add: session_idx_for_viewer_def)
  obtain k where k: "session_idx_for_viewer i wr = int k"
    using c(5) nonneg_int_cases[of "session_idx_for_viewer i wr"] by auto
  then have "h \<in> sess_pc_set wr"
    using idx_session(1)[OF k] c(6) by (auto simp: sess_pc_set_def intro!: bexI[of _ "g_sessions wr ! k"])
  moreover have "snd (webrtc_handle_signaling env v d wr) = rtc (snd (remote_message env h m)) wr"
    using c by (simp add: webrtc_handle_signaling_def Let_def lk guarded[OF assms] split_beta)
  ultimately show ?thesis by (rule forward)
next
  case False
  have lk: "session_idx_for_viewer i (lock_guard wr) = session_idx_for_viewer i wr" for i
    by (simp add: session_idx_for_viewer_def)
  from False have "snd (webrtc_handle_signaling env v d wr) = wr"
    by (auto simp: webrtc_handle_signaling_def Let_def guarded[OF assms] lk split: option.split)
  then show ?thesis by (rule nothing)
qed

lemma webrtc_inv_signaling [keeps]:
  assumes "webrtc_inv wr" shows "webrtc_inv (snd (webrtc_handle_signaling env v d wr))"
proof -
  have lock: "g_lock wr = Unlocked" using assms by (simp add: webrtc_inv_def)
  then show ?thesis
  proof (cases rule: handle_signaling_cases[where env = env and v = v and d = d])
    case nothing
    with assms show ?thesis by simp
  next
    case (forward h m)
    then have "h \<in> set (session_pcs wr)" by (force simp: sess_pc_set_def session_pcs_def)
    with forward webrtc_inv_remote[OF assms] show ?thesis by simp
  qed
qed

lemma webrtc_send_nothing:
  assumes "webrtc_inv wr" shows "snd (webrtc_send_h264 d wr) = wr"
proof -
  have lock: "g_lock wr = Unlocked" using assms by (simp add: webrtc_inv_def)
  have none: "(case video_track s of Some t \<Rightarrow> if connected s then [R_send t b] else [] | None \<Rightarrow> []) = []"
    if "s \<in> set (g_sessions wr)" for s b
    using assms that by (simp add: webrtc_inv_def sess_okD(2) split: option.split)
  then show ?thesis
    by (simp add: webrtc_send_h264_def Let_def guarded(1)[OF lock] concat_eq_Nil_conv[THEN iffD2] rtc_Nil
        split: option.split)
qed

lemma webrtc_inv_send [keeps]: "webrtc_inv wr \<Longrightarrow> webrtc_inv (snd (webrtc_send_h264 d wr))"
  by (simp add: webrtc_send_nothing)

lemma webrtc_inv_init [keeps]: "webrtc_inv wr \<Longrightarrow> webrtc_inv (snd (webrtc_init wr))"
  by (simp add: webrtc_init_def webrtc_inv_def session_pcs_def)

lemma webrtc_inv_exec [keeps]: "webrtc_inv wr \<Longrightarrow> webrtc_inv (exec_webrtc env p wr)"
  by (cases p) (simp_all add: keeps)

lemma webrtc_inv_run: "webrtc_inv wr \<Longrightarrow> webrtc_inv (run_webrtc env ps wr)"
  by (induction ps arbitrary: wr) (simp_all add: webrtc_inv_exec)

section \<open>Facts: messages\<close>

lemma extract_Cons: "c \<notin> {DQ, BS} \<Longrightarrow> extract_value (c # cs) = c # extract_value cs"
  by (cases cs) auto

lemma extract_escaped:
  assumes "BS \<noteq> c"
  shows "extract_value (escaped c @ t) = half_escaped c @ extract_value t"
  using assms by (auto simp: escaped_def half_escaped_def extract_Cons)

lemma extract_text:
  "BS \<notin> set s \<Longrightarrow> extract_value (concat (map escaped s) @ DQ # t) = concat (map half_escaped s)"
proof (induction s)
  case Nil
  then show ?case by (cases t) simp_all
next
  case (Cons c s)
  then show ?case by (simp add: extract_escaped del: escape_of.simps)
qed

lemma length_half_escaped:
  "BS \<notin> set s \<Longrightarrow>
   length (concat (map half_escaped s)) = length s + length (filter (\<lambda>c. c \<in> {LF, CR, HT}) s)"
  by (induction s) (auto simp: half_escaped_def escaped_def)

lemma half_escaped_id:
  assumes "BS \<notin> set s"
  shows "concat (map half_escaped s) = s \<longleftrightarrow> set s \<inter> {LF, CR, HT} = {}"
proof
  assume "concat (map half_escaped s) = s"
  then have "length (filter (\<lambda>c. c \<in> {LF, CR, HT}) s) = 0"
    using length_half_escaped[OF assms] by simp
  then have "filter (\<lambda>c. c \<in> {LF, CR, HT}) s = []" by simp
  then show "set s \<inter> {LF, CR, HT} = {}" by (auto simp: filter_empty_conv)
next
  assume "set s \<inter> {LF, CR, HT} = {}"
  with assms show "concat (map half_escaped s) = s"
    by (induction s) (auto simp: half_escaped_def escaped_def)
qed

lemma strstr_skip: "DQ \<notin> set v \<Longrightarrow> strstr (v @ t) (DQ # p) = strstr t (DQ # p)"
  by (induction v) auto

lemma prefix_quoted:
  "DQ \<notin> set v \<Longrightarrow> DQ \<notin> set w \<Longrightarrow> prefix (w @ [DQ]) (v @ DQ # t) \<longleftrightarrow> v = w"
proof (induction w arbitrary: v)
  case Nil
  then show ?case by (cases v) auto
next
  case (Cons c w)
  then show ?case by (cases v) auto
qed

text \<open>What the handler finds in a message of the format the peers exchange.\<close>

lemma answer_parts:
  "strstr (json_message ''answer'' ''sdp'' v) (quoted ''answer'') \<noteq> None"
  "strstr (json_message ''answer'' ''sdp'' v) (quoted ''sdp'' @ '':'' @ [DQ]) =
     Some (quoted ''sdp'' @ '':'' @ [DQ] @ v @ DQ # ''}'')"
  by (simp_all add: json_message_def quoted_def)

lemma ice_parts:
  assumes "DQ \<notin> set v" and "v \<noteq> ''answer''" and "v \<noteq> ''offer''"
  shows "strstr (json_message ''ice'' ''candidate'' v) (quoted ''answer'') = None"
    and "strstr (json_message ''ice'' ''candidate'' v) (quoted ''offer'') = None"
    and "strstr (json_message ''ice'' ''candidate'' v) (quoted ''ice'') \<noteq> None"
    and "strstr (json_message ''ice'' ''candidate'' v) (quoted ''candidate'' @ '':'' @ [DQ]) =
      Some (quoted ''candidate'' @ '':'' @ [DQ] @ v @ DQ # ''}'')"
  using assms prefix_quoted[of v "''answer''" "''}''"] prefix_quoted[of v "''offer''" "''}''"]
  by (simp_all add: json_message_def quoted_def strstr_skip)




lemma handle_answer_eq:
  assumes "webrtc_inv wr" and "0 \<le> i" and "i < 2 ^ 31"
    and "first_index (\<lambda>s. sess_viewer_idx s = i) (g_sessions wr) = Some k"
    and "sess_pc (g_sessions wr ! k) = Some h"
  shows "webrtc_handle_signaling env (Some (viewer_id_of i)) (Some (json_message ''answer'' ''sdp'' v)) wr =
    (let t = extract_value (v @ DQ # ''}'') in
     if description_ok env t then (NEARCADE_OK, rtc [R_remote_description h t] wr)
     else (NEARCADE_ERR_NETWORK, wr))"
proof -
  have lock: "g_lock wr = Unlocked" using assms(1) by (simp add: webrtc_inv_def)
  have "sscanf_viewer (viewer_id_of i) = Some i" using assms(2,3) by (intro sscanf_viewer_id) simp_all
  then show ?thesis
    using assms(2,4,5) answer_parts[of v]
    by (simp add: webrtc_handle_signaling_def remote_message_def Let_def session_idx_for_viewer_def
        guarded[OF lock] quoted_def rtc_Nil)
qed

lemma handle_ice_eq:
  assumes "webrtc_inv wr" and "0 \<le> i" and "i < 2 ^ 31"
    and "first_index (\<lambda>s. sess_viewer_idx s = i) (g_sessions wr) = Some k"
    and "sess_pc (g_sessions wr ! k) = Some h"
    and "DQ \<notin> set v" "v \<noteq> ''answer''" "v \<noteq> ''offer''"
  shows "webrtc_handle_signaling env (Some (viewer_id_of i)) (Some (json_message ''ice'' ''candidate'' v)) wr =
    (let t = extract_value (v @ DQ # ''}'') in
     if candidate_ok env t then (NEARCADE_OK, rtc [R_remote_candidate h t] wr)
     else (NEARCADE_ERR_NETWORK, wr))"
proof -
  have lock: "g_lock wr = Unlocked" using assms(1) by (simp add: webrtc_inv_def)
  have "sscanf_viewer (viewer_id_of i) = Some i" using assms(2,3) by (intro sscanf_viewer_id) simp_all
  then show ?thesis
    using assms(2,4,5) ice_parts[OF assms(6-8)]
    by (simp add: webrtc_handle_signaling_def remote_message_def Let_def session_idx_for_viewer_def
        guarded[OF lock] quoted_def rtc_Nil)
qed

lemma escaped_plain:
  "set s \<inter> {DQ, BS, LF, CR, HT} = {} \<Longrightarrow> concat (map escaped s) = s"
  by (induction s) (auto simp: escaped_def)

lemma extract_plain: "set s \<inter> {DQ, BS, LF, CR, HT} = {} \<Longrightarrow> extract_value (s @ DQ # t) = s"
  using extract_text[of s t] half_escaped_id[of s] escaped_plain[of s] by auto

lemma json_body_no_LF: "json_body v \<Longrightarrow> LF \<notin> set v"
  by (induction v rule: json_body.induct) (auto split: if_splits)





text \<open>
  C9. Peer connections are used correctly under every sequence of calls: each is released
  exactly once, none is used before it exists or after its release, those in use are exactly
  those of the open sessions, the mutex is always released, and after \<open>webrtc_shutdown\<close> none
  remains.
\<close>

theorem peer_connections_balanced:
  "let wr = run_webrtc env ops webrtc_static in
   rtc_run {} (rtc_trace wr) = Some (set (session_pcs wr)) \<and> distinct (session_pcs wr)
   \<and> g_lock wr = Unlocked
   \<and> rtc_run {} (rtc_trace (webrtc_shutdown wr)) = Some {}"
proof -
  let ?wr = "run_webrtc env ops webrtc_static"
  have inv: "webrtc_inv ?wr" by (intro webrtc_inv_run webrtc_inv_static)
  then have "webrtc_inv (webrtc_shutdown ?wr)" by (rule webrtc_inv_shutdown)
  moreover have "session_pcs (webrtc_shutdown ?wr) = []"
    using inv by (simp add: shutdown_eq webrtc_inv_def session_pcs_def)
  ultimately show ?thesis using inv by (simp add: webrtc_inv_def Let_def)
qed


text \<open>
  A gamepad packet sent over the data channel arrives as it was sent: the sixteen bytes of
  the wire format decode to the packet they encode, further bytes are ignored, and a shorter
  message or a text message is dropped.
\<close>

lemma input_message_decoded:
  "on_input_message input_cb (Binary (encode_packet p @ rest)) (wr\<lparr>g_input_cb := True\<rparr>) w = input_cb p w
   \<and> on_input_message input_cb (Text t) wr w = w
   \<and> (length b < 16 \<longrightarrow> on_input_message input_cb (Binary b) wr w = w)
   \<and> (length b = 16 \<longrightarrow> encode_packet (decode_packet b) = b)"
  using decode_encode_packet[of p "[]"] encode_decode_packet[of b] length_encode_packet[of p]
  by (simp add: on_input_message_def sizeof_packet_def)

text \<open>
  Local descriptions and candidates go to their own viewer, whole or not at all: a message
  that does not fit its buffer is not sent. The text is not escaped, so a description with a line
  break gives a frame whose value is not the body of a JSON string.
\<close>

lemma local_description_sent_raw:
  assumes "g_send_cb wr" and "c_string type" and "c_string sdp" and "0 \<le> i" and "i < 2 ^ 31"
  shows "on_local_description send_cb i type sdp wr w =
      (if length type + length sdp + 20 < 8192
       then send_cb (viewer_id_of i) (json_message type ''sdp'' sdp) w else w)
    \<and> on_local_candidate send_cb i sdp wr w =
      (if length sdp + 29 < 4096
       then send_cb (viewer_id_of i) (json_message ''ice'' ''candidate'' sdp) w else w)
    \<and> (LF \<in> set sdp \<longrightarrow> \<not> json_body sdp)"
proof -
  have id: "session_id i = viewer_id_of i"
    using assms(4,5) by (simp add: session_id_def cstr_viewer_id_buf)
  have "cstr (snprintf m n (zeroed n)) = m" if "c_string m" "length m < n" for m n
    using that by (simp add: cstr_snprintf)
  then show ?thesis
    using assms(1-3) json_body_no_LF[of sdp]
    by (auto simp: on_local_description_def on_local_candidate_def Let_def send_to_viewer_def id
        length_json_message)
qed

end
