(* ===== verification/Nearcade_Core.thy ===== *)
theory Nearcade_Core
  imports Slots Input_Backend Capture Webrtc
begin

text \<open>
  \<open>src/nearcade.c\<close> and \<open>fire_event\<close> of \<open>src/nearcade_internal.h\<close>: the public API and
  the callbacks that tie the components together. The global \<open>g_state\<close> is the record
  \<open>nearcade_state\<close>; the record \<open>sdk\<close> adds the file-level state of every component.

  The build is a parameter: the platform and whether \<open>NEARCADE_HAS_SIGNALING\<close> is set. So are
  the answers of the operating system and of the libraries, gathered in \<open>init_env\<close> for
  \<open>nearcade_init\<close> and passed one by one elsewhere. The application's event callback and its
  user data are numbers, 0 for \<open>NULL\<close>; \<open>delivered\<close> holds the events handed to it. \<open>wsa\<close>
  counts the calls of \<open>WSAStartup\<close> not yet balanced by \<open>WSACleanup\<close>.
\<close>

record build =
  plat :: platform
  has_signaling :: bool

record nearcade_state =
  config :: nearcade_config
  running :: bool
  capturing :: bool
  streaming :: bool
  viewers :: "viewer_info list"
  num_viewers :: int
  slots :: slot_manager
  event_cb :: nat
  event_cb_userdata :: nat
  viewer_lock :: mutex
  pin :: cbuf
  lan_ip :: cbuf

record sdk =
  g_state :: nearcade_state
  g_loglevel :: int
  seeded :: bool
  inputs :: input_state
  g_ff :: ffmpeg_capture
  sig :: signaling
  wrtc :: webrtc
  delivered :: "(nat \<times> nat \<times> nearcade_event) list"
  wsa :: int

text \<open>\<open>memset(&g_state, 0, sizeof(g_state))\<close>: also the value the loader gives it.\<close>

definition zero_config :: nearcade_config where
  "zero_config =
     \<lparr>port = 0, screen_width = 0, screen_height = 0, max_bitrate = 0, fps = 0, enable_audio = 0,
      turn_url = None, turn_username = None, turn_credential = None\<rparr>"

definition zero_viewer :: viewer_info where
  "zero_viewer =
     \<lparr>v_id = zeroed NEARCADE_VIEWER_ID_LEN, v_name = zeroed 48, v_slot = 0, v_active = False,
      v_mode = NEARCADE_INPUT_GAMEPAD, v_ctrl_type = NEARCADE_CTRL_XBOX360, v_slot_allocated = 0\<rparr>"

definition zero_slots :: slot_manager where
  "zero_slots =
     \<lparr>slot_map = replicate MAX_SLOTS 0,
      slot_viewers = replicate MAX_SLOTS (zeroed NEARCADE_VIEWER_ID_LEN), slots_lock = Uninit\<rparr>"

definition zero_state :: nearcade_state where
  "zero_state =
     \<lparr>config = zero_config, running = False, capturing = False, streaming = False,
      viewers = replicate MAX_VIEWERS zero_viewer, num_viewers = 0, slots = zero_slots,
      event_cb = 0, event_cb_userdata = 0, viewer_lock = Uninit,
      pin = zeroed 8, lan_ip = zeroed 64\<rparr>"

definition sdk_static :: sdk where
  "sdk_static =
     \<lparr>g_state = zero_state, g_loglevel = 0, seeded = False, inputs = input_static,
      g_ff = capture_static, sig = signaling_static, wrtc = webrtc_static,
      delivered = [], wsa = 0\<rparr>"

definition upd_state :: "(nearcade_state \<Rightarrow> nearcade_state) \<Rightarrow> sdk \<Rightarrow> sdk" where
  "upd_state f s = s\<lparr>g_state := f (g_state s)\<rparr>"


section \<open>Helpers\<close>

definition log_level_from_env :: "string option \<Rightarrow> int" where
  "log_level_from_env env =
     (case env of
        None \<Rightarrow> loglevel_num NEARCADE_LOG_NONE
      | Some e \<Rightarrow>
          if e = ''trace'' then loglevel_num NEARCADE_LOG_TRACE
          else if e = ''debug'' then loglevel_num NEARCADE_LOG_DEBUG
          else if e = ''info'' then loglevel_num NEARCADE_LOG_INFO
          else if e = ''warn'' then loglevel_num NEARCADE_LOG_WARN
          else if e = ''error'' then loglevel_num NEARCADE_LOG_ERROR
          else
            let lvl = strtol10 e in
            if loglevel_num NEARCADE_LOG_NONE \<le> lvl \<and> lvl \<le> loglevel_num NEARCADE_LOG_TRACE
            then lvl else loglevel_num NEARCADE_LOG_NONE)"

text \<open>\<open>r\<close> is what \<open>rand()\<close> returns. The callers set the flag \<open>seeded\<close>, which a first call
  sets after seeding the generator.\<close>

definition generate_pin :: "nat \<Rightarrow> nat \<Rightarrow> cbuf \<Rightarrow> cbuf" where
  "generate_pin r len buf = snprintf (fmt_0d 4 (1000 + int r mod 9000)) len buf"

record ifaddr =
  ifa_inet :: bool
  ifa_loopback :: bool
  ifa_text :: string

record adapter =
  if_loopback :: bool
  first_unicast :: "string option"

record lan_env =
  getifaddrs :: "ifaddr list option"
  size_query_ok :: bool
  adapters_malloc :: bool
  adapters :: "adapter list option"

text \<open>\<open>inet_ntop\<close> writes the dotted text when it fits.\<close>

definition inet_ntop :: "string \<Rightarrow> nat \<Rightarrow> cbuf \<Rightarrow> cbuf" where
  "inet_ntop txt len buf = (if length txt < len then snprintf txt len buf else buf)"

definition get_lan_ip :: "platform \<Rightarrow> lan_env \<Rightarrow> nat \<Rightarrow> cbuf \<Rightarrow> cbuf" where
  "get_lan_ip p env len buf =
     (let fallback = strncpy ''127.0.0.1'' (len - 1) buf in
      if p = Windows then
        (if \<not> size_query_ok env then fallback
         else if \<not> adapters_malloc env then fallback
         else
           (case adapters env of
              None \<Rightarrow> fallback
            | Some as \<Rightarrow>
                (case filter (\<lambda>a. \<not> if_loopback a \<and> first_unicast a \<noteq> None) as of
                   a # _ \<Rightarrow> inet_ntop (the (first_unicast a)) len buf
                 | [] \<Rightarrow> fallback)))
      else
        (case getifaddrs env of
           None \<Rightarrow> fallback
         | Some ifs \<Rightarrow>
             (case filter (\<lambda>a. ifa_inet a \<and> \<not> ifa_loopback a) ifs of
                a # _ \<Rightarrow> inet_ntop (ifa_text a) len buf
              | [] \<Rightarrow> fallback)))"

definition fire_event :: "nearcade_event option \<Rightarrow> sdk \<Rightarrow> sdk" where
  "fire_event ev s =
     (case ev of
        None \<Rightarrow> s
      | Some e \<Rightarrow>
          if event_cb (g_state s) \<noteq> 0
          then s\<lparr>delivered := delivered s @ [(event_cb (g_state s), event_cb_userdata (g_state s), e)]\<rparr>
          else s)"


section \<open>Callbacks between the components\<close>

definition webrtc_send_via_signaling ::
    "build \<Rightarrow> lws_env \<Rightarrow> string \<Rightarrow> string \<Rightarrow> sdk \<Rightarrow> sdk" where
  "webrtc_send_via_signaling b env viewer_id data s =
     (if has_signaling b
      then s\<lparr>sig := snd (signaling_send_to_viewer env (Some viewer_id) (Some data) (sig s))\<rparr>
      else s)"

definition on_signaling_msg :: "rtc_env \<Rightarrow> string \<Rightarrow> string \<Rightarrow> sdk \<Rightarrow> sdk" where
  "on_signaling_msg env vid data s =
     s\<lparr>wrtc := snd (webrtc_handle_signaling env (Some vid) (Some data) (wrtc s))\<rparr>"

definition on_signaling_viewer :: "int \<Rightarrow> bool \<Rightarrow> sdk \<Rightarrow> sdk" where
  "on_signaling_viewer idx joined s =
     (if joined then s\<lparr>wrtc := snd (webrtc_viewer_joined idx (wrtc s))\<rparr>
      else s\<lparr>wrtc := webrtc_viewer_left idx (wrtc s)\<rparr>)"

definition webrtc_received_input :: "build \<Rightarrow> nearcade_gamepad_packet \<Rightarrow> sdk \<Rightarrow> sdk" where
  "webrtc_received_input b pkt s =
     (let s = s\<lparr>inputs := snd (input_submit_gamepad (plat b) (Some pkt) (inputs s))\<rparr>
      in fire_event (Some (NEARCADE_EVENT_INPUT_PACKET pkt (zeroed NEARCADE_VIEWER_ID_LEN))) s)"

definition webrtc_viewer_state :: "int \<Rightarrow> bool \<Rightarrow> sdk \<Rightarrow> sdk" where
  "webrtc_viewer_state viewer_idx is_connected s =
     fire_event (Some
       (if is_connected
        then NEARCADE_EVENT_VIEWER_JOINED
          (snprintf (viewer_id_of viewer_idx) NEARCADE_VIEWER_ID_LEN (zeroed NEARCADE_VIEWER_ID_LEN))
          (snprintf (''WebRTC Viewer '' @ fmt_d viewer_idx) 48 (zeroed 48))
        else NEARCADE_EVENT_VIEWER_LEFT
          (snprintf (viewer_id_of viewer_idx) NEARCADE_VIEWER_ID_LEN (zeroed NEARCADE_VIEWER_ID_LEN)))) s"


section \<open>Starting and stopping\<close>

record init_env =
  wsa_rc :: int
  env_log_level :: "string option"
  mutex_rc1 :: int
  mutex_rc2 :: int
  lan :: lan_env
  rand_val :: nat
  uinput :: uinput_env
  cap_env :: capture_env
  sig_answers :: sig_env

definition init_config :: "nearcade_config option \<Rightarrow> nearcade_config" where
  "init_config cfg =
     (let c = (case cfg of Some c \<Rightarrow> c | None \<Rightarrow> NEARCADE_DEFAULT_CONFIG);
          c = (if port c \<le> 0 then c\<lparr>port := 3000\<rparr> else c);
          c = (if screen_width c \<le> 0 then c\<lparr>screen_width := 1920\<rparr> else c)
      in if screen_height c \<le> 0 then c\<lparr>screen_height := 1080\<rparr> else c)"

definition destroy_slots_lock :: "sdk \<Rightarrow> sdk" where
  "destroy_slots_lock = upd_state (\<lambda>g. g\<lparr>slots := (slots g)\<lparr>slots_lock :=
     nearcade_mutex_destroy (slots_lock (slots g))\<rparr>\<rparr>)"

definition destroy_viewer_lock :: "sdk \<Rightarrow> sdk" where
  "destroy_viewer_lock = upd_state (\<lambda>g. g\<lparr>viewer_lock := nearcade_mutex_destroy (viewer_lock g)\<rparr>)"

definition shutdown_webrtc :: "sdk \<Rightarrow> sdk" where
  "shutdown_webrtc s = s\<lparr>wrtc := webrtc_shutdown (wrtc s)\<rparr>"

definition shutdown_capture :: "build \<Rightarrow> capture_env \<Rightarrow> sdk \<Rightarrow> sdk" where
  "shutdown_capture b env s = s\<lparr>g_ff := capture_shutdown (plat b) env (g_ff s)\<rparr>"

definition shutdown_input :: "build \<Rightarrow> sdk \<Rightarrow> sdk" where
  "shutdown_input b s = s\<lparr>inputs := input_shutdown (plat b) (inputs s)\<rparr>"

text \<open>The body of \<open>nearcade_init\<close> from the point where the two mutexes exist, one failure
  exit after the other.\<close>

definition init_components :: "build \<Rightarrow> evdev_abi \<Rightarrow> init_env \<Rightarrow> sdk \<Rightarrow> nearcade_error \<times> sdk" where
  "init_components b abi env s =
     (let s = upd_state (\<lambda>g. g\<lparr>lan_ip := get_lan_ip (plat b) (lan env) 64 (lan_ip g)\<rparr>) s;
          s = (upd_state (\<lambda>g. g\<lparr>pin := generate_pin (rand_val env) 8 (pin g)\<rparr>) s)\<lparr>seeded := True\<rparr>;
          (rc, ist) = input_init (plat b) abi (uinput env) (inputs s);
          s = s\<lparr>inputs := ist\<rparr>
      in if rc \<noteq> NEARCADE_OK
      then (NEARCADE_ERR_INIT, destroy_viewer_lock (destroy_slots_lock s))
      else
        let (rc, ff) = capture_init (plat b) (g_ff s); s = s\<lparr>g_ff := ff\<rparr> in
        if rc \<noteq> NEARCADE_OK
        then (NEARCADE_ERR_INIT, destroy_viewer_lock (destroy_slots_lock (shutdown_input b s)))
        else
          let (rc, w) = webrtc_init (wrtc s); s = s\<lparr>wrtc := w\<rparr> in
          if rc \<noteq> NEARCADE_OK
          then (NEARCADE_ERR_INIT, destroy_viewer_lock (destroy_slots_lock
                 (shutdown_input b (shutdown_capture b (cap_env env) s))))
          else
            let s = s\<lparr>wrtc := webrtc_set_viewer_callback True (webrtc_set_input_callback True
                        (webrtc_set_send_callback True (wrtc s)))\<rparr>
            in if has_signaling b then
              let (rc, sg) = signaling_init (sig_answers env) (config (g_state s))
                               (signaling_set_internal_callbacks True True (sig s));
                  s = s\<lparr>sig := sg\<rparr>
              in if rc \<noteq> NEARCADE_OK
              then (NEARCADE_ERR_INIT, destroy_viewer_lock (destroy_slots_lock
                     (shutdown_input b (shutdown_capture b (cap_env env) (shutdown_webrtc s)))))
              else (NEARCADE_OK, upd_state (\<lambda>g. g\<lparr>running := True\<rparr>) s)
            else (NEARCADE_OK, upd_state (\<lambda>g. g\<lparr>running := True\<rparr>) s))"

definition nearcade_init ::
    "build \<Rightarrow> evdev_abi \<Rightarrow> init_env \<Rightarrow> nearcade_config option \<Rightarrow> sdk \<Rightarrow> nearcade_error \<times> sdk" where
  "nearcade_init b abi env cfg s =
     (if plat b = Windows \<and> wsa_rc env \<noteq> 0 then (NEARCADE_ERR_NETWORK, s)
      else
        let s = (if plat b = Windows then s\<lparr>wsa := wsa s + 1\<rparr> else s);
            s = s\<lparr>g_state := zero_state, g_loglevel := log_level_from_env (env_log_level env)\<rparr>;
            s = upd_state (\<lambda>g. g\<lparr>config := init_config cfg\<rparr>) s;
            (rc, m) = nearcade_mutex_init (mutex_rc1 env) (viewer_lock (g_state s));
            s = upd_state (\<lambda>g. g\<lparr>viewer_lock := m\<rparr>) s
        in if rc \<noteq> 0 then (NEARCADE_ERR_INIT, s)
        else
          let (rc, m) = nearcade_mutex_init (mutex_rc2 env) (slots_lock (slots (g_state s)));
              s = upd_state (\<lambda>g. g\<lparr>slots := (slots g)\<lparr>slots_lock := m\<rparr>\<rparr>) s
          in if rc \<noteq> 0 then (NEARCADE_ERR_INIT, destroy_viewer_lock s)
          else init_components b abi env s)"

definition nearcade_shutdown :: "build \<Rightarrow> capture_env \<Rightarrow> sdk \<Rightarrow> sdk" where
  "nearcade_shutdown b env s =
     (if \<not> running (g_state s) then s
      else
        let s = upd_state (\<lambda>g. g\<lparr>running := False, capturing := False, streaming := False\<rparr>) s;
            s = shutdown_input b (shutdown_capture b env (shutdown_webrtc s));
            s = (if has_signaling b then s\<lparr>sig := signaling_shutdown (sig s)\<rparr> else s);
            s = destroy_slots_lock (destroy_viewer_lock s)
        in if plat b = Windows then s\<lparr>wsa := wsa s - 1\<rparr> else s)"


section \<open>Streaming and capture\<close>

definition nearcade_start_streaming :: "sdk \<Rightarrow> nearcade_error \<times> sdk" where
  "nearcade_start_streaming s =
     (NEARCADE_OK, fire_event (Some (NEARCADE_EVENT_STREAMING 0)) (upd_state (\<lambda>g. g\<lparr>streaming := True\<rparr>) s))"

definition nearcade_stop_streaming :: "sdk \<Rightarrow> nearcade_error \<times> sdk" where
  "nearcade_stop_streaming s = (NEARCADE_OK, upd_state (\<lambda>g. g\<lparr>streaming := False\<rparr>) s)"

definition nearcade_send_h264 :: "8 word list option \<Rightarrow> sdk \<Rightarrow> nearcade_error \<times> sdk" where
  "nearcade_send_h264 data s =
     (let (rc, w) = webrtc_send_h264 data (wrtc s) in (rc, s\<lparr>wrtc := w\<rparr>))"

definition nearcade_send_frame ::
    "8 word list option \<Rightarrow> int \<Rightarrow> int \<Rightarrow> nearcade_pixel_format \<Rightarrow> sdk \<Rightarrow> nearcade_error \<times> sdk" where
  "nearcade_send_frame data width height fmt s = (NEARCADE_ERR_INIT, s)"

definition nearcade_start_capture :: "build \<Rightarrow> capture_env \<Rightarrow> sdk \<Rightarrow> nearcade_error \<times> sdk" where
  "nearcade_start_capture b env s =
     (if capturing (g_state s) then (NEARCADE_OK, s)
      else
        let (ret, ff) = capture_start (plat b) (config (g_state s)) env (g_ff s); s = s\<lparr>g_ff := ff\<rparr>
        in (ret, if ret = NEARCADE_OK then upd_state (\<lambda>g. g\<lparr>capturing := True\<rparr>) s else s))"

definition nearcade_stop_capture :: "build \<Rightarrow> capture_env \<Rightarrow> sdk \<Rightarrow> nearcade_error \<times> sdk" where
  "nearcade_stop_capture b env s =
     (if \<not> capturing (g_state s) then (NEARCADE_OK, s)
      else
        let s = s\<lparr>g_ff := snd (capture_stop (plat b) env (g_ff s))\<rparr>
        in (NEARCADE_OK, upd_state (\<lambda>g. g\<lparr>capturing := False\<rparr>) s))"

definition nearcade_poll_events :: "int \<Rightarrow> sdk \<Rightarrow> nearcade_error \<times> sdk" where
  "nearcade_poll_events timeout_ms s = (NEARCADE_OK, s)"

definition nearcade_set_event_callback :: "nat \<Rightarrow> nat \<Rightarrow> sdk \<Rightarrow> nearcade_error \<times> sdk" where
  "nearcade_set_event_callback cb userdata s =
     (NEARCADE_OK, upd_state (\<lambda>g. g\<lparr>event_cb := cb, event_cb_userdata := userdata\<rparr>) s)"


section \<open>Queries\<close>

text \<open>A buffer argument is \<open>None\<close> for \<open>NULL\<close>.\<close>

definition nearcade_get_signaling_url ::
    "build \<Rightarrow> cbuf option \<Rightarrow> nat \<Rightarrow> sdk \<Rightarrow> nearcade_error \<times> cbuf option" where
  "nearcade_get_signaling_url b buf buf_size s =
     (case buf of
        None \<Rightarrow> (NEARCADE_ERR_INVALID_ARG, None)
      | Some d \<Rightarrow>
          if buf_size = 0 then (NEARCADE_ERR_INVALID_ARG, Some d)
          else if has_signaling b
          then (NEARCADE_OK, Some (signaling_get_url (lan_ip (g_state s)) buf_size d (sig s)))
          else (NEARCADE_OK, Some (snprintf (''ws://'' @ cstr (lan_ip (g_state s)) @ '':''
                 @ fmt_d (port (config (g_state s)))) buf_size d)))"

definition nearcade_get_lan_ip :: "cbuf option \<Rightarrow> nat \<Rightarrow> sdk \<Rightarrow> nearcade_error \<times> cbuf option" where
  "nearcade_get_lan_ip buf buf_size s =
     (case buf of
        None \<Rightarrow> (NEARCADE_ERR_INVALID_ARG, None)
      | Some d \<Rightarrow>
          if buf_size = 0 then (NEARCADE_ERR_INVALID_ARG, Some d)
          else (NEARCADE_OK, Some (strncpy (cstr (lan_ip (g_state s))) (buf_size - 1) d)))"

definition nearcade_get_pin :: "cbuf option \<Rightarrow> nat \<Rightarrow> sdk \<Rightarrow> nearcade_error \<times> cbuf option" where
  "nearcade_get_pin buf buf_size s =
     (case buf of
        None \<Rightarrow> (NEARCADE_ERR_INVALID_ARG, None)
      | Some d \<Rightarrow>
          if buf_size = 0 then (NEARCADE_ERR_INVALID_ARG, Some d)
          else (NEARCADE_OK, Some (strncpy (cstr (pin (g_state s))) (buf_size - 1) d)))"

definition nearcade_regenerate_pin :: "nat \<Rightarrow> sdk \<Rightarrow> nearcade_error \<times> sdk" where
  "nearcade_regenerate_pin r s =
     (NEARCADE_OK, (upd_state (\<lambda>g. g\<lparr>pin := generate_pin r 8 (pin g)\<rparr>) s)\<lparr>seeded := True\<rparr>)"


section \<open>Input and viewers\<close>

definition nearcade_submit_gamepad ::
    "build \<Rightarrow> nearcade_gamepad_packet option \<Rightarrow> sdk \<Rightarrow> nearcade_error \<times> sdk" where
  "nearcade_submit_gamepad b packet s =
     (case packet of
        None \<Rightarrow> (NEARCADE_ERR_INVALID_ARG, s)
      | Some p \<Rightarrow>
          let (rc, ist) = input_submit_gamepad (plat b) (Some p) (inputs s) in (rc, s\<lparr>inputs := ist\<rparr>))"

definition nearcade_submit_kbm ::
    "build \<Rightarrow> evdev_abi \<Rightarrow> string option \<Rightarrow> string option \<Rightarrow> string option \<Rightarrow> int \<Rightarrow> int
     \<Rightarrow> sdk \<Rightarrow> nearcade_error \<times> sdk" where
  "nearcade_submit_kbm b abi viewer_id etype key dx dy s =
     (case (viewer_id, etype) of
        (Some v, Some t) \<Rightarrow>
          let (rc, ist) = input_submit_kbm (plat b) abi v t key dx dy (inputs s) in (rc, s\<lparr>inputs := ist\<rparr>)
      | _ \<Rightarrow> (NEARCADE_ERR_INVALID_ARG, s))"

definition nearcade_flush_slot :: "build \<Rightarrow> 8 word \<Rightarrow> sdk \<Rightarrow> nearcade_error \<times> sdk" where
  "nearcade_flush_slot b slot s =
     (let (rc, ist) = input_flush_slot (plat b) slot (inputs s) in (rc, s\<lparr>inputs := ist\<rparr>))"

definition lock_viewers :: "sdk \<Rightarrow> sdk" where
  "lock_viewers = upd_state (\<lambda>g. g\<lparr>viewer_lock := nearcade_mutex_lock (viewer_lock g)\<rparr>)"

definition unlock_viewers :: "sdk \<Rightarrow> sdk" where
  "unlock_viewers = upd_state (\<lambda>g. g\<lparr>viewer_lock := nearcade_mutex_unlock (viewer_lock g)\<rparr>)"

text \<open>The condition the three loops over \<open>g_state.viewers\<close> stop at.\<close>

definition is_viewer :: "string \<Rightarrow> viewer_info \<Rightarrow> bool" where
  "is_viewer vid v \<longleftrightarrow> v_active v \<and> cstr (v_id v) = vid"

definition nearcade_disconnect_viewer :: "build \<Rightarrow> string option \<Rightarrow> sdk \<Rightarrow> nearcade_error \<times> sdk" where
  "nearcade_disconnect_viewer b viewer_id s =
     (case viewer_id of
        None \<Rightarrow> (NEARCADE_ERR_INVALID_ARG, s)
      | Some vid \<Rightarrow>
          let s = lock_viewers s;
              s = (case first_index (is_viewer vid) (viewers (g_state s)) of
                     None \<Rightarrow> s
                   | Some i \<Rightarrow>
                       let slot = v_slot (viewers (g_state s) ! i);
                           s = s\<lparr>inputs := snd (input_free_slot (plat b) (word_of_int slot) (inputs s))\<rparr>;
                           s = upd_state (\<lambda>g. g\<lparr>slots := slot_release slot (slots g)\<rparr>) s
                       in upd_state (\<lambda>g. g\<lparr>viewers := (viewers g)[i := (viewers g ! i)\<lparr>v_active := False\<rparr>],
                            num_viewers := num_viewers g - 1\<rparr>) s)
          in (NEARCADE_OK, unlock_viewers s))"

definition nearcade_set_viewer_input_mode ::
    "string option \<Rightarrow> nearcade_input_mode \<Rightarrow> sdk \<Rightarrow> nearcade_error \<times> sdk" where
  "nearcade_set_viewer_input_mode viewer_id mode s =
     (case viewer_id of
        None \<Rightarrow> (NEARCADE_ERR_INVALID_ARG, s)
      | Some vid \<Rightarrow>
          let s = lock_viewers s in
          (case first_index (is_viewer vid) (viewers (g_state s)) of
             Some i \<Rightarrow> (NEARCADE_OK, unlock_viewers (upd_state
                 (\<lambda>g. g\<lparr>viewers := (viewers g)[i := (viewers g ! i)\<lparr>v_mode := mode\<rparr>]\<rparr>) s))
           | None \<Rightarrow> (NEARCADE_ERR_INVALID_ARG, unlock_viewers s)))"

definition nearcade_set_controller_type ::
    "string option \<Rightarrow> nearcade_ctrl_type \<Rightarrow> sdk \<Rightarrow> nearcade_error \<times> sdk" where
  "nearcade_set_controller_type viewer_id ctrl s =
     (case viewer_id of
        None \<Rightarrow> (NEARCADE_ERR_INVALID_ARG, s)
      | Some vid \<Rightarrow>
          let s = lock_viewers s in
          (case first_index (is_viewer vid) (viewers (g_state s)) of
             Some i \<Rightarrow> (NEARCADE_OK, unlock_viewers (upd_state
                 (\<lambda>g. g\<lparr>viewers := (viewers g)[i := (viewers g ! i)\<lparr>v_ctrl_type := ctrl\<rparr>]\<rparr>) s))
           | None \<Rightarrow> (NEARCADE_ERR_INVALID_ARG, unlock_viewers s)))"

text \<open>The deprecated calls return the \<open>int\<close> of the signaling server.\<close>

definition nearcade_send_offer :: "string option \<Rightarrow> string option \<Rightarrow> sdk \<Rightarrow> int \<times> sdk" where
  "nearcade_send_offer viewer_id sdp s = (error_code NEARCADE_OK, s)"

definition nearcade_send_answer ::
    "build \<Rightarrow> lws_env \<Rightarrow> string option \<Rightarrow> string option \<Rightarrow> sdk \<Rightarrow> int \<times> sdk" where
  "nearcade_send_answer b env viewer_id sdp s =
     (if has_signaling b
      then let (r, sg) = signaling_send_answer env viewer_id sdp (sig s) in (r, s\<lparr>sig := sg\<rparr>)
      else (error_code NEARCADE_OK, s))"

definition nearcade_send_ice_candidate ::
    "build \<Rightarrow> lws_env \<Rightarrow> string option \<Rightarrow> string option \<Rightarrow> sdk \<Rightarrow> int \<times> sdk" where
  "nearcade_send_ice_candidate b env viewer_id candidate s =
     (if has_signaling b
      then let (r, sg) = signaling_send_ice env viewer_id candidate (sig s) in (r, s\<lparr>sig := sg\<rparr>)
      else (error_code NEARCADE_OK, s))"


section \<open>Favourable answers\<close>

text \<open>Favourable answers to everything \<open>nearcade_init\<close> asks, used to show that hypotheses
  can hold.\<close>

definition plain_env :: init_env where
  "plain_env =
     \<lparr>wsa_rc = 0, env_log_level = None, mutex_rc1 = 0, mutex_rc2 = 0,
      lan = \<lparr>getifaddrs = None, size_query_ok = False, adapters_malloc = False, adapters = None\<rparr>,
      rand_val = 0, uinput = env_ok 5,
      cap_env = \<lparr>fork_ret = 77, popen_line = None, wait1 = 77, wait2 = 77, wait3 = 77\<rparr>,
      sig_answers = \<lparr>created_ctx = Some 1, thread_rc = 0\<rparr>\<rparr>"


section \<open>Facts\<close>

text \<open>The log macro of \<open>src/webrtc.cpp\<close> prints at the levels at which that of
  \<open>src/nearcade_internal.h\<close> does.\<close>

lemma rtc_log_agrees:
  "rtc_log_enabled lvl LOG_L_ERROR = log_enabled lvl NEARCADE_LOG_ERROR"
  "rtc_log_enabled lvl LOG_L_WARN = log_enabled lvl NEARCADE_LOG_WARN"
  "rtc_log_enabled lvl LOG_L_INFO = log_enabled lvl NEARCADE_LOG_INFO"
  "rtc_log_enabled lvl LOG_L_DEBUG = log_enabled lvl NEARCADE_LOG_DEBUG"
  "rtc_log_enabled lvl LOG_L_TRACE = log_enabled lvl NEARCADE_LOG_TRACE"
  by (simp_all add: rtc_log_enabled_def log_enabled_def)

lemma upd_state_fields [simp]:
  "g_state (upd_state f s) = f (g_state s)" "g_loglevel (upd_state f s) = g_loglevel s"
  "seeded (upd_state f s) = seeded s" "inputs (upd_state f s) = inputs s" "g_ff (upd_state f s) = g_ff s"
  "sig (upd_state f s) = sig s" "wrtc (upd_state f s) = wrtc s"
  "delivered (upd_state f s) = delivered s" "wsa (upd_state f s) = wsa s"
  by (simp_all add: upd_state_def)

lemma fire_event_fields [simp]:
  "g_state (fire_event e s) = g_state s" "g_loglevel (fire_event e s) = g_loglevel s"
  "inputs (fire_event e s) = inputs s" "g_ff (fire_event e s) = g_ff s"
  "sig (fire_event e s) = sig s" "wrtc (fire_event e s) = wrtc s" "wsa (fire_event e s) = wsa s"
  by (simp_all add: fire_event_def split: option.split)

lemma component_fields [simp]:
  "g_state (destroy_slots_lock s) =
     (g_state s)\<lparr>slots := (slots (g_state s))\<lparr>slots_lock := nearcade_mutex_destroy (slots_lock (slots (g_state s)))\<rparr>\<rparr>"
  "g_state (destroy_viewer_lock s) = (g_state s)\<lparr>viewer_lock := nearcade_mutex_destroy (viewer_lock (g_state s))\<rparr>"
  "g_state (shutdown_webrtc s) = g_state s" "g_state (shutdown_capture b c s) = g_state s"
  "g_state (shutdown_input b s) = g_state s"
  "inputs (destroy_slots_lock s) = inputs s" "inputs (destroy_viewer_lock s) = inputs s"
  "inputs (shutdown_webrtc s) = inputs s" "inputs (shutdown_capture b c s) = inputs s"
  "inputs (shutdown_input b s) = input_shutdown (plat b) (inputs s)"
  "g_ff (destroy_slots_lock s) = g_ff s" "g_ff (destroy_viewer_lock s) = g_ff s"
  "g_ff (shutdown_webrtc s) = g_ff s" "g_ff (shutdown_input b s) = g_ff s"
  "g_ff (shutdown_capture b c s) = capture_shutdown (plat b) c (g_ff s)"
  "wrtc (destroy_slots_lock s) = wrtc s" "wrtc (destroy_viewer_lock s) = wrtc s"
  "wrtc (shutdown_capture b c s) = wrtc s" "wrtc (shutdown_input b s) = wrtc s"
  "wrtc (shutdown_webrtc s) = webrtc_shutdown (wrtc s)"
  "sig (destroy_slots_lock s) = sig s" "sig (destroy_viewer_lock s) = sig s"
  "sig (shutdown_webrtc s) = sig s" "sig (shutdown_capture b c s) = sig s" "sig (shutdown_input b s) = sig s"
  "wsa (destroy_slots_lock s) = wsa s" "wsa (destroy_viewer_lock s) = wsa s"
  "wsa (shutdown_webrtc s) = wsa s" "wsa (shutdown_capture b c s) = wsa s" "wsa (shutdown_input b s) = wsa s"
  "delivered (destroy_slots_lock s) = delivered s" "delivered (destroy_viewer_lock s) = delivered s"
  "delivered (shutdown_webrtc s) = delivered s" "delivered (shutdown_capture b c s) = delivered s"
  "delivered (shutdown_input b s) = delivered s"
  by (simp_all add: destroy_slots_lock_def destroy_viewer_lock_def shutdown_webrtc_def
      shutdown_capture_def shutdown_input_def)

lemma first_index_filter:
  "filter P xs = a # as \<Longrightarrow> \<exists>i. first_index P xs = Some i \<and> xs ! i = a"
proof (induction xs)
  case (Cons x xs)
  then show ?case by (cases "P x") auto
qed simp

lemma init_components_frame:
  "event_cb (g_state (snd (init_components b abi env s))) = event_cb (g_state s)"
  "wsa (snd (init_components b abi env s)) = wsa s"
  by (simp_all add: init_components_def Let_def split_beta)

lemma init_components_running:
  "\<not> running (g_state s) \<Longrightarrow>
   running (g_state (snd (init_components b abi env s))) \<longleftrightarrow> fst (init_components b abi env s) = NEARCADE_OK"
  by (simp add: init_components_def Let_def split_beta)

lemma init_running:
  "plat b \<noteq> Windows \<or> wsa_rc env = 0 \<Longrightarrow>
   running (g_state (snd (nearcade_init b abi env cfg s))) \<longleftrightarrow> fst (nearcade_init b abi env cfg s) = NEARCADE_OK"
  by (auto simp: nearcade_init_def Let_def zero_state_def init_components_running)

lemma length_fmt_nat_step: "10 \<le> n \<Longrightarrow> length (fmt_nat n) = Suc (length (fmt_nat (n div 10)))"
  by (simp add: fmt_nat.simps[of n])

lemma pin_text:
  fixes r :: nat
  defines "n \<equiv> 1000 + r mod 9000"
  shows "fmt_0d 4 (1000 + int r mod 9000) = fmt_nat n" and "length (fmt_nat n) = 4"
    and "1000 \<le> n" and "n < 10000"
proof -
  show n: "1000 \<le> n" "n < 10000" by (simp_all add: n_def)
  have "length (fmt_nat n) \<le> 4" using n fmt_nat_bound[of n 4] by simp
  moreover have "length (fmt_nat n) = length (fmt_nat (n div 1000)) + 3"
  proof -
    have "10 \<le> n div 10" "10 \<le> n div 10 div 10" using n by linarith+
    then show ?thesis using n length_fmt_nat_step[of n] length_fmt_nat_step[of "n div 10"]
        length_fmt_nat_step[of "n div 10 div 10"]
      by (simp add: div_mult2_eq[symmetric])
  qed
  moreover have "0 < length (fmt_nat (n div 1000))" by simp
  ultimately show len: "length (fmt_nat n) = 4" by linarith
  have "nat \<bar>1000 + int r mod 9000\<bar> = n"
    by (simp add: n_def nat_add_distrib nat_mod_distrib)
  then show "fmt_0d 4 (1000 + int r mod 9000) = fmt_nat n"
    using len by (simp add: fmt_0d_def Let_def)
qed

lemma generate_pin_text:
  "cstr (generate_pin r 8 b) = fmt_nat (1000 + r mod 9000)"
  using pin_text[of r] by (simp add: generate_pin_def cstr_snprintf)

text \<open>
  A PIN is always four decimal digits, from 1000 to 9999, whatever \<open>rand\<close> returns, and it
  fits its eight-byte field with its terminator.
\<close>

lemma pin_four_digits:
  assumes "length (pin (g_state s)) = 8"
  shows "let p = pin (g_state (snd (nearcade_regenerate_pin r s))) in
    \<exists>n. 1000 \<le> n \<and> n < 10000 \<and> cstr p = fmt_nat n \<and> length (cstr p) = 4
      \<and> (\<forall>c\<in>set (cstr p). is_digit c) \<and> terminated p \<and> length p = 8"
  using assms pin_text[of r] generate_pin_text[of r "pin (g_state s)"] fmt_nat_digits
  by (auto simp: nearcade_regenerate_pin_def Let_def generate_pin_def snprintf_terminated length_snprintf
      intro!: exI[of _ "1000 + r mod 9000"])

text \<open>
  \<open>nearcade_get_pin\<close> needs a buffer of six bytes. It copies \<open>buf_size - 1\<close> bytes and adds
  no terminator: into a caller's buffer with no zero byte in it, the copy of a four-digit PIN is
  terminated exactly when the buffer has at least six bytes, and then it is the PIN. A
  buffer of five bytes, large enough for the PIN and its terminator, is left unterminated.
\<close>

lemma get_pin_needs_six_bytes:
  assumes "length (cstr (pin (g_state s))) = 4" and "c_string d" and "length d = n" and "0 < n"
  shows "\<exists>out. nearcade_get_pin (Some d) n s = (NEARCADE_OK, Some out)
    \<and> (terminated out \<longleftrightarrow> 6 \<le> n) \<and> (6 \<le> n \<longrightarrow> cstr out = cstr (pin (g_state s)))"
proof -
  let ?p = "cstr (pin (g_state s))"
  let ?out = "strncpy ?p (n - 1) d"
  have last: "drop (n - 1) d = [d ! (n - 1)]"
    using assms(3,4) Cons_nth_drop_Suc[of "n - 1" d] by simp
  then have "c_string (drop (n - 1) d)" using assms(2) by (meson c_string_def in_set_dropD)
  then have no: "\<not> terminated ?out" if "\<not> 6 \<le> n"
    using that assms(1) by (intro strncpy_unterminated) simp_all
  have yes: "?out = ?p @ NUL # (replicate (n - 6) NUL @ [d ! (n - 1)])" if "6 \<le> n"
  proof -
    have "n - 1 - 4 = Suc (n - 6)" using that by simp
    then have "replicate (n - 1 - 4) NUL = NUL # replicate (n - 6) NUL" by simp
    moreover have "take (n - 1) (?p @ replicate (n - 1) NUL) = ?p @ replicate (n - 1 - 4) NUL"
      using that assms(1) by (simp add: take_replicate min_def)
    ultimately show ?thesis using last by (simp add: strncpy_def)
  qed
  have "terminated ?out \<and> cstr ?out = ?p" if "6 \<le> n"
    unfolding yes[OF that] by (simp add: cstr_append_NUL terminated_def)
  with no show ?thesis using assms(4) by (auto simp: nearcade_get_pin_def)
qed

text \<open>
  The log level is always one of the six levels; the decimal number of a level selects it,
  and so does its name; with the variable unset the level is \<open>NEARCADE_LOG_NONE\<close>, so that
  nothing is printed at all.
\<close>

lemma log_level_total:
  "0 \<le> log_level_from_env e \<and> log_level_from_env e \<le> 5
   \<and> log_level_from_env (Some (fmt_d (loglevel_num l))) = loglevel_num l
   \<and> log_level_from_env (Some ''info'') = loglevel_num NEARCADE_LOG_INFO
   \<and> \<not> log_enabled (log_level_from_env None) NEARCADE_LOG_ERROR"
proof -
  have "0 \<le> log_level_from_env e \<and> log_level_from_env e \<le> 5"
    by (auto simp: log_level_from_env_def Let_def split: option.split)
  moreover have "log_level_from_env (Some (fmt_d (loglevel_num l))) = loglevel_num l"
    by (cases l) (simp_all add: log_level_from_env_def fmt_eval strtol10_def long_sat_def
        is_digit_def digit_val_def isspace_def Let_def)
  ultimately show ?thesis by (simp add: log_level_from_env_def log_enabled_def)
qed

text \<open>
  On POSIX systems the LAN address is the text of the first IPv4 interface that is not
  loopback, and \<open>127.0.0.1\<close> when there is none or the interfaces cannot be listed. The field is
  always terminated.
\<close>

lemma lan_ip_first_interface:
  assumes "p \<noteq> Windows" and "buf_ok 64 b"
    and "\<forall>ifs a. getifaddrs env = Some ifs \<longrightarrow> a \<in> set ifs \<longrightarrow> c_string (ifa_text a) \<and> length (ifa_text a) \<le> 15"
  shows "terminated (get_lan_ip p env 64 b)
    \<and> cstr (get_lan_ip p env 64 b) =
      (case Option.bind (getifaddrs env) (\<lambda>ifs. first_index (\<lambda>a. ifa_inet a \<and> \<not> ifa_loopback a) ifs) of
         Some i \<Rightarrow> ifa_text (the (getifaddrs env) ! i)
       | None \<Rightarrow> ''127.0.0.1'')"
proof -
  have fb: "terminated (strncpy ''127.0.0.1'' 63 b)" "cstr (strncpy ''127.0.0.1'' 63 b) = ''127.0.0.1''"
    using buf_ok_strncpy[OF assms(2), of "''127.0.0.1''"] cstr_strncpy[OF assms(2), of "''127.0.0.1''"]
    by (simp_all add: buf_ok_terminated)
  show ?thesis
  proof (cases "getifaddrs env")
    case None
    with fb assms(1) show ?thesis by (simp add: get_lan_ip_def Let_def)
  next
    case (Some ifs)
    show ?thesis
    proof (cases "filter (\<lambda>a. ifa_inet a \<and> \<not> ifa_loopback a) ifs")
      case Nil
      then have "first_index (\<lambda>a. ifa_inet a \<and> \<not> ifa_loopback a) ifs = None"
        by (auto simp: first_index_None_iff filter_empty_conv)
      with Nil Some fb assms(1) show ?thesis by (simp add: get_lan_ip_def Let_def)
    next
      case (Cons a as)
      then obtain i where i: "first_index (\<lambda>a. ifa_inet a \<and> \<not> ifa_loopback a) ifs = Some i" "ifs ! i = a"
        using first_index_filter[OF Cons] by blast
      have "a \<in> set (filter (\<lambda>a. ifa_inet a \<and> \<not> ifa_loopback a) ifs)" unfolding Cons by simp
      then have "a \<in> set ifs" by simp
      then have "c_string (ifa_text a)" "length (ifa_text a) \<le> 15" using assms(3) Some by blast+
      with i Cons Some assms(1) show ?thesis
        by (simp add: get_lan_ip_def Let_def inet_ntop_def cstr_snprintf snprintf_terminated)
    qed
  qed
qed

text \<open>
  An event callback set before \<open>nearcade_init\<close> is lost: initialisation clears \<open>g_state\<close>,
  so whether it succeeds or fails later, no event reaches the application until the callback is
  set again.
\<close>

lemma init_forgets_event_callback:
  assumes "plat b \<noteq> Windows \<or> wsa_rc env = 0"
  shows "let s1 = snd (nearcade_init b abi env cfg (snd (nearcade_set_event_callback cb ud s))) in
    event_cb (g_state s1) = 0 \<and> (\<forall>e. fire_event e s1 = s1)
    \<and> delivered (snd (nearcade_start_streaming s1)) = delivered s1"
proof -
  let ?s1 = "snd (nearcade_init b abi env cfg (snd (nearcade_set_event_callback cb ud s)))"
  have "event_cb (g_state ?s1) = 0"
    using assms
    by (auto simp: nearcade_init_def Let_def init_components_frame zero_state_def)
  then show ?thesis
    by (simp add: Let_def fire_event_def nearcade_start_streaming_def split: option.split)
qed

text \<open>
  A failed \<open>nearcade_init\<close> on Windows leaves Winsock started: once \<open>WSAStartup\<close> has
  succeeded no failure exit calls \<open>WSACleanup\<close>, and \<open>nearcade_shutdown\<close> does nothing
  afterwards because the SDK is not running. A successful start and a shutdown balance.
\<close>

lemma failed_init_leaks_winsock:
  assumes "plat b = Windows" and "wsa_rc env = 0" and "nearcade_init b abi env cfg s = (r, s1)"
  shows "wsa s1 = wsa s + 1
    \<and> (r \<noteq> NEARCADE_OK \<longrightarrow> wsa (nearcade_shutdown b c s1) = wsa s + 1)
    \<and> (r = NEARCADE_OK \<longrightarrow> wsa (nearcade_shutdown b c s1) = wsa s)"
proof -
  have wsa: "wsa s1 = wsa s + 1"
    using assms by (auto simp: nearcade_init_def Let_def init_components_frame split: if_splits
        dest: arg_cong[where f = "\<lambda>x. wsa (snd x)"])
  moreover have "running (g_state s1) \<longleftrightarrow> r = NEARCADE_OK"
    using assms init_running[of b env abi cfg s] by simp
  ultimately show ?thesis using assms(1) by (auto simp: nearcade_shutdown_def Let_def)
qed

text \<open>
  The published URL is well formed and never overruns: it is \<open>ws://IP:PORT\<close> cut to
  the caller's buffer and always terminated; with the server compiled in the port is the one the
  server listens on.
\<close>

lemma signaling_url_terminated:
  assumes "0 < n" and "n \<le> length d"
  shows "\<exists>out. nearcade_get_signaling_url b (Some d) n s = (NEARCADE_OK, Some out)
    \<and> length out = length d \<and> terminated out
    \<and> cstr out = take (n - 1) (''ws://'' @ cstr (lan_ip (g_state s)) @ '':'' @
        fmt_d (if has_signaling b then g_port (sig s) else port (config (g_state s))))"
  using assms
  by (simp add: nearcade_get_signaling_url_def signaling_get_url_def length_snprintf snprintf_terminated
      cstr_snprintf)

end
