(* ===== verification/Sdk_Runs.thy ===== *)
theory Sdk_Runs
  imports Nearcade_Core
begin

text \<open>
  Whole runs of the SDK. A step is a call of the public API by the application, a callback of
  libwebsockets on the service thread, or a callback of a peer connection on a libdatachannel
  thread; steps interleave freely, one at a time, each of them run to its end (the mutexes of
  the components make the parts that share state exclusive). \<open>step_ok\<close> states when a step can
  happen: the application calls the other functions between a successful \<open>nearcade_init\<close> and
  \<open>nearcade_shutdown\<close>, libwebsockets announces a connection it does not already have, and the
  operating system answers as documented. \<open>sdk_reachable\<close> are the states of all such runs.
\<close>

datatype sdk_step =
    S_init init_env "nearcade_config option"
  | S_shutdown capture_env
  | S_start_streaming
  | S_stop_streaming
  | S_send_h264 "8 word list option"
  | S_start_capture capture_env
  | S_stop_capture capture_env
  | S_set_event_callback nat nat
  | S_regenerate_pin nat
  | S_submit_gamepad "nearcade_gamepad_packet option"
  | S_submit_kbm "string option" "string option" "string option" int int
  | S_flush_slot "8 word"
  | S_disconnect_viewer "string option"
  | S_set_viewer_input_mode "string option" nearcade_input_mode
  | S_set_controller_type "string option" nearcade_ctrl_type
  | S_send_answer lws_env "string option" "string option"
  | S_send_ice_candidate lws_env "string option" "string option"
  | S_lws rtc_env lws lws_reason
  | S_state_change int pc_state
  | S_local_description lws_env int string string
  | S_local_candidate lws_env int string
  | S_input_message rtc_message

text \<open>The handler as \<open>nearcade_init\<close> wires it: the registry is the server's own, the rest of
  the program is reached through the installed callbacks.\<close>

definition service_callback :: "rtc_env \<Rightarrow> lws \<Rightarrow> lws_reason \<Rightarrow> sdk \<Rightarrow> sdk" where
  "service_callback env wsi reason s =
     (let (sg, s') = callback_signaling on_signaling_viewer (on_signaling_msg env)
                       (\<lambda>e. fire_event (Some e)) wsi reason (sig s, s)
      in s'\<lparr>sig := sg\<rparr>)"

fun exec_step :: "build \<Rightarrow> evdev_abi \<Rightarrow> sdk_step \<Rightarrow> sdk \<Rightarrow> sdk" where
  "exec_step b abi (S_init env cfg) s = snd (nearcade_init b abi env cfg s)"
| "exec_step b abi (S_shutdown env) s = nearcade_shutdown b env s"
| "exec_step b abi S_start_streaming s = snd (nearcade_start_streaming s)"
| "exec_step b abi S_stop_streaming s = snd (nearcade_stop_streaming s)"
| "exec_step b abi (S_send_h264 d) s = snd (nearcade_send_h264 d s)"
| "exec_step b abi (S_start_capture env) s = snd (nearcade_start_capture b env s)"
| "exec_step b abi (S_stop_capture env) s = snd (nearcade_stop_capture b env s)"
| "exec_step b abi (S_set_event_callback cb ud) s = snd (nearcade_set_event_callback cb ud s)"
| "exec_step b abi (S_regenerate_pin r) s = snd (nearcade_regenerate_pin r s)"
| "exec_step b abi (S_submit_gamepad p) s = snd (nearcade_submit_gamepad b p s)"
| "exec_step b abi (S_submit_kbm v t k dx dy) s = snd (nearcade_submit_kbm b abi v t k dx dy s)"
| "exec_step b abi (S_flush_slot slot) s = snd (nearcade_flush_slot b slot s)"
| "exec_step b abi (S_disconnect_viewer v) s = snd (nearcade_disconnect_viewer b v s)"
| "exec_step b abi (S_set_viewer_input_mode v m) s = snd (nearcade_set_viewer_input_mode v m s)"
| "exec_step b abi (S_set_controller_type v c) s = snd (nearcade_set_controller_type v c s)"
| "exec_step b abi (S_send_answer env v d) s = snd (nearcade_send_answer b env v d s)"
| "exec_step b abi (S_send_ice_candidate env v d) s = snd (nearcade_send_ice_candidate b env v d s)"
| "exec_step b abi (S_lws env wsi reason) s = service_callback env wsi reason s"
| "exec_step b abi (S_state_change i st) s = on_state_change webrtc_viewer_state i st (wrtc s) s"
| "exec_step b abi (S_local_description env i t d) s =
     on_local_description (webrtc_send_via_signaling b env) i t d (wrtc s) s"
| "exec_step b abi (S_local_candidate env i d) s =
     on_local_candidate (webrtc_send_via_signaling b env) i d (wrtc s) s"
| "exec_step b abi (S_input_message m) s = on_input_message (webrtc_received_input b) m (wrtc s) s"

fun step_ok :: "build \<Rightarrow> sdk_step \<Rightarrow> sdk \<Rightarrow> bool" where
  "step_ok b (S_init env cfg) s = (\<not> running (g_state s) \<and> open_fresh (uinput env) (inputs s))"
| "step_ok b (S_shutdown env) s = (ff_active (g_ff s) \<longrightarrow> wait_answers env (ff_pid (g_ff s)))"
| "step_ok b (S_set_event_callback cb ud) s = True"
| "step_ok b (S_start_capture env) s = (running (g_state s) \<and> fork_parent env)"
| "step_ok b (S_stop_capture env) s = (running (g_state s) \<and> (ff_active (g_ff s) \<longrightarrow> wait_answers env (ff_pid (g_ff s))))"
| "step_ok b (S_lws env wsi reason) s =
     (running (g_state s) \<and> has_signaling b \<and>
      (case reason of LWS_CALLBACK_ESTABLISHED _ \<Rightarrow> wsi \<notin> held (sig s) | _ \<Rightarrow> True))"
| "step_ok b _ s = running (g_state s)"

inductive sdk_reachable :: "build \<Rightarrow> evdev_abi \<Rightarrow> sdk \<Rightarrow> bool" for b abi where
  load: "sdk_reachable b abi sdk_static"
| step: "sdk_reachable b abi s \<Longrightarrow> step_ok b p s \<Longrightarrow> sdk_reachable b abi (exec_step b abi p s)"


section \<open>Specification\<close>

text \<open>What each component is in while the SDK is down, and while it runs.\<close>

definition down :: "sdk \<Rightarrow> bool" where
  "down s \<longleftrightarrow>
     \<not> running (g_state s) \<and> input_quiet (inputs s)
     \<and> capture_inv (g_ff s) \<and> \<not> ff_active (g_ff s)
     \<and> webrtc_inv (wrtc s) \<and> g_sessions (wrtc s) = []
     \<and> sig_idle (sig s) \<and> g_wsi (sig s) = None \<and> live_contexts {} (lws_trace (sig s)) = {}
     \<and> viewer_lock (g_state s) = Uninit \<and> slots_lock (slots (g_state s)) = Uninit"

definition input_up :: "build \<Rightarrow> input_state \<Rightarrow> bool" where
  "input_up b st \<longleftrightarrow> (if plat b = Linux then input_inv st \<and> no_gamepads st else input_quiet st)"

definition capture_up :: "build \<Rightarrow> bool \<Rightarrow> ffmpeg_capture \<Rightarrow> bool" where
  "capture_up b cap ff \<longleftrightarrow> capture_inv ff \<and> cap = ff_active ff \<and> (plat b \<noteq> Linux \<longrightarrow> \<not> ff_active ff)"

definition webrtc_up :: "webrtc \<Rightarrow> bool" where
  "webrtc_up wr \<longleftrightarrow> webrtc_inv wr \<and> g_initialized wr \<and> g_send_cb wr \<and> g_input_cb wr \<and> g_viewer_state_cb wr"

definition signaling_up :: "build \<Rightarrow> signaling \<Rightarrow> bool" where
  "signaling_up b sg \<longleftrightarrow>
     (if has_signaling b
      then sig_inv sg \<and> g_wsi sg \<noteq> None \<and> g_viewer_cb sg \<and> g_msg_cb sg
      else sig_idle sg \<and> g_wsi sg = None)
     \<and> live_contexts {} (lws_trace sg) = set_option (g_wsi sg)"

text \<open>The sessions are those of the registered viewers.\<close>

definition linked :: "sdk \<Rightarrow> bool" where
  "linked s \<longleftrightarrow>
     distinct (session_viewers (wrtc s)) \<and>
     set (session_viewers (wrtc s)) = int ` {i. viewer_at (sig s) i \<noteq> None}"

definition state_up :: "nearcade_state \<Rightarrow> bool" where
  "state_up g \<longleftrightarrow>
     running g \<and> viewer_lock g = Unlocked \<and> slots_inv (slots g)
     \<and> viewers g = replicate MAX_VIEWERS zero_viewer"

definition up :: "build \<Rightarrow> sdk \<Rightarrow> bool" where
  "up b s \<longleftrightarrow>
     state_up (g_state s) \<and> input_up b (inputs s)
     \<and> capture_up b (capturing (g_state s)) (g_ff s) \<and> webrtc_up (wrtc s)
     \<and> signaling_up b (sig s) \<and> linked s"


section \<open>Facts: starting and stopping\<close>

lemma input_init_up:
  assumes "input_quiet st" and "open_fresh env st" and "input_init (plat b) abi env st = (r, st')"
  shows "if r = NEARCADE_OK then input_up b st' else input_quiet st'"
proof (cases "plat b = Linux")
  case True
  then have eq: "r = fst (linux_input_init abi env st)" "st' = snd (linux_input_init abi env st)"
    using assms(3) by (simp_all add: input_init_def)
  have "input_inv st'" "no_gamepads st'"
    unfolding eq using linux_input_init_inv[OF assms(1,2)] linux_input_init_no_gamepads by simp_all
  moreover have "input_quiet st'" if "r \<noteq> NEARCADE_OK"
    using linux_input_init_fail_quiet[OF assms(1,2)] that unfolding eq by simp
  ultimately show ?thesis using True by (simp add: input_up_def)
next
  case False
  then have "r = NEARCADE_OK \<and> st' = st"
    using assms(3) by (cases "plat b") (simp_all add: input_init_def win_input_defs mac_input_defs)
  with False assms(1) show ?thesis by (simp add: input_up_def)
qed

lemma input_up_shutdown: "input_up b st \<Longrightarrow> input_quiet (input_shutdown (plat b) st)"
  by (cases "plat b")
    (simp_all add: input_up_def input_shutdown_def linux_input_shutdown_quiet win_input_defs mac_input_defs)

lemma capture_init_up:
  "capture_inv ff \<Longrightarrow> \<not> ff_active ff \<Longrightarrow>
   fst (capture_init p ff) = NEARCADE_OK \<and> capture_up b False (snd (capture_init p ff))"
  by (simp add: capture_init_def capture_up_def capture_inv_def)

lemma capture_up_shutdown:
  assumes "capture_up b c ff" and "ff_active ff \<longrightarrow> wait_answers env (ff_pid ff)"
  shows "capture_inv (capture_shutdown (plat b) env ff) \<and> \<not> ff_active (capture_shutdown (plat b) env ff)"
proof (cases "ff_active ff")
  case True
  then have "plat b = Linux" "capture_inv ff" using assms(1) by (auto simp: capture_up_def)
  with True assms(2) show ?thesis
    using capture_shutdown_inv[of ff env "plat b"] capture_stop_inactive[of "plat b" ff env]
    by (simp add: capture_shutdown_def)
next
  case False
  with assms(1) show ?thesis by (simp add: capture_shutdown_def capture_stop_def capture_up_def)
qed

lemma webrtc_init_up:
  "webrtc_inv wr \<Longrightarrow> webrtc_up (webrtc_set_viewer_callback True (webrtc_set_input_callback True
     (webrtc_set_send_callback True (snd (webrtc_init wr)))))"
  by (simp add: webrtc_up_def webrtc_inv_def session_pcs_def webrtc_init_def webrtc_set_viewer_callback_def
      webrtc_set_input_callback_def webrtc_set_send_callback_def)

lemma webrtc_init_sessions [simp]:
  "g_sessions (webrtc_set_viewer_callback a wr) = g_sessions wr"
  "g_sessions (webrtc_set_input_callback a wr) = g_sessions wr"
  "g_sessions (webrtc_set_send_callback a wr) = g_sessions wr"
  "g_sessions (snd (webrtc_init wr)) = g_sessions wr" "fst (webrtc_init wr) = NEARCADE_OK"
  by (simp_all add: webrtc_init_def webrtc_set_viewer_callback_def
      webrtc_set_input_callback_def webrtc_set_send_callback_def)

lemma webrtc_shutdown_down:
  "webrtc_inv wr \<Longrightarrow> webrtc_inv (webrtc_shutdown wr) \<and> g_sessions (webrtc_shutdown wr) = []"
  by (simp add: webrtc_inv_shutdown) (simp add: shutdown_eq webrtc_inv_def)

lemma signaling_init_up:
  assumes "sig_idle sg" and "g_wsi sg = None" and "live_contexts {} (lws_trace sg) = {}"
    and "signaling_init env cfg (signaling_set_internal_callbacks True True sg) = (r, sg')"
  shows "sig_idle sg'"
    and "if r = NEARCADE_OK then has_signaling b \<longrightarrow> signaling_up b sg'
      else g_wsi sg' = None \<and> live_contexts {} (lws_trace sg') = {}"
proof -
  show idle: "sig_idle sg'"
    using sig_idle_init[of "signaling_set_internal_callbacks True True sg" env cfg] assms(1,4) by simp
  show "if r = NEARCADE_OK then has_signaling b \<longrightarrow> signaling_up b sg'
      else g_wsi sg' = None \<and> live_contexts {} (lws_trace sg') = {}"
    using assms(3,4) sig_idle_inv[OF idle]
    by (auto simp: signaling_init_def signaling_up_def signaling_set_internal_callbacks_def Let_def
        split: option.splits if_splits)
qed

lemma signaling_up_shutdown:
  assumes "signaling_up b sg" and "has_signaling b"
  shows "sig_idle (signaling_shutdown sg) \<and> g_wsi (signaling_shutdown sg) = None
    \<and> live_contexts {} (lws_trace (signaling_shutdown sg)) = {}"
proof -
  obtain c where c: "g_wsi sg = Some c" using assms by (auto simp: signaling_up_def)
  have "g_ws_lock sg = Unlocked" using assms by (simp add: signaling_up_def sig_inv_def)
  with assms c show ?thesis
    by (simp add: signaling_shutdown_def sig_idle_def Let_def signaling_up_def)
qed

lemma linked_idle:
  assumes "g_sessions (wrtc s) = []" and "sig_idle (sig s)"
  shows "linked s"
  using assms sig_idle_inv[OF assms(2)] by (simp add: linked_def session_viewers_def)

lemma init_components_up:
  assumes "input_quiet (inputs s)" and "open_fresh (uinput env) (inputs s)"
    and "capture_inv (g_ff s)" and "\<not> ff_active (g_ff s)"
    and "webrtc_inv (wrtc s)" and "g_sessions (wrtc s) = []"
    and "sig_idle (sig s)" and "g_wsi (sig s) = None" and "live_contexts {} (lws_trace (sig s)) = {}"
    and "\<not> running (g_state s)" and "state_up ((g_state s)\<lparr>running := True\<rparr>)" and "\<not> capturing (g_state s)"
  shows "if fst (init_components b abi env s) = NEARCADE_OK then up b (snd (init_components b abi env s))
    else down (snd (init_components b abi env s))"
proof -
  obtain r ist where i: "input_init (plat b) abi (uinput env) (inputs s) = (r, ist)" by (meson surj_pair)
  obtain ff where ff: "capture_init (plat b) (g_ff s) = (NEARCADE_OK, ff)" "capture_up b False ff"
    using capture_init_up[OF assms(3,4), of "plat b" b] by (metis prod.collapse)
  obtain r' sg where sg: "signaling_init (sig_answers env) (config (g_state s))
      (signaling_set_internal_callbacks True True (sig s)) = (r', sg)" by (meson surj_pair)
  let ?wr = "webrtc_set_viewer_callback True (webrtc_set_input_callback True
     (webrtc_set_send_callback True ((wrtc s)\<lparr>g_initialized := True\<rparr>)))"
  have wr: "webrtc_up ?wr" "g_sessions ?wr = []"
    using webrtc_init_up[OF assms(5)] assms(6) by (simp_all add: webrtc_init_def)
  note in_up = input_init_up[OF assms(1,2) i]
  have ff_down: "capture_inv (capture_shutdown (plat b) e ff) \<and> \<not> ff_active (capture_shutdown (plat b) e ff)" for e
    using capture_up_shutdown[OF ff(2)] ff(2) by (simp add: capture_up_def)
  have wr_down: "webrtc_inv (webrtc_shutdown ?wr)" "g_sessions (webrtc_shutdown ?wr) = []"
    using webrtc_shutdown_down[of ?wr] wr by (simp_all add: webrtc_up_def)
  have locks: "viewer_lock (g_state s) = Unlocked" "slots_lock (slots (g_state s)) = Unlocked"
    using assms(11) by (simp_all add: state_up_def slots_inv_def)
  note parts = init_components_def Let_def i ff(1) webrtc_init_def sg
  show ?thesis
  proof (cases "r = NEARCADE_OK")
    case False
    then show ?thesis
      using in_up assms(3-10) locks by (simp add: parts down_def)
  next
    case True
    then have up: "input_up b ist" using in_up by simp
    let ?g = "(g_state s)\<lparr>lan_ip := get_lan_ip (plat b) (lan env) 64 (lan_ip (g_state s)),
      pin := generate_pin (rand_val env) 8 (pin (g_state s)), running := True\<rparr>"
    have g: "state_up ?g" "\<not> capturing ?g" using assms(11,12) by (simp_all add: state_up_def)
    have upI: "up b s1" if "g_state s1 = ?g" "inputs s1 = ist" "g_ff s1 = ff" "wrtc s1 = ?wr"
        "signaling_up b (sig s1)" "sig_idle (sig s1)" for s1
      using that g up ff(2) wr linked_idle[of s1] by (simp add: up_def)
    show ?thesis
    proof (cases "has_signaling b")
      case False
      then have "signaling_up b (sig s)" using assms(7-9) by (simp add: signaling_up_def)
      moreover define s1 where "s1 = snd (init_components b abi env s)"
      moreover have "fst (init_components b abi env s) = NEARCADE_OK"
        using True False by (simp add: parts)
      moreover have "g_state s1 = ?g" "inputs s1 = ist" "g_ff s1 = ff" "wrtc s1 = ?wr" "sig s1 = sig s"
        using True False by (simp_all add: s1_def parts)
      ultimately show ?thesis using upI[of s1] assms(7) by simp
    next
      case has: True
      note sg_up = signaling_init_up[OF assms(7-9) sg]
      show ?thesis
      proof (cases "r' = NEARCADE_OK")
        case r': True
        define s1 where "s1 = snd (init_components b abi env s)"
        moreover have "fst (init_components b abi env s) = NEARCADE_OK"
          using True has r' by (simp add: parts)
        moreover have "g_state s1 = ?g" "inputs s1 = ist" "g_ff s1 = ff" "wrtc s1 = ?wr" "sig s1 = sg"
          using True has r' by (simp_all add: s1_def parts)
        ultimately show ?thesis using upI[of s1] sg_up(1) sg_up(2)[of b] has r' by simp
      next
        case r': False
        then show ?thesis
          using True has up sg_up(1) sg_up(2)[of b] assms(10) wr_down ff_down locks
          by (simp add: parts down_def input_up_shutdown)
      qed
    qed
  qed
qed

lemma init_up:
  assumes "down s" and "open_fresh (uinput env) (inputs s)"
  shows "if fst (nearcade_init b abi env cfg s) = NEARCADE_OK then up b (snd (nearcade_init b abi env cfg s))
    else down (snd (nearcade_init b abi env cfg s))"
proof (cases "(plat b = Windows \<and> wsa_rc env \<noteq> 0) \<or> mutex_rc1 env \<noteq> 0 \<or> mutex_rc2 env \<noteq> 0")
  case True
  then show ?thesis
    using assms(1) by (auto simp: nearcade_init_def Let_def zero_state_def zero_slots_def down_def)
next
  case False
  define s' where "s' = upd_state (\<lambda>g. g\<lparr>slots := (slots g)\<lparr>slots_lock := Unlocked\<rparr>\<rparr>)
    (upd_state (\<lambda>g. g\<lparr>viewer_lock := Unlocked\<rparr>) (upd_state (\<lambda>g. g\<lparr>config := init_config cfg\<rparr>)
      ((if plat b = Windows then s\<lparr>wsa := wsa s + 1\<rparr> else s)\<lparr>g_state := zero_state,
        g_loglevel := log_level_from_env (env_log_level env)\<rparr>)))"
  from False have init: "nearcade_init b abi env cfg s = init_components b abi env s'"
    unfolding nearcade_init_def Let_def s'_def by auto
  have same: "inputs s' = inputs s" "g_ff s' = g_ff s" "wrtc s' = wrtc s" "sig s' = sig s"
    and g: "g_state s' = zero_state\<lparr>config := init_config cfg, viewer_lock := Unlocked,
      slots := zero_slots\<lparr>slots_lock := Unlocked\<rparr>\<rparr>"
    by (simp_all add: s'_def zero_state_def)
  have "\<not> running (g_state s')" "\<not> capturing (g_state s')" "state_up ((g_state s')\<lparr>running := True\<rparr>)"
    by (simp_all add: g zero_state_def zero_slots_def state_up_def slots_inv_def buf_ok_def zeroed_def)
  then show ?thesis
    unfolding init using assms same by (intro init_components_up) (simp_all add: down_def)
qed

lemma up_shutdown:
  assumes "up b s" and "ff_active (g_ff s) \<longrightarrow> wait_answers env (ff_pid (g_ff s))"
  shows "down (nearcade_shutdown b env s)"
proof -
  have run: "running (g_state s)" and locks: "viewer_lock (g_state s) = Unlocked"
      "slots_lock (slots (g_state s)) = Unlocked"
    using assms(1) by (simp_all add: up_def state_up_def slots_inv_def)
  have "input_quiet (input_shutdown (plat b) (inputs s))"
    using assms(1) by (simp add: up_def input_up_shutdown)
  moreover have "capture_inv (capture_shutdown (plat b) env (g_ff s))
      \<and> \<not> ff_active (capture_shutdown (plat b) env (g_ff s))"
    using assms by (intro capture_up_shutdown[where c = "capturing (g_state s)"]) (simp_all add: up_def)
  moreover have "webrtc_inv (webrtc_shutdown (wrtc s)) \<and> g_sessions (webrtc_shutdown (wrtc s)) = []"
    using assms(1) by (intro webrtc_shutdown_down) (simp add: up_def webrtc_up_def)
  moreover have "sig_idle (signaling_shutdown (sig s)) \<and> g_wsi (signaling_shutdown (sig s)) = None
      \<and> live_contexts {} (lws_trace (signaling_shutdown (sig s))) = {}" if "has_signaling b"
    using assms(1) that by (intro signaling_up_shutdown) (simp_all add: up_def)
  moreover have "sig_idle (sig s) \<and> g_wsi (sig s) = None \<and> live_contexts {} (lws_trace (sig s)) = {}"
    if "\<not> has_signaling b"
    using assms(1) that by (simp add: up_def signaling_up_def)
  ultimately show ?thesis
    using run locks by (simp add: nearcade_shutdown_def Let_def down_def)
qed


section \<open>Traces of the senders\<close>

text \<open>Sending changes the trace only, and no context.\<close>

definition writes :: "lws_call list \<Rightarrow> bool" where
  "writes cs \<longleftrightarrow> (\<forall>c\<in>set cs. \<exists>w d r. c = L_write w d r)"


section \<open>Facts: every step keeps the invariant\<close>

lemma up_inputs: "up b s \<Longrightarrow> input_up b st \<Longrightarrow> up b (s\<lparr>inputs := st\<rparr>)"
  by (simp add: up_def linked_def)

lemma up_sig: "up b s \<Longrightarrow> signaling_up b sg \<Longrightarrow> viewer_at sg = viewer_at (sig s) \<Longrightarrow> up b (s\<lparr>sig := sg\<rparr>)"
  by (simp add: up_def linked_def)

lemma up_wrtc:
  "up b s \<Longrightarrow> webrtc_up w \<Longrightarrow> session_viewers w = session_viewers (wrtc s) \<Longrightarrow> up b (s\<lparr>wrtc := w\<rparr>)"
  by (simp add: up_def linked_def)

lemma up_state:
  "up b s \<Longrightarrow> state_up (f (g_state s)) \<Longrightarrow> capturing (f (g_state s)) = capturing (g_state s) \<Longrightarrow>
   up b (upd_state f s)"
  by (simp add: up_def linked_def)

lemma up_fire [simp]: "up b (fire_event e s) = up b s"
  by (simp add: up_def linked_def)

lemma up_frame:
  assumes "up b s" and "g_state s' = g_state s" "inputs s' = inputs s" "g_ff s' = g_ff s"
    "wrtc s' = wrtc s" "sig s' = sig s"
  shows "up b s'"
  using assms by (simp add: up_def linked_def)

lemma input_up_free: "input_up b st \<Longrightarrow> input_up b (snd (input_free_slot (plat b) slot st))"
  by (cases "plat b") (auto simp: input_up_def input_free_slot_def win_input_defs mac_input_defs intro: keeps)

lemma no_gamepads_nth: "no_gamepads st \<Longrightarrow> i < 16 \<Longrightarrow> gp_fds st ! i = -1"
  by (simp add: no_gamepads_def)

lemma no_gamepads_submit:
  assumes "no_gamepads st"
  shows "fst (linux_input_submit_gamepad (Some p) st) \<in> {NEARCADE_ERR_INVALID_ARG, NEARCADE_ERR_NO_DEVICE}"
    and "no_gamepads (snd (linux_input_submit_gamepad pkt st))"
proof -
  have gp: "fst (linux_input_submit_gamepad (Some q) st) \<in> {NEARCADE_ERR_INVALID_ARG, NEARCADE_ERR_NO_DEVICE}
      \<and> gp_fds (snd (linux_input_submit_gamepad (Some q) st)) = gp_fds st" for q
  proof (cases "unat (pkt_slot q) < 16")
    case True
    with no_gamepads_nth[OF assms True] show ?thesis by (simp add: linux_input_submit_gamepad_cases(3))
  next
    case False
    then show ?thesis by (simp add: linux_input_submit_gamepad_cases(2))
  qed
  then show "fst (linux_input_submit_gamepad (Some p) st) \<in> {NEARCADE_ERR_INVALID_ARG, NEARCADE_ERR_NO_DEVICE}"
    by blast
  show "no_gamepads (snd (linux_input_submit_gamepad pkt st))"
    using gp assms by (cases pkt) (simp_all add: linux_input_submit_gamepad_cases(1) no_gamepads_def)
qed

lemma input_up_submit: "input_up b st \<Longrightarrow> input_up b (snd (input_submit_gamepad (plat b) p st))"
  by (cases "plat b") (auto simp: input_up_def input_submit_gamepad_def win_input_defs mac_input_defs
      intro: keeps no_gamepads_submit(2))

lemma input_up_kbm: "input_up b st \<Longrightarrow> input_up b (snd (input_submit_kbm (plat b) abi v t k dx dy st))"
proof (cases "plat b")
  case Linux
  assume up: "input_up b st"
  then have "input_inv (snd (linux_input_submit_kbm abi v t k dx dy st))"
    using Linux by (intro linux_input_submit_kbm_inv) (simp add: input_up_def)
  moreover have "gp_fds (snd (linux_input_submit_kbm abi v t k dx dy st)) = gp_fds st"
    by (simp add: linux_input_submit_kbm_eq)
  ultimately show ?thesis
    using up Linux by (simp add: input_up_def input_submit_kbm_def no_gamepads_def)
qed (simp_all add: input_up_def input_submit_kbm_def win_input_defs mac_input_defs)

lemma input_up_flush: "input_up b st \<Longrightarrow> input_up b (snd (input_flush_slot (plat b) slot st))"
proof (cases "plat b")
  case Linux
  assume up: "input_up b st"
  then have "input_inv (snd (linux_input_flush_slot slot st))"
    using Linux by (intro linux_input_flush_slot_inv) (simp add: input_up_def)
  moreover have "gp_fds (snd (linux_input_flush_slot slot st)) = gp_fds st"
    by (simp add: linux_input_flush_slot_eq)
  ultimately show ?thesis
    using up Linux by (simp add: input_up_def input_flush_slot_def no_gamepads_def)
qed (simp_all add: input_up_def input_flush_slot_def win_input_defs mac_input_defs)

lemma webrtc_up_signaling:
  assumes "webrtc_up wr"
  shows "webrtc_up (snd (webrtc_handle_signaling env v d wr))"
    and "session_viewers (snd (webrtc_handle_signaling env v d wr)) = session_viewers wr"
proof -
  have inv: "webrtc_inv wr" using assms by (simp add: webrtc_up_def)
  then have lock: "g_lock wr = Unlocked" by (simp add: webrtc_inv_def)
  then have "\<exists>cs. snd (webrtc_handle_signaling env v d wr) = rtc cs wr"
  proof (cases rule: handle_signaling_cases[where env = env and v = v and d = d])
    case nothing
    then have "snd (webrtc_handle_signaling env v d wr) = rtc [] wr" by (simp add: rtc_Nil)
    then show ?thesis by blast
  qed blast
  then obtain cs where cs: "snd (webrtc_handle_signaling env v d wr) = rtc cs wr" by blast
  show "webrtc_up (snd (webrtc_handle_signaling env v d wr))"
    using webrtc_inv_signaling[OF inv, of env v d] assms by (simp add: webrtc_up_def cs)
  show "session_viewers (snd (webrtc_handle_signaling env v d wr)) = session_viewers wr"
    by (simp add: session_viewers_def cs)
qed

lemma webrtc_up_joined:
  assumes "webrtc_up wr"
  shows "webrtc_up (snd (webrtc_viewer_joined i wr))"
    and "session_viewers (snd (webrtc_viewer_joined i wr)) = session_viewers wr @ [i]"
  using assms webrtc_inv_joined[of wr i]
  by (simp_all add: webrtc_up_def webrtc_viewer_joined_def create_session_eq webrtc_inv_def session_viewers_def)

lemma webrtc_up_left:
  assumes "webrtc_up wr" and "distinct (session_viewers wr)" and "i \<in> set (session_viewers wr)"
  shows "webrtc_up (webrtc_viewer_left i wr)"
    and "distinct (session_viewers (webrtc_viewer_left i wr))"
    and "set (session_viewers (webrtc_viewer_left i wr)) = set (session_viewers wr) - {i}"
proof -
  have lock: "g_lock wr = Unlocked" using assms(1) by (simp add: webrtc_up_def webrtc_inv_def)
  obtain k where k: "first_index (\<lambda>s. sess_viewer_idx s = i) (g_sessions wr) = Some k"
    using assms(3) first_index_ex[of _ "g_sessions wr" "\<lambda>s. sess_viewer_idx s = i"]
    by (auto simp: session_viewers_def)
  have at: "k < length (session_viewers wr)" "session_viewers wr ! k = i"
    using first_index_SomeD(1,2)[OF k] by (simp_all add: session_viewers_def)
  have eq: "session_viewers (webrtc_viewer_left i wr) =
      take k (session_viewers wr) @ drop (Suc k) (session_viewers wr)"
    by (simp add: viewer_left_eq[OF lock] k session_viewers_def take_map drop_map)
  show "distinct (session_viewers (webrtc_viewer_left i wr))"
    and "set (session_viewers (webrtc_viewer_left i wr)) = set (session_viewers wr) - {i}"
    unfolding eq using remove_nth[OF at(1) assms(2)] at(2) by simp_all
  have "webrtc_inv (webrtc_viewer_left i wr)" using assms(1) by (simp add: webrtc_up_def webrtc_inv_left)
  then show "webrtc_up (webrtc_viewer_left i wr)"
    using assms(1) by (simp add: webrtc_up_def viewer_left_eq[OF lock] k)
qed

lemma live_contexts_writes: "writes cs \<Longrightarrow> live_contexts C cs = C"
  by (induction C cs rule: live_contexts.induct) (auto simp: writes_def)

lemma send_to_lws_trace: "\<exists>cs. writes cs \<and> snd (send_to_lws env w d sg) = lws cs sg"
proof -
  have none: "\<exists>cs. writes cs \<and> sg = lws cs sg" by (rule exI[of _ "[]"]) (simp add: lws_def writes_def)
  have one: "\<exists>cs. writes cs \<and> lws [L_write x y z] sg = lws cs sg" for x y z
    by (rule exI[of _ "[L_write x y z]"]) (simp add: writes_def)
  show ?thesis
    by (cases w; cases d) (simp_all add: send_to_lws_def Let_def none one)
qed

lemma signaling_up_lws:
  assumes "signaling_up b sg" and "writes cs"
  shows "signaling_up b (lws cs sg)" and "viewer_at (lws cs sg) = viewer_at sg"
proof -
  show "viewer_at (lws cs sg) = viewer_at sg" by (simp add: viewer_at_def fun_eq_iff)
  have "sig_inv (lws cs sg) = sig_inv sg" "sig_idle (lws cs sg) = sig_idle sg"
    by (simp_all add: sig_idle_def sig_inv_def registry_inv_def viewers_distinct_def)
  then show "signaling_up b (lws cs sg)"
    using assms live_contexts_writes by (simp add: signaling_up_def)
qed


section \<open>A concrete start\<close>

text \<open>A concrete start with favourable answers, used to show that hypotheses can hold.\<close>

definition linux_build :: build where
  "linux_build = \<lparr>plat = Linux, has_signaling = True\<rparr>"

definition started :: sdk where
  "started = exec_step linux_build linux_abi (S_init plain_env None) sdk_static"


lemma signaling_up_lock: "signaling_up b sg \<Longrightarrow> g_ws_lock sg = Unlocked"
  by (auto simp: signaling_up_def sig_inv_def sig_idle_def split: if_splits)

lemma locked_send_trace:
  assumes "g_ws_lock sg = Unlocked"
  shows "\<exists>cs. writes cs \<and> unlock_ws (snd (send_to_lws env w d (lock_ws sg))) = lws cs sg"
proof -
  obtain cs where "writes cs" "snd (send_to_lws env w d (lock_ws sg)) = lws cs (lock_ws sg)"
    using send_to_lws_trace by blast
  then show ?thesis using unlock_lws_lock_ws[OF assms, of cs] by auto
qed

lemma nothing_written: "\<exists>cs. writes cs \<and> sg = lws cs sg"
  by (rule exI[of _ "[]"]) (simp add: lws_def writes_def)

lemma send_to_viewer_trace:
  assumes "g_ws_lock sg = Unlocked"
  shows "\<exists>cs. writes cs \<and> snd (signaling_send_to_viewer env v d sg) = lws cs sg"
proof (cases v)
  case None
  then show ?thesis by (simp add: signaling_send_to_viewer_def nothing_written)
next
  case v: (Some vid)
  show ?thesis
  proof (cases d)
    case None
    with v show ?thesis by (simp add: signaling_send_to_viewer_def nothing_written)
  next
    case (Some m)
    show ?thesis
    proof (cases "viewer_ws_by_id (Some vid) sg")
      case None
      with v Some show ?thesis
        by (simp add: signaling_send_to_viewer_def Let_def unlock_lock_ws[OF assms] nothing_written)
    next
      case (Some t)
      with v \<open>d = Some m\<close> show ?thesis
        by (simp add: signaling_send_to_viewer_def Let_def split_beta locked_send_trace[OF assms])
    qed
  qed
qed

lemma send_answer_trace:
  assumes "g_ws_lock sg = Unlocked"
  shows "\<exists>cs. writes cs \<and> snd (signaling_send_answer env v d sg) = lws cs sg"
proof (cases d)
  case None
  then show ?thesis by (simp add: signaling_send_answer_def nothing_written)
next
  case (Some t)
  show ?thesis unfolding Some send_answer_eq Let_def split_beta snd_conv by (rule locked_send_trace[OF assms])
qed

lemma send_ice_trace:
  assumes "g_ws_lock sg = Unlocked"
  shows "\<exists>cs. writes cs \<and> snd (signaling_send_ice env v d sg) = lws cs sg"
proof (cases d)
  case None
  then show ?thesis by (simp add: signaling_send_ice_def nothing_written)
next
  case (Some t)
  show ?thesis unfolding Some send_ice_eq Let_def split_beta snd_conv by (rule locked_send_trace[OF assms])
qed

lemma up_writes:
  assumes "up b s" and "\<exists>cs. writes cs \<and> sg = lws cs (sig s)"
  shows "up b (s\<lparr>sig := sg\<rparr>)"
  using assms signaling_up_lws up_sig by (metis up_def)

text \<open>The service thread: a viewer that is registered gets a session, one that leaves loses it.\<close>

lemma callback_frame:
  "g_wsi (fst (callback_signaling v m f wsi reason (st, w))) = g_wsi st"
  "g_msg_cb (fst (callback_signaling v m f wsi reason (st, w))) = g_msg_cb st"
  "g_viewer_cb (fst (callback_signaling v m f wsi reason (st, w))) = g_viewer_cb st"
  "lws_trace (fst (callback_signaling v m f wsi reason (st, w))) = lws_trace st"
  by (cases reason; simp add: callback_signaling_def Let_def split_beta split: option.split)+

lemma on_signaling_viewer_fields [simp]:
  "g_state (on_signaling_viewer i j s) = g_state s" "inputs (on_signaling_viewer i j s) = inputs s"
  "g_ff (on_signaling_viewer i j s) = g_ff s"
  "wrtc (on_signaling_viewer i True s) = snd (webrtc_viewer_joined i (wrtc s))"
  "wrtc (on_signaling_viewer i False s) = webrtc_viewer_left i (wrtc s)"
  by (simp_all add: on_signaling_viewer_def)

lemma linked_joined:
  assumes "linked s" and "webrtc_up (wrtc s)" and "viewer_at (sig s) i = None"
    and "wrtc s' = snd (webrtc_viewer_joined (int i) (wrtc s))" and "viewer_at (sig s') = (viewer_at (sig s))(i \<mapsto> w)"
  shows "linked s'"
proof -
  have "int i \<notin> set (session_viewers (wrtc s))" using assms(1,3) by (auto simp: linked_def)
  moreover have "{j. viewer_at (sig s') j \<noteq> None} = insert i {j. viewer_at (sig s) j \<noteq> None}"
    unfolding assms(5) by auto
  ultimately show ?thesis
    using assms(1) webrtc_up_joined(2)[OF assms(2), of "int i"] by (simp add: linked_def assms(4))
qed

lemma linked_left:
  assumes "linked s" and "webrtc_up (wrtc s)" and "viewer_at (sig s) i = Some w"
    and "wrtc s' = webrtc_viewer_left (int i) (wrtc s)" and "viewer_at (sig s') = (viewer_at (sig s))(i := None)"
  shows "linked s'" and "webrtc_up (wrtc s')"
proof -
  have mem: "int i \<in> set (session_viewers (wrtc s))" using assms(1,3) by (auto simp: linked_def)
  note left = webrtc_up_left[OF assms(2) _ mem]
  have "{j. viewer_at (sig s') j \<noteq> None} = {j. viewer_at (sig s) j \<noteq> None} - {i}"
    unfolding assms(5) by auto
  then have "int ` {j. viewer_at (sig s') j \<noteq> None} = int ` {j. viewer_at (sig s) j \<noteq> None} - {int i}"
    by (simp add: image_set_diff)
  then show "linked s'" using assms(1) left by (simp add: linked_def assms(4))
  show "webrtc_up (wrtc s')" using assms(1) left by (simp add: linked_def assms(4))
qed

lemma receive_rest:
  assumes "snd (callback_signaling v m f wsi (LWS_CALLBACK_RECEIVE d) (st, w)) = w'"
  shows "w' = w \<or> (\<exists>e. w' = f e w) \<or> (\<exists>e i t. w' = f e (m i t w))"
  using assms by (auto simp: callback_signaling_def Let_def split: option.splits if_splits)

lemma up_service:
  assumes "up b s" and "has_signaling b"
    and "case reason of LWS_CALLBACK_ESTABLISHED _ \<Rightarrow> wsi \<notin> held (sig s) | _ \<Rightarrow> True"
  shows "up b (service_callback env wsi reason s)"
proof -
  let ?cb = "callback_signaling on_signaling_viewer (on_signaling_msg env)
      (\<lambda>e. fire_event (Some e)) wsi reason (sig s, s)"
  obtain sg s' where cb: "?cb = (sg, s')" by (meson surj_pair)
  have res: "service_callback env wsi reason s = s'\<lparr>sig := sg\<rparr>" by (simp add: service_callback_def cb)
  have sig: "sig_inv (sig s)" "g_viewer_cb (sig s)" and wr: "webrtc_up (wrtc s)" and link: "linked s"
    and sup: "signaling_up b (sig s)"
    using assms(1,2) by (simp_all add: up_def signaling_up_def)
  have sgu: "signaling_up b sg" if "sig_inv sg"
    using that sup assms(2) callback_frame[of on_signaling_viewer "on_signaling_msg env"
        "\<lambda>e. fire_event (Some e)" wsi reason "sig s" s] cb
    by (simp add: signaling_up_def)
  have upI: "up b (s'\<lparr>sig := sg\<rparr>)" if "sig_inv sg" "webrtc_up (wrtc s')" "linked (s'\<lparr>sig := sg\<rparr>)"
      "g_state s' = g_state s" "inputs s' = inputs s" "g_ff s' = g_ff s"
    using that assms(1) sgu by (simp add: up_def)
  have same: "linked (s'\<lparr>sig := sg\<rparr>)" if "viewer_at sg = viewer_at (sig s)"
      "session_viewers (wrtc s') = session_viewers (wrtc s)"
    using that link by (simp add: linked_def)
  show ?thesis
  proof (cases reason)
    case (LWS_CALLBACK_ESTABLISHED uri)
    then have fresh: "wsi \<notin> held (sig s)" using assms(3) by simp
    note step = established_step[OF sig(1) fresh sig(2) cb[unfolded LWS_CALLBACK_ESTABLISHED]]
    from step(4) show ?thesis
    proof (elim disjE exE conjE)
      assume "viewer_at sg = viewer_at (sig s)" "s' = s"
      then show ?thesis unfolding res using step(1) wr same by (intro upI) simp_all
    next
      fix i
      assume i: "viewer_at (sig s) i = None" "viewer_at sg = (viewer_at (sig s))(i \<mapsto> wsi)"
        "s' = on_signaling_viewer (int i) True s"
      have "linked (s'\<lparr>sig := sg\<rparr>)"
        using linked_joined[OF link wr i(1), of "s'\<lparr>sig := sg\<rparr>" wsi] i by simp
      then show ?thesis unfolding res using step(1) wr i by (intro upI) (simp_all add: webrtc_up_joined)
    qed
  next
    case LWS_CALLBACK_CLOSED
    note step = closed_step[OF sig(1,2) cb[unfolded LWS_CALLBACK_CLOSED]]
    from step[THEN conjunct2, THEN conjunct2, THEN conjunct2] show ?thesis
    proof (elim disjE exE conjE)
      assume "viewer_at sg = viewer_at (sig s)" "s' = s"
      then show ?thesis unfolding res using step wr same by (intro upI) simp_all
    next
      fix i
      assume i: "viewer_at (sig s) i = Some wsi" "viewer_at sg = (viewer_at (sig s))(i := None)"
        "s' = on_signaling_viewer (int i) False s"
      have "linked (s'\<lparr>sig := sg\<rparr>)" "webrtc_up (wrtc (s'\<lparr>sig := sg\<rparr>))"
        using linked_left[OF link wr i(1), of "s'\<lparr>sig := sg\<rparr>"] i by simp_all
      then show ?thesis unfolding res using step i by (intro upI) simp_all
    qed
  next
    case (LWS_CALLBACK_RECEIVE m)
    have sg: "sg = sig s"
      using receive_state[of "sig s" on_signaling_viewer "on_signaling_msg env" "\<lambda>e. fire_event (Some e)" wsi m s]
        cb LWS_CALLBACK_RECEIVE sig(1) by (simp add: sig_inv_def)
    have "s' = s \<or> (\<exists>e. s' = fire_event (Some e) s) \<or> (\<exists>e i t. s' = fire_event (Some e) (on_signaling_msg env i t s))"
      using receive_rest[of on_signaling_viewer "on_signaling_msg env" "\<lambda>e. fire_event (Some e)" wsi m "sig s" s s']
        cb LWS_CALLBACK_RECEIVE by simp
    then have "g_state s' = g_state s \<and> inputs s' = inputs s \<and> g_ff s' = g_ff s \<and> webrtc_up (wrtc s')
        \<and> session_viewers (wrtc s') = session_viewers (wrtc s)"
      using wr webrtc_up_signaling[OF wr] by (auto simp: on_signaling_msg_def)
    then show ?thesis unfolding res using sg sig(1) same by (intro upI) simp_all
  next
    case LWS_CALLBACK_OTHER
    then have "(sig s, s) = (sg, s')" using cb by (simp only: other_eq)
    then have "sg = sig s" "s' = s" by auto
    then show ?thesis unfolding res using sig(1) wr same by (intro upI) simp_all
  qed
qed

lemma up_sender:
  assumes "up b s"
  shows "up b (webrtc_send_via_signaling b env v d s)"
proof -
  have "g_ws_lock (sig s) = Unlocked" using assms signaling_up_lock by (auto simp: up_def)
  from send_to_viewer_trace[OF this, of env "Some v" "Some d"] up_writes[OF assms] assms show ?thesis
    by (simp add: webrtc_send_via_signaling_def)
qed

lemma up_disconnect:
  assumes "up b s"
  shows "up b (snd (nearcade_disconnect_viewer b v s))"
    and "nearcade_set_viewer_input_mode v mode s = (NEARCADE_ERR_INVALID_ARG, s)"
    and "nearcade_set_controller_type v ctrl s = (NEARCADE_ERR_INVALID_ARG, s)"
proof -
  have g: "viewer_lock (g_state s) = Unlocked" "viewers (g_state s) = replicate 64 zero_viewer"
    using assms by (simp_all add: up_def state_up_def)
  have none: "first_index (is_viewer x) (viewers (g_state s)) = None" for x
    by (simp add: g first_index_None_iff is_viewer_def zero_viewer_def)
  have relock: "unlock_viewers (lock_viewers s) = s" and vs: "viewers (g_state (lock_viewers s)) = viewers (g_state s)"
    using g(1) by (simp_all add: unlock_viewers_def lock_viewers_def upd_state_def)
  show "up b (snd (nearcade_disconnect_viewer b v s))"
    using assms by (cases v) (simp_all add: nearcade_disconnect_viewer_def Let_def none relock vs)
  show "nearcade_set_viewer_input_mode v mode s = (NEARCADE_ERR_INVALID_ARG, s)"
    by (cases v) (simp_all add: nearcade_set_viewer_input_mode_def Let_def none relock vs)
  show "nearcade_set_controller_type v ctrl s = (NEARCADE_ERR_INVALID_ARG, s)"
    by (cases v) (simp_all add: nearcade_set_controller_type_def Let_def none relock vs)
qed

lemma up_capture:
  assumes "up b s"
  shows "fork_parent env \<Longrightarrow> up b (snd (nearcade_start_capture b env s))"
    and "(ff_active (g_ff s) \<longrightarrow> wait_answers env (ff_pid (g_ff s))) \<Longrightarrow> up b (snd (nearcade_stop_capture b env s))"
proof -
  have cu: "capture_up b (capturing (g_state s)) (g_ff s)" and st: "state_up (g_state s)"
    and rest: "input_up b (inputs s)" "webrtc_up (wrtc s)" "signaling_up b (sig s)" "linked s"
    using assms by (simp_all add: up_def)
  have upI: "up b s'" if "capture_up b (capturing (g_state s')) (g_ff s')" "state_up (g_state s')"
      "inputs s' = inputs s" "wrtc s' = wrtc s" "sig s' = sig s" for s'
    using that rest by (simp add: up_def linked_def)
  show "up b (snd (nearcade_start_capture b env s))" if "fork_parent env"
    using that cu st capture_start_inv[of "g_ff s" env "plat b" "config (g_state s)"]
    by (intro upI) (auto simp: nearcade_start_capture_def Let_def split_beta capture_up_def
        capture_start_def state_up_def)
  show "up b (snd (nearcade_stop_capture b env s))" if "ff_active (g_ff s) \<longrightarrow> wait_answers env (ff_pid (g_ff s))"
    using that cu st capture_stop_inv[of "g_ff s" env "plat b"] capture_stop_inactive[of "plat b" "g_ff s" env]
    by (intro upI) (auto simp: nearcade_stop_capture_def Let_def capture_up_def state_up_def)
qed

lemma up_step:
  assumes "up b s" and "step_ok b p s" and "\<And>env. p \<noteq> S_shutdown env"
  shows "up b (exec_step b abi p s)"
proof -
  have in_up: "input_up b (inputs s)" and wr: "webrtc_up (wrtc s)" and st: "state_up (g_state s)"
    and run: "running (g_state s)"
    using assms(1) by (simp_all add: up_def state_up_def)
  have lock: "g_ws_lock (sig s) = Unlocked" using assms(1) signaling_up_lock by (auto simp: up_def)
  show ?thesis
  proof (cases p)
    case (S_init env cfg)
    with assms(2) run show ?thesis by simp
  next
    case (S_shutdown env)
    with assms(3)[of env] show ?thesis by simp
  next
    case S_start_streaming
    then show ?thesis
      using assms(1) st by (simp add: nearcade_start_streaming_def) (intro up_state; simp add: state_up_def)
  next
    case S_stop_streaming
    then show ?thesis
      using assms(1) st by (simp add: nearcade_stop_streaming_def) (intro up_state; simp add: state_up_def)
  next
    case (S_send_h264 d)
    have "snd (webrtc_send_h264 d (wrtc s)) = wrtc s"
      using wr webrtc_send_nothing by (simp add: webrtc_up_def)
    then show ?thesis using assms(1) S_send_h264 by (simp add: nearcade_send_h264_def split_beta)
  next
    case (S_start_capture env)
    with assms(2) up_capture(1)[OF assms(1)] show ?thesis by simp
  next
    case (S_stop_capture env)
    with assms(2) up_capture(2)[OF assms(1)] show ?thesis by simp
  next
    case (S_set_event_callback cb ud)
    then show ?thesis
      using assms(1) st by (simp add: nearcade_set_event_callback_def) (intro up_state; simp add: state_up_def)
  next
    case (S_regenerate_pin r)
    have "up b (upd_state (\<lambda>g. g\<lparr>pin := generate_pin r 8 (pin g)\<rparr>) s)"
      using assms(1) st by (intro up_state) (simp_all add: state_up_def)
    then show ?thesis
      unfolding S_regenerate_pin by (rule up_frame) (simp_all add: nearcade_regenerate_pin_def)
  next
    case (S_submit_gamepad pk)
    then show ?thesis
      using assms(1) up_inputs[OF assms(1) input_up_submit[OF in_up]]
      by (cases pk) (simp_all add: nearcade_submit_gamepad_def split_beta)
  next
    case (S_submit_kbm v t k dx dy)
    then show ?thesis
      using assms(1) up_inputs[OF assms(1) input_up_kbm[OF in_up]]
      by (cases v; cases t) (simp_all add: nearcade_submit_kbm_def split_beta)
  next
    case (S_flush_slot slot)
    then show ?thesis
      using up_inputs[OF assms(1) input_up_flush[OF in_up]] by (simp add: nearcade_flush_slot_def split_beta)
  next
    case (S_disconnect_viewer v)
    then show ?thesis using up_disconnect(1)[OF assms(1)] by simp
  next
    case (S_set_viewer_input_mode v m)
    then show ?thesis using up_disconnect(2)[OF assms(1)] assms(1) by simp
  next
    case (S_set_controller_type v c)
    then show ?thesis using up_disconnect(3)[OF assms(1)] assms(1) by simp
  next
    case (S_send_answer env v d)
    then show ?thesis
      using assms(1) up_writes[OF assms(1) send_answer_trace[OF lock]]
      by (simp add: nearcade_send_answer_def split_beta)
  next
    case (S_send_ice_candidate env v d)
    then show ?thesis
      using assms(1) up_writes[OF assms(1) send_ice_trace[OF lock]]
      by (simp add: nearcade_send_ice_candidate_def split_beta)
  next
    case (S_lws env wsi reason)
    with assms(2) show ?thesis using up_service[OF assms(1), where reason = reason and wsi = wsi and env = env] by simp
  next
    case (S_state_change i x)
    then show ?thesis using assms(1) by (simp add: on_state_change_def webrtc_viewer_state_def)
  next
    case (S_local_description env i t d)
    then show ?thesis
      using assms(1) up_sender[OF assms(1)] by (simp add: on_local_description_def Let_def send_to_viewer_def)
  next
    case (S_local_candidate env i d)
    then show ?thesis
      using assms(1) up_sender[OF assms(1)] by (simp add: on_local_candidate_def Let_def send_to_viewer_def)
  next
    case (S_input_message m)
    then show ?thesis
      using assms(1) up_inputs[OF assms(1) input_up_submit[OF in_up]]
      by (cases m) (simp_all add: on_input_message_def webrtc_received_input_def Let_def)
  qed
qed

lemma down_step:
  assumes "down s" and "step_ok b p s"
  shows "down (exec_step b abi p s) \<or> up b (exec_step b abi p s)"
proof -
  have "\<not> running (g_state s)" using assms(1) by (simp add: down_def)
  moreover have "down (exec_step b abi p s)" if "p = S_set_event_callback cb ud" for cb ud
    using assms(1) that by (simp add: nearcade_set_event_callback_def down_def)
  moreover have "exec_step b abi p s = s" if "p = S_shutdown env" for env
    using calculation(1) that by (simp add: nearcade_shutdown_def)
  moreover have "down (exec_step b abi p s) \<or> up b (exec_step b abi p s)" if "p = S_init env cfg" for env cfg
    using init_up[OF assms(1), of env b abi cfg] assms(2) that by (auto split: if_splits)
  ultimately show ?thesis
    using assms by (cases p) auto
qed

lemma down_static: "down sdk_static"
  by (simp add: down_def sdk_static_def zero_state_def zero_slots_def input_static_quiet capture_static_inv
      webrtc_inv_static sig_idle_static) (simp add: capture_static_def webrtc_static_def signaling_static_def)

lemma reachable_inv: "sdk_reachable b abi s \<Longrightarrow> down s \<or> up b s"
proof (induction rule: sdk_reachable.induct)
  case load
  then show ?case using down_static by simp
next
  case (step s p)
  from step.IH show ?case
  proof
    assume "down s"
    then show ?thesis using down_step[OF _ step.hyps(2)] by simp
  next
    assume up: "up b s"
    show ?thesis
    proof (cases "\<exists>env. p = S_shutdown env")
      case True
      then show ?thesis using up_shutdown[OF up] step.hyps(2) by auto
    next
      case False
      then show ?thesis using up_step[OF up step.hyps(2)] by blast
    qed
  qed
qed

lemma started_reachable: "sdk_reachable linux_build linux_abi started"
  unfolding started_def
  by (intro sdk_reachable.intros)
    (simp add: sdk_static_def zero_state_def open_fresh_def input_static_def)

lemma linux_init_ok: "0 \<le> fd \<Longrightarrow> fst (linux_input_init linux_abi (env_ok fd) st) = NEARCADE_OK"
  by (simp add: linux_input_init_def create_kbm_device_def env_ok_def Let_def)

lemma plain_init:
  assumes "0 \<le> fd" and "exec_step linux_build linux_abi (S_init (plain_env\<lparr>uinput := env_ok fd\<rparr>) None) s = s'"
  shows "running (g_state s')" and "inputs s' = snd (linux_input_init linux_abi (env_ok fd) (inputs s))"
proof -
  let ?env = "plain_env\<lparr>uinput := env_ok fd\<rparr>"
  have comp: "running (g_state (snd (init_components linux_build linux_abi ?env s)))
      \<and> inputs (snd (init_components linux_build linux_abi ?env s)) =
        snd (linux_input_init linux_abi (env_ok fd) (inputs s))" for s
    using linux_init_ok[OF assms(1)]
    by (simp add: init_components_def Let_def split_beta linux_build_def plain_env_def input_init_def
        capture_init_def webrtc_init_def signaling_init_def)
  then show "running (g_state s')" "inputs s' = snd (linux_input_init linux_abi (env_ok fd) (inputs s))"
    unfolding assms(2)[symmetric]
    by (simp_all add: nearcade_init_def) (simp_all add: Let_def plain_env_def linux_build_def)
qed

lemma plain_env_uinput: "plain_env\<lparr>uinput := env_ok 5\<rparr> = plain_env"
  by (simp add: plain_env_def)

lemma started_facts: "running (g_state started)" "inputs started = input_started"
  using plain_init[of 5 sdk_static started]
  by (simp_all add: started_def plain_env_uinput input_started_def sdk_static_def)

lemmas started_running = started_facts(1)

lemma shutdown_slots_none: "(\<forall>i\<in>set is. gp_fds st ! i < 0) \<Longrightarrow> shutdown_slots is st = st"
  by (induction "is") simp_all

lemma shutdown_no_gamepads:
  assumes "no_gamepads st" and "0 \<le> kbm_fd st"
  shows "live {} (trace (linux_input_shutdown st)) = live {} (trace st) - {kbm_fd st}"
proof -
  have "shutdown_slots [0..<16] (lock_input st) = lock_input st"
    using assms(1) by (intro shutdown_slots_none) (simp add: no_gamepads_nth)
  with assms(2) show ?thesis by (simp add: linux_input_shutdown_def Let_def del: upt_rec_numeral)
qed

lemma started_up: "up linux_build started"
  using reachable_inv[OF started_reachable] started_running by (auto simp: down_def)

lemma init_components_capturing [simp]:
  "capturing (g_state (snd (init_components b abi env s))) = capturing (g_state s)"
  by (simp add: init_components_def Let_def split_beta)

lemma init_not_capturing:
  "\<not> capturing (g_state s) \<or> fst (nearcade_init b abi env cfg s) = NEARCADE_OK \<Longrightarrow>
   \<not> capturing (g_state (snd (nearcade_init b abi env cfg s)))"
  by (auto simp add: nearcade_init_def Let_def split_beta zero_state_def)

lemma started_not_capturing: "\<not> capturing (g_state started)"
  using init_not_capturing[of sdk_static] by (simp add: started_def sdk_static_def zero_state_def)

lemma plain_init_ok: "fst (nearcade_init linux_build linux_abi plain_env None sdk_static) = NEARCADE_OK"
  using init_running[of linux_build plain_env linux_abi None sdk_static] started_running
  by (simp add: started_def linux_build_def)

end
