(* ===== verification/Sdk_Events.thy ===== *)
theory Sdk_Events
  imports Sdk_Runs
begin

text \<open>
  The events the application sees. Every call and callback hands the application well-formed
  events only, and hands them to the callback and user data that are installed when it begins.
  Holds for every step in every state, and from it for all runs.
\<close>

text \<open>The character arrays of an event have their declared sizes and are terminated.\<close>

definition char_array :: "nat \<Rightarrow> cbuf \<Rightarrow> bool" where
  "char_array n buf \<longleftrightarrow> length buf = n \<and> terminated buf"

fun event_wf :: "nearcade_event \<Rightarrow> bool" where
  "event_wf (NEARCADE_EVENT_VIEWER_JOINED vid name) = (char_array NEARCADE_VIEWER_ID_LEN vid \<and> char_array 48 name)"
| "event_wf (NEARCADE_EVENT_VIEWER_LEFT vid) = char_array NEARCADE_VIEWER_ID_LEN vid"
| "event_wf (NEARCADE_EVENT_INPUT_PACKET _ vid) = char_array NEARCADE_VIEWER_ID_LEN vid"
| "event_wf (NEARCADE_EVENT_RUMBLE _ _ _ _) = True"
| "event_wf (NEARCADE_EVENT_SIGNALING vid data) = (char_array NEARCADE_VIEWER_ID_LEN vid \<and> char_array 2048 data)"
| "event_wf (NEARCADE_EVENT_ERROR _ message) = char_array 256 message"
| "event_wf (NEARCADE_EVENT_STREAMING _) = True"

text \<open>From \<open>s\<close> to \<open>s'\<close> well-formed events were handed to the callback installed in \<open>s\<close>.\<close>

definition fires :: "sdk \<Rightarrow> sdk \<Rightarrow> bool" where
  "fires s s' \<longleftrightarrow>
     (\<exists>evs. (\<forall>e\<in>set evs. event_wf e) \<and> (event_cb (g_state s) = 0 \<longrightarrow> evs = [])
       \<and> delivered s' = delivered s @ map (\<lambda>e. (event_cb (g_state s), event_cb_userdata (g_state s), e)) evs)"

text \<open>The steps that never hand an event to the application.\<close>

fun silent :: "sdk_step \<Rightarrow> bool" where
  "silent S_start_streaming = False"
| "silent (S_lws env wsi reason) = False"
| "silent (S_state_change i st) = False"
| "silent (S_input_message m) = False"
| "silent _ = True"


text \<open>A packet with a given type byte arrives on the data channel.\<close>

definition receive_typed :: "build \<Rightarrow> 8 word \<Rightarrow> nearcade_gamepad_packet \<Rightarrow> sdk \<Rightarrow> sdk" where
  "receive_typed b t p s =
     on_input_message (webrtc_received_input b) (Binary (encode_packet (p\<lparr>pkt_type := t\<rparr>))) (wrtc s) s"


section \<open>Facts\<close>

lemma char_array_zeroed [simp]: "char_array n (zeroed n) \<longleftrightarrow> 0 < n"
  by (auto simp: char_array_def zeroed_def terminated_def)

lemma char_array_snprintf [simp]: "0 < n \<Longrightarrow> char_array n (snprintf txt n (zeroed n))"
  by (simp add: char_array_def length_snprintf snprintf_terminated)

lemma char_array_strncpy: "0 < n \<Longrightarrow> char_array n (strncpy src (n - 1) (zeroed n))"
  using buf_ok_strncpy[of n "zeroed n" src]
  by (simp add: char_array_def buf_ok_terminated)

lemma fires_quiet: "delivered s' = delivered s \<Longrightarrow> fires s s'"
  unfolding fires_def by (rule exI[of _ "[]"]) simp

lemma fires_event:
  assumes "event_wf e" and "delivered s0 = delivered s"
    and "event_cb (g_state s0) = event_cb (g_state s)"
    and "event_cb_userdata (g_state s0) = event_cb_userdata (g_state s)"
  shows "fires s (fire_event (Some e) s0)"
proof (cases "event_cb (g_state s) = 0")
  case True
  then show ?thesis using assms by (intro fires_quiet) (simp add: fire_event_def)
next
  case False
  then show ?thesis
    unfolding fires_def using assms by (intro exI[of _ "[e]"]) (simp add: fire_event_def)
qed

lemma delivered_init: "delivered (snd (nearcade_init b abi env cfg s)) = delivered s"
  by (simp add: nearcade_init_def init_components_def Let_def split_beta)

lemma delivered_callbacks [simp]:
  "delivered (on_signaling_viewer i j s) = delivered s" "g_state (on_signaling_viewer i j s) = g_state s"
  "delivered (on_signaling_msg env v d s) = delivered s" "g_state (on_signaling_msg env v d s) = g_state s"
  "delivered (webrtc_send_via_signaling b lenv v d s) = delivered s"
  by (simp_all add: on_signaling_viewer_def on_signaling_msg_def webrtc_send_via_signaling_def)

lemma fires_service: "fires s (service_callback env wsi reason s)"
proof (cases reason)
  case (LWS_CALLBACK_RECEIVE m)
  have data: "char_array 2048 (strncpy x 2047 (zeroed 2048))" for x
    using char_array_strncpy[of 2048 x] by simp
  have keep: "fires s (s'\<lparr>sig := sg\<rparr>)" if "fires s s'" for s' sg
    using that by (simp add: fires_def)
  show ?thesis
    unfolding LWS_CALLBACK_RECEIVE service_callback_def callback_signaling_def Let_def
    using data by (auto simp: split_beta intro!: keep fires_event intro: fires_quiet split: option.split)
qed (simp_all add: service_callback_def callback_signaling_def Let_def split_beta fires_quiet)

lemma silent_step: "silent p \<Longrightarrow> delivered (exec_step b abi p s) = delivered s"
proof (cases p)
  case (S_init env cfg)
  then show ?thesis by (simp add: delivered_init)
next
  case (S_disconnect_viewer v)
  then show ?thesis
    by (auto simp: nearcade_disconnect_viewer_def lock_viewers_def unlock_viewers_def Let_def split: option.split)
next
  case (S_set_viewer_input_mode v m)
  then show ?thesis
    by (auto simp: nearcade_set_viewer_input_mode_def lock_viewers_def unlock_viewers_def Let_def
        split: option.split)
next
  case (S_set_controller_type v m)
  then show ?thesis
    by (auto simp: nearcade_set_controller_type_def lock_viewers_def unlock_viewers_def Let_def split: option.split)
qed (simp_all add: nearcade_shutdown_def nearcade_stop_streaming_def nearcade_send_h264_def
    nearcade_start_capture_def nearcade_stop_capture_def nearcade_set_event_callback_def
    nearcade_regenerate_pin_def nearcade_submit_gamepad_def nearcade_submit_kbm_def nearcade_flush_slot_def
    nearcade_send_answer_def nearcade_send_ice_candidate_def on_local_description_def
    on_local_candidate_def send_to_viewer_def Let_def split_beta split: option.split)

lemma fires_step: "fires s (exec_step b abi p s)"
proof (cases "silent p")
  case True
  then show ?thesis by (simp add: fires_quiet silent_step)
next
  case False
  then consider (streaming) "p = S_start_streaming" | (lws) env wsi reason where "p = S_lws env wsi reason"
    | (state) i st where "p = S_state_change i st" | (input) m where "p = S_input_message m"
    by (cases p) auto
  then show ?thesis
  proof cases
    case streaming
    then show ?thesis by (auto simp: nearcade_start_streaming_def intro!: fires_event)
  next
    case lws
    then show ?thesis by (simp add: fires_service)
  next
    case state
    then show ?thesis
      by (auto simp: on_state_change_def webrtc_viewer_state_def intro!: fires_event intro: fires_quiet)
  next
    case input
    then show ?thesis
      by (cases m) (auto simp: on_input_message_def webrtc_received_input_def Let_def
          intro!: fires_event intro: fires_quiet)
  qed
qed

lemma fires_wf:
  assumes "fires s s'" and "\<And>cb ud e. (cb, ud, e) \<in> set (delivered s) \<Longrightarrow> cb \<noteq> 0 \<and> event_wf e"
    and "(cb, ud, e) \<in> set (delivered s')"
  shows "cb \<noteq> 0 \<and> event_wf e"
  using assms by (fastforce simp: fires_def)

text \<open>Only starting and setting it change the callback, and only starting makes the SDK run.\<close>

lemma step_keeps_callback:
  assumes "\<And>env cfg. p \<noteq> S_init env cfg" and "\<And>cb ud. p \<noteq> S_set_event_callback cb ud"
  shows "event_cb (g_state (exec_step b abi p s)) = event_cb (g_state s)
    \<and> event_cb_userdata (g_state (exec_step b abi p s)) = event_cb_userdata (g_state s)
    \<and> (running (g_state (exec_step b abi p s)) \<longrightarrow> running (g_state s))"
proof (cases p)
  case (S_lws env wsi reason)
  then show ?thesis
    by (cases reason) (auto simp: service_callback_def callback_signaling_def Let_def split_beta split: option.split)
next
  case (S_disconnect_viewer v)
  then show ?thesis
    by (auto simp: nearcade_disconnect_viewer_def lock_viewers_def unlock_viewers_def Let_def split: option.split)
next
  case (S_set_viewer_input_mode v m)
  then show ?thesis
    by (auto simp: nearcade_set_viewer_input_mode_def lock_viewers_def unlock_viewers_def Let_def
        split: option.split)
next
  case (S_set_controller_type v m)
  then show ?thesis
    by (auto simp: nearcade_set_controller_type_def lock_viewers_def unlock_viewers_def Let_def split: option.split)
next
  case (S_shutdown env)
  then show ?thesis
    by (simp add: nearcade_shutdown_def destroy_slots_lock_def destroy_viewer_lock_def shutdown_input_def
        shutdown_capture_def shutdown_webrtc_def Let_def)
qed (use assms in \<open>auto simp: nearcade_start_streaming_def nearcade_stop_streaming_def nearcade_send_h264_def
    nearcade_start_capture_def nearcade_stop_capture_def
    nearcade_regenerate_pin_def nearcade_submit_gamepad_def nearcade_submit_kbm_def nearcade_flush_slot_def
    nearcade_send_answer_def nearcade_send_ice_candidate_def on_local_description_def
    on_state_change_def webrtc_viewer_state_def webrtc_send_via_signaling_def
    on_input_message_def webrtc_received_input_def
    on_local_candidate_def send_to_viewer_def Let_def split_beta split: option.split rtc_message.split\<close>)


lemma submit_ignores_type:
  "input_submit_gamepad pf (Some (p\<lparr>pkt_type := t\<rparr>)) st = input_submit_gamepad pf (Some p) st"
  by (simp add: input_submit_gamepad_def linux_input_submit_gamepad_def win_input_submit_gamepad_def
      mac_input_submit_gamepad_def gamepad_emits_def Let_def split: platform.split)


section \<open>Properties\<close>

text \<open>
  C26. Events are well typed. In every run, every event the application receives has character
  arrays of exactly the sizes the header declares, each with its terminator inside, so that reading them
  as strings stays within the event; and no event is handed to a null callback.
\<close>

theorem delivered_events_well_formed:
  assumes "sdk_reachable b abi s" and "(cb, ud, e) \<in> set (delivered s)"
  shows "cb \<noteq> 0 \<and> event_wf e"
  using assms
proof (induction arbitrary: cb ud e rule: sdk_reachable.induct)
  case load
  then show ?case by (simp add: sdk_static_def)
next
  case (step s p)
  then show ?case using fires_wf[OF fires_step] by blast
qed

theorem delivered_events_well_formed_witness:
  "event_wf (NEARCADE_EVENT_STREAMING 0) \<and>
   (1, 7, NEARCADE_EVENT_STREAMING 0) \<in> set (delivered (exec_step linux_build linux_abi S_start_streaming
     (exec_step linux_build linux_abi (S_set_event_callback 1 7) started)))"
proof -
  let ?s = "exec_step linux_build linux_abi (S_set_event_callback 1 7) started"
  have run: "running (g_state ?s)" using started_running by (simp add: nearcade_set_event_callback_def)
  have "sdk_reachable linux_build linux_abi (exec_step linux_build linux_abi S_start_streaming ?s)"
    using run by (intro sdk_reachable.step started_reachable) simp_all
  moreover have "(1, 7, NEARCADE_EVENT_STREAMING 0) \<in> set (delivered (exec_step linux_build linux_abi S_start_streaming ?s))"
    by (simp add: nearcade_start_streaming_def nearcade_set_event_callback_def fire_event_def)
  ultimately show ?thesis using delivered_events_well_formed by blast
qed

text \<open>
  The type of a packet is never looked at. Whatever the first byte of a sixteen-byte message on the
  data channel, \<open>PKT_KEY\<close>, \<open>PKT_FREE_GP\<close>, \<open>PKT_FLUSH\<close> and the other types of the header included, the input
  backend receives it as the gamepad packet with the same other fields, and the application is told of an
  input packet.
\<close>

lemma packet_type_ignored:
  assumes "g_input_cb (wrtc s)"
  shows "inputs (receive_typed b t p s) = inputs (receive_typed b (the (map_of packet_types ''PKT_GAMEPAD'')) p s)
    \<and> inputs (receive_typed b t p s) = snd (input_submit_gamepad (plat b) (Some p) (inputs s))
    \<and> (event_cb (g_state s) \<noteq> 0 \<longrightarrow> delivered (receive_typed b t p s) = delivered s
         @ [(event_cb (g_state s), event_cb_userdata (g_state s),
             NEARCADE_EVENT_INPUT_PACKET (p\<lparr>pkt_type := t\<rparr>) (zeroed NEARCADE_VIEWER_ID_LEN))])"
proof -
  have "receive_typed b u p s = webrtc_received_input b (p\<lparr>pkt_type := u\<rparr>) s" for u
    using decode_encode_packet[of "p\<lparr>pkt_type := u\<rparr>" "[]"] length_encode_packet[of "p\<lparr>pkt_type := u\<rparr>"] assms
    by (simp add: receive_typed_def on_input_message_def sizeof_packet_def)
  then show ?thesis by (simp add: webrtc_received_input_def fire_event_def submit_ignores_type Let_def)
qed

end
