(* ===== verification/Bounded_Fifo.thy ===== *)
theory Bounded_Fifo
  imports Prelude "HOL-Library.Sublist"
begin

text \<open>
  The contract of a bounded first-in first-out buffer that drops what does not fit, as the
  locale \<open>bounded_fifo\<close>, and what a client may rely on over any sequence of insertions and
  removals: nothing is invented, duplicated or reordered, and as long as the buffer never
  overflows nothing is lost. The event queue of the Godot binding is an interpretation.
\<close>

datatype 'a queue_op = Put 'a | Get

fun run_queue ::
    "('a \<Rightarrow> 'q \<Rightarrow> 'q) \<Rightarrow> ('q \<Rightarrow> 'a option \<times> 'q) \<Rightarrow> 'a queue_op list \<Rightarrow> 'q \<Rightarrow> 'a option list \<times> 'q" where
  "run_queue put get [] q = ([], q)"
| "run_queue put get (Put x # ops) q = run_queue put get ops (put x q)"
| "run_queue put get (Get # ops) q =
     (let (r, q) = get q; (rs, q) = run_queue put get ops q in (r # rs, q))"

fun puts :: "'a queue_op list \<Rightarrow> 'a list" where
  "puts [] = []"
| "puts (Put x # ops) = x # puts ops"
| "puts (Get # ops) = puts ops"

text \<open>The operations never insert into a full buffer when started with \<open>n\<close> elements.\<close>

fun fits :: "nat \<Rightarrow> nat \<Rightarrow> 'a queue_op list \<Rightarrow> bool" where
  "fits cap n [] = True"
| "fits cap n (Put x # ops) = (n < cap \<and> fits cap (Suc n) ops)"
| "fits cap n (Get # ops) = fits cap (n - 1) ops"

fun got :: "'a option list \<Rightarrow> 'a list" where
  "got [] = []"
| "got (None # rs) = got rs"
| "got (Some x # rs) = x # got rs"

locale bounded_fifo =
  fixes items :: "'q \<Rightarrow> 'a list"
    and put :: "'a \<Rightarrow> 'q \<Rightarrow> 'q"
    and get :: "'q \<Rightarrow> 'a option \<times> 'q"
    and inv :: "'q \<Rightarrow> bool"
    and cap :: nat
  assumes put_items: "inv q \<Longrightarrow> items (put x q) = (if length (items q) < cap then items q @ [x] else items q)"
    and put_inv: "inv q \<Longrightarrow> inv (put x q)"
    and get_value: "inv q \<Longrightarrow> fst (get q) = (case items q of [] \<Rightarrow> None | x # _ \<Rightarrow> Some x)"
    and get_items: "inv q \<Longrightarrow> items (snd (get q)) = tl (items q)"
    and get_inv: "inv q \<Longrightarrow> inv (snd (get q))"
    and inv_cap: "inv q \<Longrightarrow> length (items q) \<le> cap"
begin

lemma run_inv: "inv q \<Longrightarrow> inv (snd (run_queue put get ops q))"
  by (induction ops arbitrary: q rule: puts.induct) (simp_all add: put_inv get_inv split_beta Let_def)

lemma get_split:
  assumes "inv q"
  shows "items q = got [fst (get q)] @ items (snd (get q))"
  using get_value[OF assms] get_items[OF assms]
  by (cases "items q") simp_all

lemma run_order:
  assumes "inv q"
  shows "\<exists>kept. subseq kept (puts ops)
    \<and> items q @ kept = got (fst (run_queue put get ops q)) @ items (snd (run_queue put get ops q))"
  using assms
proof (induction ops arbitrary: q rule: puts.induct)
  case 1
  then show ?case by simp
next
  case (2 x ops)
  from "2.IH"[OF put_inv[OF "2.prems"], of x] obtain kept where
    k: "subseq kept (puts ops)" "items (put x q) @ kept =
      got (fst (run_queue put get ops (put x q))) @ items (snd (run_queue put get ops (put x q)))"
    by blast
  have "subseq kept (x # puts ops)" using k(1) by (rule list_emb_Cons)
  then show ?case
    using k put_items[OF "2.prems", of x]
    by (cases "length (items q) < cap")
      (auto intro: exI[of _ "x # kept"] exI[of _ kept])
next
  case (3 ops)
  from "3.IH"[OF get_inv[OF "3.prems"]] obtain kept where
    k: "subseq kept (puts ops)" "items (snd (get q)) @ kept =
      got (fst (run_queue put get ops (snd (get q)))) @ items (snd (run_queue put get ops (snd (get q))))"
    by blast
  then show ?case
    using get_split[OF "3.prems"]
    by (cases "fst (get q)") (auto simp: split_beta Let_def intro!: exI[of _ kept])
qed

lemma run_lossless:
  assumes "inv q" and "fits cap (length (items q)) ops"
  shows "items q @ puts ops = got (fst (run_queue put get ops q)) @ items (snd (run_queue put get ops q))"
  using assms
proof (induction ops arbitrary: q rule: puts.induct)
  case 1
  then show ?case by simp
next
  case (2 x ops)
  then show ?case
    using put_items[OF "2.prems"(1), of x] "2.IH"[OF put_inv[OF "2.prems"(1)], of x] by simp
next
  case (3 ops)
  let ?rest = "run_queue put get ops (snd (get q))"
  have "items (snd (get q)) @ puts ops = got (fst ?rest) @ items (snd ?rest)"
    using "3.prems"(2) get_items[OF "3.prems"(1)]
    by (intro "3.IH" get_inv "3.prems"(1)) simp
  then show ?case
    using get_split[OF "3.prems"(1)]
    by (cases "fst (get q)") (simp_all add: split_beta Let_def)
qed

lemma get_shrinks:
  assumes "inv q" and "fst (get q) = Some x"
  shows "length (items (snd (get q))) < length (items q)"
  using get_value[OF assms(1)] get_items[OF assms(1)] assms(2) by (cases "items q") simp_all

end

end
