(* ===== verification/Godot.thy ===== *)
theory Godot
  imports Nearcade_Core Bounded_Fifo
begin

text \<open>
  \<open>bindings/godot/src\<close>: the class \<open>NearcadeSDK\<close> that exposes the SDK to Godot scripts and the
  registration of the module. The methods call the C API of \<open>Nearcade_Core\<close>; events arrive
  through \<open>_event_callback\<close>, which queues them in the object until a script polls.

  The class library godot-cpp is not part of the repository. A \<open>Variant\<close> is one of the kinds of value
  the binding stores, or another; a \<open>Dictionary\<close>, which keeps the order of insertion, is an association
  list over the literal keys the binding uses; a \<open>String\<close> is a list of code points. How a string is made from and turned into bytes,
  and which \<open>int\<close> a \<open>Variant\<close> converts to, are the parameters of the record \<open>godot_cpp\<close>.
  Objects live at addresses, 0 being \<open>nullptr\<close>; \<open>stale\<close> records a use of an object that
  does not exist. \<open>emitted\<close> holds the signals in order; scripts connected to a signal
  run after the queue's mutex is free again and are not modelled.
\<close>

type_synonym gstring = "nat list"

datatype variant =
    V_INT int
  | V_STRING gstring
  | V_DICTIONARY "(string \<times> variant) list"
  | V_OTHER nat

type_synonym dictionary = "(string \<times> variant) list"

record godot_cpp =
  string_new :: "string \<Rightarrow> gstring"
  utf8 :: "gstring \<Rightarrow> string"
  variant_int :: "variant \<Rightarrow> int"

record NearcadeSDK =
  event_queue :: "nearcade_event list"
  queue_mutex :: mutex

record binding =
  core :: sdk
  objects :: "nat \<Rightarrow> NearcadeSDK option"
  singleton :: nat
  class_registered :: bool
  emitted :: "(nat \<times> string \<times> variant list) list"
  stale :: bool

text \<open>The state when the extension is loaded.\<close>

definition binding_static :: binding where
  "binding_static =
     \<lparr>core = sdk_static, objects = (\<lambda>_. None), singleton = 0, class_registered = False,
      emitted = [], stale = False\<rparr>"

definition EVENT_QUEUE_MAX :: nat where
  "EVENT_QUEUE_MAX = 256"

text \<open>The address of the function \<open>_event_callback\<close>.\<close>

definition event_callback_addr :: nat where
  "event_callback_addr = 1"


section \<open>The event queue\<close>

definition lock_queue :: "NearcadeSDK \<Rightarrow> NearcadeSDK" where
  "lock_queue self = self\<lparr>queue_mutex := nearcade_mutex_lock (queue_mutex self)\<rparr>"

definition unlock_queue :: "NearcadeSDK \<Rightarrow> NearcadeSDK" where
  "unlock_queue self = self\<lparr>queue_mutex := nearcade_mutex_unlock (queue_mutex self)\<rparr>"

definition queue_event :: "nearcade_event \<Rightarrow> NearcadeSDK \<Rightarrow> NearcadeSDK" where
  "queue_event ev self =
     (let self = lock_queue self;
          self = (if length (event_queue self) < EVENT_QUEUE_MAX
                  then self\<lparr>event_queue := event_queue self @ [ev]\<rparr> else self)
      in unlock_queue self)"

definition take_event :: "NearcadeSDK \<Rightarrow> nearcade_event option \<times> NearcadeSDK" where
  "take_event self =
     (let self = lock_queue self in
      case event_queue self of
        [] \<Rightarrow> (None, unlock_queue self)
      | qe # rest \<Rightarrow> (Some qe, unlock_queue (self\<lparr>event_queue := rest\<rparr>)))"

definition godot_event_callback :: "nearcade_event option \<Rightarrow> nat \<Rightarrow> binding \<Rightarrow> binding" where
  "godot_event_callback ev userdata g =
     (if userdata = 0 then g
      else
        (case ev of
           None \<Rightarrow> g
         | Some e \<Rightarrow>
             (case objects g userdata of
                None \<Rightarrow> g\<lparr>stale := True\<rparr>
              | Some self \<Rightarrow> g\<lparr>objects := (objects g)(userdata \<mapsto> queue_event e self)\<rparr>)))"

text \<open>
  A call into the SDK. The events it hands to the application's callback are the ones it adds to
  \<open>delivered\<close>; the binding's callback touches the queue of an object only, so running it for
  each of them in order after the call gives the state that running it inside the call gives.
\<close>

definition call_back :: "nat \<times> nat \<times> nearcade_event \<Rightarrow> binding \<Rightarrow> binding" where
  "call_back = (\<lambda>(cb, userdata, ev) g.
     if cb = event_callback_addr then godot_event_callback (Some ev) userdata g else g)"

definition call_sdk :: "(sdk \<Rightarrow> 'r \<times> sdk) \<Rightarrow> binding \<Rightarrow> 'r \<times> binding" where
  "call_sdk f g =
     (let (r, s) = f (core g)
      in (r, fold call_back (drop (length (delivered (core g))) (delivered s)) (g\<lparr>core := s\<rparr>)))"

text \<open>A method called on an object that does not exist.\<close>

definition on_object :: "nat \<Rightarrow> binding \<Rightarrow> binding" where
  "on_object this g = (if objects g this = None then g\<lparr>stale := True\<rparr> else g)"


section \<open>Objects and the module\<close>

definition godot_new :: "nat \<Rightarrow> binding \<Rightarrow> binding" where
  "godot_new this g =
     (let g = g\<lparr>objects := (objects g)(this \<mapsto> \<lparr>event_queue = [], queue_mutex = Unlocked\<rparr>)\<rparr>
      in if singleton g \<noteq> 0 then g else g\<lparr>singleton := this\<rparr>)"

definition godot_delete :: "build \<Rightarrow> capture_env \<Rightarrow> nat \<Rightarrow> binding \<Rightarrow> binding" where
  "godot_delete b env this g =
     (let g = on_object this g;
          g = snd (call_sdk (\<lambda>s. ((), nearcade_shutdown b env s)) g);
          g = (if singleton g = this then g\<lparr>singleton := 0\<rparr> else g)
      in g\<lparr>objects := (objects g)(this := None)\<rparr>)"

datatype initialization_level =
    MODULE_INITIALIZATION_LEVEL_CORE
  | MODULE_INITIALIZATION_LEVEL_SERVERS
  | MODULE_INITIALIZATION_LEVEL_SCENE
  | MODULE_INITIALIZATION_LEVEL_EDITOR

text \<open>\<open>addr\<close> is the address \<open>memnew\<close> returns.\<close>

definition initialize_nearcade_module :: "initialization_level \<Rightarrow> nat \<Rightarrow> binding \<Rightarrow> binding" where
  "initialize_nearcade_module p_level addr g =
     (if p_level \<noteq> MODULE_INITIALIZATION_LEVEL_SCENE then g
      else godot_new addr (g\<lparr>class_registered := True\<rparr>))"

definition uninitialize_nearcade_module ::
    "build \<Rightarrow> capture_env \<Rightarrow> initialization_level \<Rightarrow> binding \<Rightarrow> binding" where
  "uninitialize_nearcade_module b env p_level g =
     (if p_level \<noteq> MODULE_INITIALIZATION_LEVEL_SCENE then g
      else if singleton g \<noteq> 0 then godot_delete b env (singleton g) g
      else g)"

text \<open>The entry point hands the two functions and the lowest level of interest to the engine, and
  returns what the engine answers.\<close>

record gd_initialization =
  gi_initializer :: "initialization_level \<Rightarrow> nat \<Rightarrow> binding \<Rightarrow> binding"
  gi_terminator :: "build \<Rightarrow> capture_env \<Rightarrow> initialization_level \<Rightarrow> binding \<Rightarrow> binding"
  gi_minimum_level :: initialization_level

definition nearcade_godot_init :: "bool \<Rightarrow> bool \<times> gd_initialization" where
  "nearcade_godot_init init_ret =
     (init_ret,
      \<lparr>gi_initializer = initialize_nearcade_module, gi_terminator = uninitialize_nearcade_module,
       gi_minimum_level = MODULE_INITIALIZATION_LEVEL_SCENE\<rparr>)"

definition godot_get_singleton :: "binding \<Rightarrow> nat" where
  "godot_get_singleton g = singleton g"

datatype variant_type = T_INT | T_STRING | T_DICTIONARY

text \<open>The methods and signals \<open>_bind_methods\<close> makes known, with their parameters.\<close>

definition bound_methods :: "(string \<times> string list) list" where
  "bound_methods =
     [(''init'', [''config'']), (''start_streaming'', []), (''stop_streaming'', []),
      (''start_capture'', []), (''stop_capture'', []),
      (''send_h264'', [''data'', ''timestamp_us'']),
      (''send_frame'', [''data'', ''width'', ''height'', ''fmt'', ''timestamp_us'']),
      (''shutdown'', []), (''submit_gamepad'', [''packet'']),
      (''submit_kbm'', [''viewer_id'', ''event_type'', ''key'', ''dx'', ''dy'']),
      (''flush_slot'', [''slot'']), (''disconnect_viewer'', [''viewer_id'']),
      (''get_signaling_url'', []), (''get_lan_ip'', []), (''get_pin'', []),
      (''regenerate_pin'', []), (''poll_event'', [])]"

definition declared_signals :: "string \<Rightarrow> (variant_type \<times> string) list option" where
  "declared_signals =
     [''viewer_joined'' \<mapsto> [(T_STRING, ''viewer_id''), (T_STRING, ''name'')],
      ''viewer_left'' \<mapsto> [(T_STRING, ''viewer_id'')],
      ''input_packet'' \<mapsto> [(T_DICTIONARY, ''packet''), (T_STRING, ''viewer_id'')],
      ''signaling_message'' \<mapsto> [(T_STRING, ''viewer_id''), (T_STRING, ''data'')],
      ''error_code'' \<mapsto> [(T_INT, ''code''), (T_STRING, ''message'')],
      ''streaming_started'' \<mapsto> [(T_INT, ''viewer_count'')]]"


section \<open>Starting, streaming and queries\<close>

definition godot_get_signaling_url :: "godot_cpp \<Rightarrow> build \<Rightarrow> binding \<Rightarrow> gstring" where
  "godot_get_signaling_url gd b g =
     string_new gd (cstr (the (snd (nearcade_get_signaling_url b (Some (zeroed 256)) 256 (core g)))))"

definition godot_get_lan_ip :: "godot_cpp \<Rightarrow> binding \<Rightarrow> gstring" where
  "godot_get_lan_ip gd g = string_new gd (cstr (the (snd (nearcade_get_lan_ip (Some (zeroed 64)) 64 (core g)))))"

definition godot_get_pin :: "godot_cpp \<Rightarrow> binding \<Rightarrow> gstring" where
  "godot_get_pin gd g = string_new gd (cstr (the (snd (nearcade_get_pin (Some (zeroed 8)) 8 (core g)))))"

definition config_of :: "godot_cpp \<Rightarrow> dictionary \<Rightarrow> nearcade_config" where
  "config_of gd cfg =
     (let c = NEARCADE_DEFAULT_CONFIG;
          c = (case map_of cfg ''port'' of Some v \<Rightarrow> c\<lparr>port := variant_int gd v\<rparr> | None \<Rightarrow> c);
          c = (case map_of cfg ''screen_width'' of Some v \<Rightarrow> c\<lparr>screen_width := variant_int gd v\<rparr> | None \<Rightarrow> c);
          c = (case map_of cfg ''screen_height'' of Some v \<Rightarrow> c\<lparr>screen_height := variant_int gd v\<rparr> | None \<Rightarrow> c);
          c = (case map_of cfg ''max_bitrate'' of Some v \<Rightarrow> c\<lparr>max_bitrate := variant_int gd v\<rparr> | None \<Rightarrow> c);
          c = (case map_of cfg ''fps'' of Some v \<Rightarrow> c\<lparr>fps := variant_int gd v\<rparr> | None \<Rightarrow> c)
      in (case map_of cfg ''enable_audio'' of Some v \<Rightarrow> c\<lparr>enable_audio := variant_int gd v\<rparr> | None \<Rightarrow> c))"

definition godot_init ::
    "godot_cpp \<Rightarrow> build \<Rightarrow> evdev_abi \<Rightarrow> init_env \<Rightarrow> dictionary \<Rightarrow> nat \<Rightarrow> binding \<Rightarrow> dictionary \<times> binding" where
  "godot_init gd b abi env cfg this g =
     (let (ret, g) = call_sdk (nearcade_init b abi env (Some (config_of gd cfg))) (on_object this g);
          g = (if ret = NEARCADE_OK
               then snd (call_sdk (nearcade_set_event_callback event_callback_addr this) g) else g)
      in ([(''result'', V_INT (error_code ret)),
           (''lan_ip'', V_STRING (godot_get_lan_ip gd g)),
           (''pin'', V_STRING (godot_get_pin gd g)),
           (''signaling_url'', V_STRING (godot_get_signaling_url gd b g))], g))"

definition godot_start_streaming :: "nat \<Rightarrow> binding \<Rightarrow> nearcade_error \<times> binding" where
  "godot_start_streaming this g = call_sdk nearcade_start_streaming (on_object this g)"

definition godot_stop_streaming :: "nat \<Rightarrow> binding \<Rightarrow> nearcade_error \<times> binding" where
  "godot_stop_streaming this g = call_sdk nearcade_stop_streaming (on_object this g)"

definition godot_start_capture :: "build \<Rightarrow> capture_env \<Rightarrow> nat \<Rightarrow> binding \<Rightarrow> nearcade_error \<times> binding" where
  "godot_start_capture b env this g = call_sdk (nearcade_start_capture b env) (on_object this g)"

definition godot_stop_capture :: "build \<Rightarrow> capture_env \<Rightarrow> nat \<Rightarrow> binding \<Rightarrow> nearcade_error \<times> binding" where
  "godot_stop_capture b env this g = call_sdk (nearcade_stop_capture b env) (on_object this g)"

text \<open>The pointer of an empty array may be null; the SDK refuses it either way.\<close>

definition godot_send_h264 :: "8 word list \<Rightarrow> nat \<Rightarrow> binding \<Rightarrow> nearcade_error \<times> binding" where
  "godot_send_h264 data this g = call_sdk (nearcade_send_h264 (Some data)) (on_object this g)"

definition godot_send_frame ::
    "8 word list \<Rightarrow> int \<Rightarrow> int \<Rightarrow> int \<Rightarrow> nat \<Rightarrow> binding \<Rightarrow> nearcade_error \<times> binding" where
  "godot_send_frame data width height fmt this g =
     call_sdk (nearcade_send_frame (Some data) width height (pixel_format_of fmt)) (on_object this g)"

definition godot_shutdown :: "build \<Rightarrow> capture_env \<Rightarrow> nat \<Rightarrow> binding \<Rightarrow> binding" where
  "godot_shutdown b env this g = snd (call_sdk (\<lambda>s. ((), nearcade_shutdown b env s)) (on_object this g))"

definition godot_regenerate_pin :: "nat \<Rightarrow> nat \<Rightarrow> binding \<Rightarrow> nearcade_error \<times> binding" where
  "godot_regenerate_pin r this g = call_sdk (nearcade_regenerate_pin r) (on_object this g)"


section \<open>Input and viewers\<close>

text \<open>\<open>pkt.has(key) ? (T)(int)pkt[key] : d\<close> for an integer type \<open>T\<close>.\<close>

definition field_of :: "godot_cpp \<Rightarrow> dictionary \<Rightarrow> string \<Rightarrow> 'a::len word \<Rightarrow> 'a word" where
  "field_of gd pkt key d = (case map_of pkt key of Some v \<Rightarrow> word_of_int (variant_int gd v) | None \<Rightarrow> d)"

definition packet_of :: "godot_cpp \<Rightarrow> dictionary \<Rightarrow> nearcade_gamepad_packet" where
  "packet_of gd pkt =
     \<lparr>pkt_type = field_of gd pkt ''type'' 0x01,
      lx = field_of gd pkt ''lx'' 0, ly = field_of gd pkt ''ly'' 0,
      rx = field_of gd pkt ''rx'' 0, ry = field_of gd pkt ''ry'' 0,
      lt = field_of gd pkt ''lt'' 0, rt = field_of gd pkt ''rt'' 0,
      buttons = field_of gd pkt ''buttons'' 0,
      hx = field_of gd pkt ''hx'' 0, hy = field_of gd pkt ''hy'' 0,
      pkt_slot = field_of gd pkt ''slot'' 0\<rparr>"

definition godot_submit_gamepad ::
    "godot_cpp \<Rightarrow> build \<Rightarrow> dictionary \<Rightarrow> nat \<Rightarrow> binding \<Rightarrow> nearcade_error \<times> binding" where
  "godot_submit_gamepad gd b pkt this g =
     call_sdk (nearcade_submit_gamepad b (Some (packet_of gd pkt))) (on_object this g)"

text \<open>\<open>s.utf8().get_data()\<close> as the C function reads it.\<close>

definition get_data :: "godot_cpp \<Rightarrow> gstring \<Rightarrow> string option" where
  "get_data gd s = Some (cstr (utf8 gd s @ [NUL]))"

definition godot_submit_kbm ::
    "godot_cpp \<Rightarrow> build \<Rightarrow> evdev_abi \<Rightarrow> gstring \<Rightarrow> gstring \<Rightarrow> gstring \<Rightarrow> int \<Rightarrow> int \<Rightarrow> nat \<Rightarrow> binding
     \<Rightarrow> nearcade_error \<times> binding" where
  "godot_submit_kbm gd b abi vid et k dx dy this g =
     call_sdk (nearcade_submit_kbm b abi (get_data gd vid) (get_data gd et) (get_data gd k) dx dy)
       (on_object this g)"

definition godot_flush_slot :: "build \<Rightarrow> int \<Rightarrow> nat \<Rightarrow> binding \<Rightarrow> nearcade_error \<times> binding" where
  "godot_flush_slot b slot this g = call_sdk (nearcade_flush_slot b (word_of_int slot)) (on_object this g)"

definition godot_disconnect_viewer ::
    "godot_cpp \<Rightarrow> build \<Rightarrow> gstring \<Rightarrow> nat \<Rightarrow> binding \<Rightarrow> nearcade_error \<times> binding" where
  "godot_disconnect_viewer gd b vid this g =
     call_sdk (nearcade_disconnect_viewer b (get_data gd vid)) (on_object this g)"


section \<open>Polling\<close>

definition packet_dict :: "nearcade_gamepad_packet \<Rightarrow> dictionary" where
  "packet_dict p =
     [(''type'', V_INT (uint (pkt_type p))),
      (''lx'', V_INT (sint (lx p))), (''ly'', V_INT (sint (ly p))),
      (''rx'', V_INT (sint (rx p))), (''ry'', V_INT (sint (ry p))),
      (''lt'', V_INT (uint (lt p))), (''rt'', V_INT (uint (rt p))),
      (''buttons'', V_INT (uint (buttons p))),
      (''hx'', V_INT (sint (hx p))), (''hy'', V_INT (sint (hy p))),
      (''slot'', V_INT (uint (pkt_slot p)))]"

text \<open>\<open>String(buf)\<close> as a \<open>Variant\<close>.\<close>

definition V_cstr :: "godot_cpp \<Rightarrow> cbuf \<Rightarrow> variant" where
  "V_cstr gd buf = V_STRING (string_new gd (cstr buf))"

text \<open>The switch over the kind of an event: what is put into the dictionary beside \<open>type\<close>, and the
  signal emitted with its arguments.\<close>

fun event_fields :: "godot_cpp \<Rightarrow> nearcade_event \<Rightarrow> dictionary \<times> (string \<times> variant list) option" where
  "event_fields gd (NEARCADE_EVENT_VIEWER_JOINED vid name) =
     ([(''viewer_id'', V_cstr gd vid), (''name'', V_cstr gd name)],
      Some (''viewer_joined'', [V_cstr gd vid, V_cstr gd name]))"
| "event_fields gd (NEARCADE_EVENT_VIEWER_LEFT vid) =
     ([(''viewer_id'', V_cstr gd vid)], Some (''viewer_left'', [V_cstr gd vid]))"
| "event_fields gd (NEARCADE_EVENT_INPUT_PACKET p vid) =
     ([(''packet'', V_DICTIONARY (packet_dict p)), (''viewer_id'', V_cstr gd vid)],
      Some (''input_packet'', [V_DICTIONARY (packet_dict p), V_cstr gd vid]))"
| "event_fields gd (NEARCADE_EVENT_SIGNALING vid data) =
     ([(''viewer_id'', V_cstr gd vid), (''data'', V_cstr gd data)],
      Some (''signaling_message'', [V_cstr gd vid, V_cstr gd data]))"
| "event_fields gd (NEARCADE_EVENT_ERROR code message) =
     ([(''code'', V_INT code), (''message'', V_cstr gd message)],
      Some (''error_code'', [V_INT code, V_cstr gd message]))"
| "event_fields gd (NEARCADE_EVENT_STREAMING viewer_count) =
     ([(''viewer_count'', V_INT viewer_count)], Some (''streaming_started'', [V_INT viewer_count]))"
| "event_fields gd (NEARCADE_EVENT_RUMBLE _ _ _ _) = ([], None)"

definition event_dict :: "godot_cpp \<Rightarrow> nearcade_event \<Rightarrow> dictionary" where
  "event_dict gd ev = (''type'', V_INT (event_type ev)) # fst (event_fields gd ev)"

definition emit_signal :: "nat \<Rightarrow> (string \<times> variant list) option \<Rightarrow> binding \<Rightarrow> binding" where
  "emit_signal this sg g =
     (case sg of None \<Rightarrow> g | Some (name, args) \<Rightarrow> g\<lparr>emitted := emitted g @ [(this, name, args)]\<rparr>)"

definition godot_poll_event :: "godot_cpp \<Rightarrow> nat \<Rightarrow> binding \<Rightarrow> dictionary \<times> binding" where
  "godot_poll_event gd this g =
     (case objects g this of
        None \<Rightarrow> ([], g\<lparr>stale := True\<rparr>)
      | Some self \<Rightarrow>
          let (qe, self) = take_event self;
              g = g\<lparr>objects := (objects g)(this \<mapsto> self)\<rparr>
          in (case qe of
                None \<Rightarrow> ([], g)
              | Some ev \<Rightarrow> (event_dict gd ev, emit_signal this (snd (event_fields gd ev)) g)))"

text \<open>The loop of \<open>demo/main.gd\<close>: \<open>_process\<close> polls until the dictionary is empty. \<open>seen\<close> are
  the dictionaries it looked at. The loop is a partial function: \<open>None\<close> would be a loop that
  does not end.\<close>

partial_function (option) drain ::
    "godot_cpp \<Rightarrow> nat \<Rightarrow> dictionary list \<Rightarrow> binding \<Rightarrow> (dictionary list \<times> binding) option" where
  "drain gd this seen g =
     (let (ev, g) = godot_poll_event gd this g in
      if ev = [] then Some (seen, g) else drain gd this (seen @ [ev]) g)"


section \<open>Specification\<close>

text \<open>What the binding relies on: a \<open>Variant\<close> that holds a 32-bit integer converts to it.\<close>

definition int_variants :: "godot_cpp \<Rightarrow> bool" where
  "int_variants gd \<longleftrightarrow> (\<forall>i. - (2 ^ 31) \<le> i \<and> i < 2 ^ 31 \<longrightarrow> variant_int gd (V_INT i) = i)"

text \<open>An instance, for the witnesses: Latin-1 text, and 0 for what is not an integer.\<close>

definition gd_latin1 :: godot_cpp where
  "gd_latin1 =
     \<lparr>string_new = map of_char, utf8 = map char_of, variant_int = (\<lambda>v. case v of V_INT i \<Rightarrow> i | _ \<Rightarrow> 0)\<rparr>"

fun has_type :: "variant \<Rightarrow> variant_type \<Rightarrow> bool" where
  "has_type (V_INT _) t = (t = T_INT)"
| "has_type (V_STRING _) t = (t = T_STRING)"
| "has_type (V_DICTIONARY _) t = (t = T_DICTIONARY)"
| "has_type (V_OTHER _) t = False"

definition queue_inv :: "NearcadeSDK \<Rightarrow> bool" where
  "queue_inv self \<longleftrightarrow> queue_mutex self = Unlocked \<and> length (event_queue self) \<le> EVENT_QUEUE_MAX"

text \<open>Events arriving at and polls of one object, in any order, with the dictionaries the
  polls return.\<close>

fun run_object ::
    "godot_cpp \<Rightarrow> nat \<Rightarrow> nearcade_event queue_op list \<Rightarrow> binding \<Rightarrow> dictionary list \<times> binding" where
  "run_object gd this [] g = ([], g)"
| "run_object gd this (Put ev # ops) g = run_object gd this ops (godot_event_callback (Some ev) this g)"
| "run_object gd this (Get # ops) g =
     (let (d, g) = godot_poll_event gd this g; (ds, g) = run_object gd this ops g in (d # ds, g))"

definition signals_of :: "godot_cpp \<Rightarrow> nat \<Rightarrow> nearcade_event list \<Rightarrow> (nat \<times> string \<times> variant list) list" where
  "signals_of gd this evs = concat (map (\<lambda>ev. case snd (event_fields gd ev) of
     None \<Rightarrow> [] | Some (name, args) \<Rightarrow> [(this, name, args)]) evs)"


section \<open>Facts\<close>

lemma event_dict_not_Nil [simp]: "event_dict gd ev \<noteq> []"
  by (simp add: event_dict_def)

lemma lock_queue_cycle: "queue_mutex self = Unlocked \<Longrightarrow> unlock_queue (lock_queue self) = self"
  by (simp add: lock_queue_def unlock_queue_def)

lemma queue_event_eq:
  "queue_mutex self = Unlocked \<Longrightarrow> queue_event ev self =
     (if length (event_queue self) < EVENT_QUEUE_MAX
      then self\<lparr>event_queue := event_queue self @ [ev]\<rparr> else self)"
  by (simp add: queue_event_def lock_queue_def unlock_queue_def)

lemma take_event_eq:
  "queue_mutex self = Unlocked \<Longrightarrow> take_event self =
     (case event_queue self of [] \<Rightarrow> (None, self) | qe # rest \<Rightarrow> (Some qe, self\<lparr>event_queue := rest\<rparr>))"
  by (auto simp: take_event_def lock_queue_def unlock_queue_def split: list.split)

text \<open>The queue of an object is a bounded buffer of 256 events.\<close>

interpretation eq: bounded_fifo event_queue queue_event take_event queue_inv EVENT_QUEUE_MAX
  by unfold_locales
    (auto simp: queue_inv_def queue_event_eq take_event_eq split: list.split)

lemma poll_event_eq:
  assumes "objects g this = Some self" and "queue_inv self"
  shows "godot_poll_event gd this g =
    (case event_queue self of
       [] \<Rightarrow> ([], g)
     | ev # rest \<Rightarrow> (event_dict gd ev,
         g\<lparr>objects := (objects g)(this \<mapsto> self\<lparr>event_queue := rest\<rparr>),
           emitted := emitted g @ signals_of gd this [ev]\<rparr>))"
proof -
  have same: "g\<lparr>objects := (objects g)(this \<mapsto> self)\<rparr> = g"
    using assms(1) by (simp add: fun_upd_idem)
  show ?thesis
    using assms same
    by (auto simp: godot_poll_event_def take_event_eq queue_inv_def emit_signal_def signals_of_def
        split: list.split option.split)
qed

lemma callback_eq:
  assumes "objects g this = Some self" and "this \<noteq> 0"
  shows "godot_event_callback (Some ev) this g = g\<lparr>objects := (objects g)(this \<mapsto> queue_event ev self)\<rparr>"
  using assms by (simp add: godot_event_callback_def)

lemma run_object_queue:
  assumes "objects g this = Some self" and "queue_inv self" and "this \<noteq> 0"
  shows "fst (run_object gd this ops g) =
      map (\<lambda>r. case r of None \<Rightarrow> [] | Some ev \<Rightarrow> event_dict gd ev) (fst (run_queue queue_event take_event ops self))
    \<and> objects (snd (run_object gd this ops g)) =
      (objects g)(this \<mapsto> snd (run_queue queue_event take_event ops self))
    \<and> stale (snd (run_object gd this ops g)) = stale g
    \<and> core (snd (run_object gd this ops g)) = core g"
  using assms
proof (induction ops arbitrary: g self rule: puts.induct)
  case 1
  then show ?case by (simp add: fun_upd_idem)
next
  case (2 ev ops)
  let ?g = "g\<lparr>objects := (objects g)(this \<mapsto> queue_event ev self)\<rparr>"
  show ?case
    using "2.IH"[of ?g "queue_event ev self"] eq.put_inv[OF "2.prems"(2)] callback_eq[OF "2.prems"(1,3)]
      "2.prems"(3) by (simp cong: if_cong)
next
  case (3 ops)
  have inv: "queue_inv (snd (take_event self))" by (rule eq.get_inv[OF "3.prems"(2)])
  show ?case
  proof (cases "event_queue self")
    case Nil
    then show ?thesis
      using "3.IH"[OF "3.prems"] poll_event_eq[OF "3.prems"(1,2)] "3.prems"(2)
      by (simp add: split_beta Let_def take_event_eq queue_inv_def)
  next
    case (Cons ev rest)
    let ?g = "g\<lparr>objects := (objects g)(this \<mapsto> self\<lparr>event_queue := rest\<rparr>),
           emitted := emitted g @ signals_of gd this [ev]\<rparr>"
    show ?thesis
      using "3.IH"[of ?g "self\<lparr>event_queue := rest\<rparr>"] poll_event_eq[OF "3.prems"(1,2)] Cons "3.prems" inv
      by (simp add: split_beta Let_def take_event_eq queue_inv_def cong: if_cong)
  qed
qed

lemma filter_polled:
  "filter (\<lambda>d. d \<noteq> []) (map (\<lambda>r. case r of None \<Rightarrow> [] | Some ev \<Rightarrow> event_dict gd ev) rs) = map (event_dict gd) (got rs)"
  by (induction rs rule: got.induct) simp_all

lemma word_of_int_sint_uint [simp]:
  "word_of_int (sint (w :: 'a::len word)) = w" "word_of_int (uint w) = w"
  by simp_all

lemma sint_small:
  "- (2 ^ 31) \<le> sint (w :: 8 word) \<and> sint w < 2 ^ 31" "- (2 ^ 31) \<le> sint (v :: 16 word) \<and> sint v < 2 ^ 31"
  using sint_ge[of w] sint_lt[of w] sint_ge[of v] sint_lt[of v] by simp_all

lemma uint_small:
  "- (2 ^ 31) \<le> uint (w :: 8 word) \<and> uint w < 2 ^ 31" "- (2 ^ 31) \<le> uint (v :: 16 word) \<and> uint v < 2 ^ 31"
  using uint_lt2p[of w] uint_lt2p[of v]
  by (simp_all add: order_trans[OF _ uint_ge_0])

lemma packet_of_packet_dict:
  assumes "int_variants gd"
  shows "packet_of gd (packet_dict p) = p"
proof -
  have conv: "variant_int gd (V_INT i) = i" if "- (2 ^ 31) \<le> i \<and> i < 2 ^ 31" for i
    using assms that by (simp add: int_variants_def)
  note small = conv[OF sint_small(1)] conv[OF sint_small(2)] conv[OF uint_small(1)] conv[OF uint_small(2)]
  show ?thesis by (simp add: packet_of_def packet_dict_def field_of_def small)
qed

lemma drain_all:
  assumes "objects g this = Some self" and "queue_inv self"
  shows "drain gd this seen g = Some (seen @ map (event_dict gd) (event_queue self),
    g\<lparr>objects := (objects g)(this \<mapsto> self\<lparr>event_queue := []\<rparr>),
      emitted := emitted g @ signals_of gd this (event_queue self)\<rparr>)"
  using assms
proof (induction "event_queue self" arbitrary: g self seen)
  case Nil
  have "self\<lparr>event_queue := []\<rparr> = self" using Nil(1) by simp
  then show ?case
    using Nil poll_event_eq[OF Nil(2,3), of gd]
    by (subst drain.simps) (simp add: signals_of_def fun_upd_idem)
next
  case (Cons ev rest)
  let ?self = "self\<lparr>event_queue := rest\<rparr>"
  let ?g = "g\<lparr>objects := (objects g)(this \<mapsto> ?self), emitted := emitted g @ signals_of gd this [ev]\<rparr>"
  have q: "event_queue self = ev # rest" using Cons(2) by simp
  have poll: "godot_poll_event gd this g = (event_dict gd ev, ?g)"
    using poll_event_eq[OF Cons(3,4), of gd] q by simp
  have "drain gd this (seen @ [event_dict gd ev]) ?g = Some ((seen @ [event_dict gd ev]) @ map (event_dict gd) rest,
      ?g\<lparr>objects := (objects ?g)(this \<mapsto> ?self\<lparr>event_queue := []\<rparr>),
        emitted := emitted ?g @ signals_of gd this rest\<rparr>)"
    using Cons(1)[of ?self ?g "seen @ [event_dict gd ev]"] Cons(4) q by (simp add: queue_inv_def)
  then show ?case
    by (subst drain.simps) (simp add: poll q signals_of_def)
qed

lemma signals_typed:
  "case snd (event_fields gd ev) of
     None \<Rightarrow> event_type ev = 3
   | Some (name, args) \<Rightarrow> \<exists>ps. declared_signals name = Some ps
       \<and> list_all2 (\<lambda>v p. has_type v (fst p)) args ps
       \<and> args = map (\<lambda>p. the (map_of (event_dict gd ev) (snd p))) ps"
  by (cases ev) (simp_all add: declared_signals_def event_dict_def V_cstr_def)

lemma call_sdk_quiet:
  assumes "delivered (snd (f (core g))) = delivered (core g)"
  shows "call_sdk f g = (fst (f (core g)), g\<lparr>core := snd (f (core g))\<rparr>)"
  using assms by (simp add: call_sdk_def split_beta Let_def)

lemma on_object_live [simp]: "objects g this \<noteq> None \<Longrightarrow> on_object this g = g"
  by (auto simp: on_object_def)

lemma int_variants_latin1: "int_variants gd_latin1"
  by (simp add: int_variants_def gd_latin1_def)

lemma godot_new_live: "objects (godot_new this g) this = Some \<lparr>event_queue = [], queue_mutex = Unlocked\<rparr>"
  by (simp add: godot_new_def Let_def)

text \<open>The engine runs the initialiser for its levels from the lowest registered one upwards and the
  terminator downwards: loading the module creates one object, the singleton, and unloading it
  destroys that object.\<close>

lemma module_lifecycle:
  fixes b :: build and env :: capture_env and addr :: nat
  defines "ext \<equiv> snd (nearcade_godot_init True)"
  defines "loaded \<equiv> fold (\<lambda>l. gi_initializer ext l addr)
      [gi_minimum_level ext, MODULE_INITIALIZATION_LEVEL_EDITOR] binding_static"
  assumes "addr \<noteq> 0"
  shows "objects loaded = [addr \<mapsto> \<lparr>event_queue = [], queue_mutex = Unlocked\<rparr>]"
    and "godot_get_singleton loaded = addr"
    and "fold (gi_terminator ext b env) [MODULE_INITIALIZATION_LEVEL_EDITOR, gi_minimum_level ext] loaded =
      binding_static\<lparr>class_registered := True\<rparr>"
  using assms(3)
  by (simp_all add: ext_def loaded_def nearcade_godot_init_def initialize_nearcade_module_def
      uninitialize_nearcade_module_def godot_new_def godot_delete_def godot_get_singleton_def binding_static_def
      on_object_def call_sdk_def nearcade_shutdown_def sdk_static_def zero_state_def Let_def)

lemma callback_new:
  assumes "this \<noteq> 0"
  shows "objects (godot_event_callback (Some ev) this (godot_new this g)) this =
    Some \<lparr>event_queue = [ev], queue_mutex = Unlocked\<rparr>"
  using callback_eq[OF godot_new_live assms, of ev g] by (simp add: queue_event_eq EVENT_QUEUE_MAX_def)


section \<open>Properties\<close>

text \<open>
  The event queue of the Godot binding is a bounded first-in first-out buffer. Whatever the
  order in which events arrive and the script polls, the dictionaries polled are those of the
  events that were queued, each once and in order of arrival; only events are dropped that
  arrive while 256 are waiting, so none is when the script keeps up; no other object is touched,
  the mutex is free afterwards and at most 256 events wait.
\<close>

lemma godot_queue_fifo:
  assumes "objects g this = Some self" and "queue_inv self" and "this \<noteq> 0"
    and "run_object gd this ops g = (ds, g')"
  shows "\<exists>kept polled self'.
    filter (\<lambda>d. d \<noteq> []) ds = map (event_dict gd) polled
    \<and> event_queue self @ kept = polled @ event_queue self'
    \<and> subseq kept (puts ops)
    \<and> (fits 256 (length (event_queue self)) ops \<longrightarrow> kept = puts ops)
    \<and> objects g' = (objects g)(this \<mapsto> self')
    \<and> queue_mutex self' = Unlocked \<and> length (event_queue self') \<le> 256"
proof -
  let ?rs = "fst (run_queue queue_event take_event ops self)"
  let ?self' = "snd (run_queue queue_event take_event ops self)"
  have res: "filter (\<lambda>d. d \<noteq> []) ds = map (event_dict gd) (got ?rs)" "objects g' = (objects g)(this \<mapsto> ?self')"
    using run_object_queue[OF assms(1-3), of gd ops] assms(4) by (simp_all only: fst_conv snd_conv filter_polled)
  have inv: "queue_mutex ?self' = Unlocked" "length (event_queue ?self') \<le> 256"
    using eq.run_inv[OF assms(2), of ops] by (simp_all add: queue_inv_def EVENT_QUEUE_MAX_def)
  obtain kept where kept: "subseq kept (puts ops)" "event_queue self @ kept = got ?rs @ event_queue ?self'"
    using eq.run_order[OF assms(2), of ops] by blast
  moreover have "kept = puts ops" if "fits 256 (length (event_queue self)) ops"
    using eq.run_lossless[OF assms(2)] that kept(2) by (metis EVENT_QUEUE_MAX_def same_append_eq)
  ultimately show ?thesis using res inv by blast
qed

text \<open>
  A gamepad packet survives the way through a script: the dictionary \<open>poll_event\<close> makes of a
  packet and \<open>submit_gamepad\<close> takes apart again gives the packet back, field by field and sign
  included, so that submitting it is the C call with the original packet.
\<close>

lemma packet_dictionary_round_trip:
  assumes "int_variants gd" and "objects g this \<noteq> None"
  shows "packet_of gd (packet_dict p) = p
    \<and> godot_submit_gamepad gd b (packet_dict p) this g = call_sdk (nearcade_submit_gamepad b (Some p)) g"
  using packet_of_packet_dict[OF assms(1)] assms(2) by (simp add: godot_submit_gamepad_def)

text \<open>
  C31. Polling is well typed: the signal \<open>poll_event\<close> emits is one that \<open>_bind_methods\<close> declares, with as
  many arguments as declared, each of the declared type and equal to the entry of that name in the
  returned dictionary. Rumble events alone emit none.
\<close>

theorem polled_signals_declared:
  assumes "objects g this = Some self" and "queue_mutex self = Unlocked" and "event_queue self = ev # rest"
  shows "fst (godot_poll_event gd this g) = event_dict gd ev
    \<and> (emitted (snd (godot_poll_event gd this g)) = emitted g \<and> event_type ev = 3
      \<or> (\<exists>name args ps. emitted (snd (godot_poll_event gd this g)) = emitted g @ [(this, name, args)]
          \<and> declared_signals name = Some ps \<and> list_all2 (\<lambda>v p. has_type v (fst p)) args ps
          \<and> args = map (\<lambda>p. the (map_of (event_dict gd ev) (snd p))) ps))"
  using assms signals_typed[where gd = gd and ev = ev]
  by (auto simp: godot_poll_event_def take_event_eq emit_signal_def split: option.splits)

theorem polled_signals_declared_witness:
  "fst (godot_poll_event gd_latin1 1 (godot_event_callback (Some (NEARCADE_EVENT_ERROR (-6) ''x'')) 1
     (godot_new 1 binding_static))) = event_dict gd_latin1 (NEARCADE_EVENT_ERROR (-6) ''x'')"
  using polled_signals_declared[OF callback_new] by simp



end
