(* ===== verification/Godot_Runs.thy ===== *)
theory Godot_Runs
  imports Sdk_Events Godot
begin

text \<open>
  Whole runs of the Godot binding: objects made and destroyed, every bound method called on them,
  and the callbacks of the two libraries in between, in any order. A run of the binding is a run of
  the SDK underneath, so that what \<open>Sdk_Runs\<close> shows of those holds for a game that uses the
  binding; and the callback never reaches an object that is gone.
\<close>

datatype godot_step =
    G_initialize initialization_level nat
  | G_uninitialize capture_env initialization_level
  | G_new nat
  | G_delete capture_env nat
  | G_init init_env dictionary nat
  | G_start_streaming nat
  | G_stop_streaming nat
  | G_start_capture capture_env nat
  | G_stop_capture capture_env nat
  | G_send_h264 "8 word list" nat
  | G_send_frame "8 word list" int int int nat
  | G_shutdown capture_env nat
  | G_regenerate_pin nat nat
  | G_submit_gamepad dictionary nat
  | G_submit_kbm gstring gstring gstring int int nat
  | G_flush_slot int nat
  | G_disconnect_viewer gstring nat
  | G_poll_event nat
  | G_background sdk_step

text \<open>A callback of libwebsockets or libdatachannel on its own thread.\<close>

definition background :: "build \<Rightarrow> evdev_abi \<Rightarrow> sdk_step \<Rightarrow> binding \<Rightarrow> binding" where
  "background b abi p g = snd (call_sdk (\<lambda>s. ((), exec_step b abi p s)) g)"

fun exec_godot :: "godot_cpp \<Rightarrow> build \<Rightarrow> evdev_abi \<Rightarrow> godot_step \<Rightarrow> binding \<Rightarrow> binding" where
  "exec_godot gd b abi (G_initialize level addr) g = initialize_nearcade_module level addr g"
| "exec_godot gd b abi (G_uninitialize env level) g = uninitialize_nearcade_module b env level g"
| "exec_godot gd b abi (G_new this) g = godot_new this g"
| "exec_godot gd b abi (G_delete env this) g = godot_delete b env this g"
| "exec_godot gd b abi (G_init env cfg this) g = snd (godot_init gd b abi env cfg this g)"
| "exec_godot gd b abi (G_start_streaming this) g = snd (godot_start_streaming this g)"
| "exec_godot gd b abi (G_stop_streaming this) g = snd (godot_stop_streaming this g)"
| "exec_godot gd b abi (G_start_capture env this) g = snd (godot_start_capture b env this g)"
| "exec_godot gd b abi (G_stop_capture env this) g = snd (godot_stop_capture b env this g)"
| "exec_godot gd b abi (G_send_h264 d this) g = snd (godot_send_h264 d this g)"
| "exec_godot gd b abi (G_send_frame d w h fmt this) g = snd (godot_send_frame d w h fmt this g)"
| "exec_godot gd b abi (G_shutdown env this) g = godot_shutdown b env this g"
| "exec_godot gd b abi (G_regenerate_pin r this) g = snd (godot_regenerate_pin r this g)"
| "exec_godot gd b abi (G_submit_gamepad pkt this) g = snd (godot_submit_gamepad gd b pkt this g)"
| "exec_godot gd b abi (G_submit_kbm vid et k dx dy this) g = snd (godot_submit_kbm gd b abi vid et k dx dy this g)"
| "exec_godot gd b abi (G_flush_slot slot this) g = snd (godot_flush_slot b slot this g)"
| "exec_godot gd b abi (G_disconnect_viewer vid this) g = snd (godot_disconnect_viewer gd b vid this g)"
| "exec_godot gd b abi (G_poll_event this) g = snd (godot_poll_event gd this g)"
| "exec_godot gd b abi (G_background p) g = background b abi p g"

text \<open>The call of the SDK a step makes first.\<close>

fun sdk_step_of :: "godot_cpp \<Rightarrow> binding \<Rightarrow> godot_step \<Rightarrow> sdk_step option" where
  "sdk_step_of gd g (G_delete env this) = Some (S_shutdown env)"
| "sdk_step_of gd g (G_uninitialize env level) =
     (if level = MODULE_INITIALIZATION_LEVEL_SCENE \<and> singleton g \<noteq> 0 then Some (S_shutdown env) else None)"
| "sdk_step_of gd g (G_init env cfg this) = Some (S_init env (Some (config_of gd cfg)))"
| "sdk_step_of gd g (G_start_streaming this) = Some S_start_streaming"
| "sdk_step_of gd g (G_stop_streaming this) = Some S_stop_streaming"
| "sdk_step_of gd g (G_start_capture env this) = Some (S_start_capture env)"
| "sdk_step_of gd g (G_stop_capture env this) = Some (S_stop_capture env)"
| "sdk_step_of gd g (G_send_h264 d this) = Some (S_send_h264 (Some d))"
| "sdk_step_of gd g (G_shutdown env this) = Some (S_shutdown env)"
| "sdk_step_of gd g (G_regenerate_pin r this) = Some (S_regenerate_pin r)"
| "sdk_step_of gd g (G_submit_gamepad pkt this) = Some (S_submit_gamepad (Some (packet_of gd pkt)))"
| "sdk_step_of gd g (G_submit_kbm vid et k dx dy this) =
     Some (S_submit_kbm (get_data gd vid) (get_data gd et) (get_data gd k) dx dy)"
| "sdk_step_of gd g (G_flush_slot slot this) = Some (S_flush_slot (word_of_int slot))"
| "sdk_step_of gd g (G_disconnect_viewer vid this) = Some (S_disconnect_viewer (get_data gd vid))"
| "sdk_step_of gd g (G_background p) = Some p"
| "sdk_step_of gd g _ = None"

fun receiver :: "godot_step \<Rightarrow> nat option" where
  "receiver (G_initialize level addr) = None"
| "receiver (G_uninitialize env level) = None"
| "receiver (G_new this) = None"
| "receiver (G_delete env this) = Some this"
| "receiver (G_init env cfg this) = Some this"
| "receiver (G_start_streaming this) = Some this"
| "receiver (G_stop_streaming this) = Some this"
| "receiver (G_start_capture env this) = Some this"
| "receiver (G_stop_capture env this) = Some this"
| "receiver (G_send_h264 d this) = Some this"
| "receiver (G_send_frame d w h fmt this) = Some this"
| "receiver (G_shutdown env this) = Some this"
| "receiver (G_regenerate_pin r this) = Some this"
| "receiver (G_submit_gamepad pkt this) = Some this"
| "receiver (G_submit_kbm vid et k dx dy this) = Some this"
| "receiver (G_flush_slot slot this) = Some this"
| "receiver (G_disconnect_viewer vid this) = Some this"
| "receiver (G_poll_event this) = Some this"
| "receiver (G_background p) = None"

text \<open>The steps of the library threads.\<close>

fun is_background :: "sdk_step \<Rightarrow> bool" where
  "is_background (S_lws env wsi reason) = True"
| "is_background (S_state_change i st) = True"
| "is_background (S_local_description env i t d) = True"
| "is_background (S_local_candidate env i d) = True"
| "is_background (S_input_message m) = True"
| "is_background _ = False"

text \<open>
  When a step can happen: \<open>memnew\<close> returns memory that is not in use, scripts call methods of
  objects that exist, and the SDK is called as \<open>step_ok\<close> says.
\<close>

definition godot_ok :: "godot_cpp \<Rightarrow> build \<Rightarrow> godot_step \<Rightarrow> binding \<Rightarrow> bool" where
  "godot_ok gd b p g \<longleftrightarrow>
     (case p of
        G_initialize level addr \<Rightarrow> addr \<noteq> 0 \<and> objects g addr = None
      | G_new this \<Rightarrow> this \<noteq> 0 \<and> objects g this = None
      | G_background q \<Rightarrow> is_background q
      | _ \<Rightarrow> True)
     \<and> (case receiver p of Some this \<Rightarrow> objects g this \<noteq> None | None \<Rightarrow> True)
     \<and> (case sdk_step_of gd g p of Some q \<Rightarrow> step_ok b q (core g) | None \<Rightarrow> True)"

inductive godot_reachable :: "godot_cpp \<Rightarrow> build \<Rightarrow> evdev_abi \<Rightarrow> binding \<Rightarrow> bool" for gd b abi where
  load: "godot_reachable gd b abi binding_static"
| step: "godot_reachable gd b abi g \<Longrightarrow> godot_ok gd b p g \<Longrightarrow> godot_reachable gd b abi (exec_godot gd b abi p g)"


section \<open>Specification\<close>

definition object_inv :: "NearcadeSDK \<Rightarrow> bool" where
  "object_inv self \<longleftrightarrow> queue_inv self \<and> (\<forall>e\<in>set (event_queue self). event_wf e)"

definition objects_inv :: "binding \<Rightarrow> bool" where
  "objects_inv g \<longleftrightarrow> objects g 0 = None \<and> (\<forall>this self. objects g this = Some self \<longrightarrow> object_inv self)"

text \<open>The callback the SDK has, if it is the binding's, belongs to an object that exists.\<close>

definition callback_live :: "binding \<Rightarrow> bool" where
  "callback_live g \<longleftrightarrow>
     (event_cb (g_state (core g)) = event_callback_addr \<longrightarrow> objects g (event_cb_userdata (g_state (core g))) \<noteq> None)"

definition binding_inv :: "binding \<Rightarrow> bool" where
  "binding_inv g \<longleftrightarrow>
     \<not> stale g \<and> objects_inv g
     \<and> (singleton g \<noteq> 0 \<longrightarrow> objects g (singleton g) \<noteq> None)
     \<and> (running (g_state (core g)) \<longrightarrow> callback_live g)"

text \<open>The same objects exist in both states, and none was used in between that does not exist.\<close>

definition same_objects :: "binding \<Rightarrow> binding \<Rightarrow> bool" where
  "same_objects g g' \<longleftrightarrow> stale g' = stale g \<and> (\<forall>a. objects g' a = None \<longleftrightarrow> objects g a = None)"

text \<open>A run for the witnesses: the module is loaded and its object starts the SDK on Linux.\<close>

definition godot_started :: binding where
  "godot_started =
     exec_godot gd_latin1 linux_build linux_abi (G_init plain_env [] 1)
       (exec_godot gd_latin1 linux_build linux_abi (G_initialize MODULE_INITIALIZATION_LEVEL_SCENE 1) binding_static)"


section \<open>Facts\<close>

lemma call_back_fields [simp]:
  "core (call_back x g) = core g" "singleton (call_back x g) = singleton g" "emitted (call_back x g) = emitted g"
  by (cases x; simp add: call_back_def godot_event_callback_def split: option.split)+

lemma dispatch_fields [simp]:
  "core (fold call_back evs g) = core g" "singleton (fold call_back evs g) = singleton g"
  "emitted (fold call_back evs g) = emitted g"
  by (induction evs arbitrary: g) simp_all

lemma on_object_fields [simp]:
  "core (on_object this g) = core g" "singleton (on_object this g) = singleton g"
  "objects (on_object this g) = objects g"
  by (simp_all add: on_object_def)

lemma call_sdk_fields [simp]:
  "core (snd (call_sdk f g)) = snd (f (core g))" "singleton (snd (call_sdk f g)) = singleton g"
  "emitted (snd (call_sdk f g)) = emitted g" "fst (call_sdk f g) = fst (f (core g))"
  by (simp_all add: call_sdk_def split_beta Let_def)

lemmas godot_defs = godot_start_streaming_def godot_stop_streaming_def godot_start_capture_def
  godot_stop_capture_def godot_send_h264_def godot_send_frame_def godot_shutdown_def
  godot_regenerate_pin_def godot_submit_gamepad_def godot_submit_kbm_def godot_flush_slot_def
  godot_disconnect_viewer_def background_def

lemma poll_event_core [simp]: "core (snd (godot_poll_event gd this g)) = core g"
  by (simp add: godot_poll_event_def emit_signal_def split_beta Let_def split: option.split)

lemma godot_init_core:
  "core (snd (godot_init gd b abi env cfg this g)) =
    (let (r, s) = nearcade_init b abi env (Some (config_of gd cfg)) (core g) in
     if r = NEARCADE_OK then snd (nearcade_set_event_callback event_callback_addr this s) else s)"
  by (simp add: godot_init_def split_beta Let_def)

text \<open>What a step does to the SDK.\<close>

lemma exec_godot_core:
  "core (exec_godot gd b abi p g) =
    (case sdk_step_of gd g p of
       None \<Rightarrow> core g
     | Some q \<Rightarrow>
         let s = exec_step b abi q (core g) in
         case p of
           G_init env cfg this \<Rightarrow>
             if fst (nearcade_init b abi env (Some (config_of gd cfg)) (core g)) = NEARCADE_OK
             then exec_step b abi (S_set_event_callback event_callback_addr this) s else s
         | _ \<Rightarrow> s)"
  by (cases p) (simp_all add: godot_defs godot_new_def godot_delete_def godot_init_core nearcade_send_frame_def
      initialize_nearcade_module_def uninitialize_nearcade_module_def split_beta Let_def)

lemma exec_godot_sdk:
  assumes "sdk_reachable b abi (core g)" and "godot_ok gd b p g"
  shows "sdk_reachable b abi (core (exec_godot gd b abi p g))"
proof -
  have "sdk_reachable b abi (exec_step b abi q (core g))" if "sdk_step_of gd g p = Some q" for q
    using assms that by (intro sdk_reachable.step) (simp_all add: godot_ok_def)
  moreover have "sdk_reachable b abi (snd (nearcade_set_event_callback cb ud s))" if "sdk_reachable b abi s" for cb ud s
    using sdk_reachable.step[OF that, of "S_set_event_callback cb ud"] by simp
  ultimately show ?thesis
    using assms(1) by (auto simp: exec_godot_core Let_def split: option.split godot_step.split)
qed

lemma reachable_sdk: "godot_reachable gd b abi g \<Longrightarrow> sdk_reachable b abi (core g)"
proof (induction rule: godot_reachable.induct)
  case load
  then show ?case by (simp add: binding_static_def sdk_reachable.load)
next
  case (step g p)
  then show ?case by (simp add: exec_godot_sdk)
qed


text \<open>Queueing events in objects.\<close>

lemma object_inv_queue: "object_inv self \<Longrightarrow> event_wf e \<Longrightarrow> object_inv (queue_event e self)"
  using eq.put_inv[of self e] by (auto simp: object_inv_def queue_inv_def queue_event_eq)

lemma object_inv_take: "object_inv self \<Longrightarrow> object_inv (snd (take_event self))"
  using eq.get_inv[of self]
  by (auto simp: object_inv_def queue_inv_def take_event_eq split: list.split)

lemma same_objects_trans: "same_objects g g' \<Longrightarrow> same_objects g' g'' \<Longrightarrow> same_objects g g''"
  by (simp add: same_objects_def)

lemma call_back_inv:
  assumes "objects_inv g" and "event_wf e" and "cb = event_callback_addr \<Longrightarrow> objects g ud \<noteq> None"
  shows "objects_inv (call_back (cb, ud, e) g) \<and> same_objects g (call_back (cb, ud, e) g)"
proof (cases "cb = event_callback_addr \<and> ud \<noteq> 0")
  case True
  then obtain self where self: "objects g ud = Some self" using assms(3) by auto
  then have "object_inv (queue_event e self)"
    using assms(1,2) by (simp add: objects_inv_def object_inv_queue)
  with True self assms(1) show ?thesis
    by (auto simp: call_back_def callback_eq objects_inv_def same_objects_def)
next
  case False
  with assms(1) show ?thesis by (auto simp: call_back_def godot_event_callback_def same_objects_def)
qed

lemma dispatch_inv:
  assumes "objects_inv g" and "\<forall>e\<in>set evs. event_wf e" and "cb = event_callback_addr \<Longrightarrow> evs \<noteq> [] \<Longrightarrow> objects g ud \<noteq> None"
  shows "objects_inv (fold call_back (map (\<lambda>e. (cb, ud, e)) evs) g)
    \<and> same_objects g (fold call_back (map (\<lambda>e. (cb, ud, e)) evs) g)"
  using assms
proof (induction evs arbitrary: g)
  case Nil
  then show ?case by (simp add: same_objects_def)
next
  case (Cons e evs)
  have step: "objects_inv (call_back (cb, ud, e) g)" "same_objects g (call_back (cb, ud, e) g)"
    using call_back_inv[of g e cb ud] Cons.prems by simp_all
  have "objects (call_back (cb, ud, e) g) ud \<noteq> None" if "cb = event_callback_addr"
    using step(2) Cons.prems(3) that by (simp add: same_objects_def)
  then have "objects_inv (fold call_back (map (\<lambda>e. (cb, ud, e)) evs) (call_back (cb, ud, e) g))
      \<and> same_objects (call_back (cb, ud, e) g) (fold call_back (map (\<lambda>e. (cb, ud, e)) evs) (call_back (cb, ud, e) g))"
    using step(1) Cons.prems(2) by (intro Cons.IH) simp_all
  then show ?case using same_objects_trans[OF step(2)] by simp
qed

lemma call_sdk_inv:
  assumes "objects_inv g" and "fires (core g) (snd (f (core g)))"
    and "callback_live g \<or> delivered (snd (f (core g))) = delivered (core g)"
  shows "objects_inv (snd (call_sdk f g)) \<and> same_objects g (snd (call_sdk f g))"
proof -
  let ?s = "g_state (core g)"
  obtain evs where evs: "\<forall>e\<in>set evs. event_wf e"
      "delivered (snd (f (core g))) = delivered (core g) @ map (\<lambda>e. (event_cb ?s, event_cb_userdata ?s, e)) evs"
    using assms(2) by (auto simp: fires_def)
  let ?g = "g\<lparr>core := snd (f (core g))\<rparr>"
  have "snd (call_sdk f g) = fold call_back (map (\<lambda>e. (event_cb ?s, event_cb_userdata ?s, e)) evs) ?g"
    using evs(2) by (simp add: call_sdk_def split_beta Let_def)
  moreover have "objects_inv ?g" using assms(1) by (simp add: objects_inv_def)
  moreover have "objects ?g (event_cb_userdata ?s) \<noteq> None" if "event_cb ?s = event_callback_addr" "evs \<noteq> []"
    using assms(3) evs(2) that by (simp add: callback_live_def)
  ultimately show ?thesis
    using dispatch_inv[of ?g evs "event_cb ?s" "event_cb_userdata ?s"] evs(1) by (simp add: same_objects_def)
qed

text \<open>The invariant, step by step.\<close>

lemma shutdown_quiet:
  "delivered (nearcade_shutdown b env s) = delivered s" "\<not> running (g_state (nearcade_shutdown b env s))"
  by (simp_all add: nearcade_shutdown_def Let_def)

lemma step_ok_running:
  assumes "step_ok b q s" and "\<And>env cfg. q \<noteq> S_init env cfg" and "\<And>env. q \<noteq> S_shutdown env"
    and "\<And>cb ud. q \<noteq> S_set_event_callback cb ud"
  shows "running (g_state s)"
  using assms by (cases q) auto

lemma call_step_inv:
  assumes "binding_inv g" and "step_ok b q (core g)" and "snd (f (core g)) = exec_step b abi q (core g)"
    and "\<And>env cfg. q \<noteq> S_init env cfg" and "\<And>cb ud. q \<noteq> S_set_event_callback cb ud"
  shows "binding_inv (snd (call_sdk f g))"
proof -
  let ?g = "snd (call_sdk f g)"
  have inv: "objects_inv g" "running (g_state (core g)) \<Longrightarrow> callback_live g"
    using assms(1) by (simp_all add: binding_inv_def)
  have "callback_live g \<or> delivered (snd (f (core g))) = delivered (core g)"
  proof (cases "\<exists>env. q = S_shutdown env")
    case True
    then show ?thesis using assms(3) by (auto simp: shutdown_quiet)
  next
    case False
    then have "running (g_state (core g))" using step_ok_running[OF assms(2)] assms(4,5) by blast
    then show ?thesis using inv by simp
  qed
  then have objs: "objects_inv ?g" "same_objects g ?g"
    using call_sdk_inv[OF inv(1), of f] assms(3) fires_step[of "core g" b abi q] by simp_all
  have "running (g_state (core ?g)) \<longrightarrow> callback_live ?g"
    using step_keeps_callback[OF assms(4,5), of b abi "core g"] inv(2) objs(2) assms(3)
    by (auto simp: callback_live_def same_objects_def)
  with objs assms(1) show ?thesis by (auto simp: binding_inv_def same_objects_def)
qed

lemma new_inv:
  assumes "binding_inv g" and "this \<noteq> 0" and "objects g this = None"
  shows "binding_inv (godot_new this g)"
  using assms
  by (auto simp: binding_inv_def godot_new_def Let_def objects_inv_def object_inv_def queue_inv_def callback_live_def)

lemma delete_inv:
  assumes "binding_inv g" and "objects g this \<noteq> None" and "step_ok b (S_shutdown env) (core g)"
  shows "binding_inv (godot_delete b env this g)"
proof -
  let ?g = "snd (call_sdk (\<lambda>s. ((), nearcade_shutdown b env s)) g)"
  have inv: "binding_inv ?g" using call_step_inv[OF assms(1,3), of "\<lambda>s. ((), nearcade_shutdown b env s)"] by simp
  have stop: "\<not> running (g_state (core ?g))" by (simp add: shutdown_quiet)
  have "godot_delete b env this g =
      (if singleton ?g = this then ?g\<lparr>singleton := 0\<rparr> else ?g)\<lparr>objects := (objects ?g)(this := None)\<rparr>"
    using assms(2) by (simp add: godot_delete_def Let_def)
  then show ?thesis using inv stop by (auto simp: binding_inv_def objects_inv_def)
qed

lemma initialize_inv:
  assumes "binding_inv g" and "addr \<noteq> 0" and "objects g addr = None"
  shows "binding_inv (initialize_nearcade_module level addr g)"
proof -
  have "binding_inv (g\<lparr>class_registered := True\<rparr>)"
    using assms(1) by (simp add: binding_inv_def objects_inv_def callback_live_def)
  with assms show ?thesis by (auto simp: initialize_nearcade_module_def intro!: new_inv)
qed

lemma uninitialize_inv:
  assumes "binding_inv g"
    and "level = MODULE_INITIALIZATION_LEVEL_SCENE \<Longrightarrow> singleton g \<noteq> 0 \<Longrightarrow> step_ok b (S_shutdown env) (core g)"
  shows "binding_inv (uninitialize_nearcade_module b env level g)"
proof (cases "level = MODULE_INITIALIZATION_LEVEL_SCENE \<and> singleton g \<noteq> 0")
  case True
  then have "objects g (singleton g) \<noteq> None" using assms(1) by (simp add: binding_inv_def)
  from delete_inv[OF assms(1) this] show ?thesis
    using True assms(2) by (simp add: uninitialize_nearcade_module_def)
next
  case False
  then show ?thesis using assms(1) by (auto simp: uninitialize_nearcade_module_def)
qed

lemma poll_inv:
  assumes "binding_inv g" and "objects g this \<noteq> None"
  shows "binding_inv (snd (godot_poll_event gd this g))"
proof -
  obtain self where self: "objects g this = Some self" using assms(2) by auto
  have oi: "object_inv self" and inv: "objects_inv g" using assms(1) self by (auto simp: binding_inv_def objects_inv_def)
  have q: "queue_inv self" using oi by (simp add: object_inv_def)
  have rest: "object_inv (self\<lparr>event_queue := rest\<rparr>)" if "event_queue self = ev # rest" for ev rest
    using oi that by (simp add: object_inv_def queue_inv_def)
  have "this \<noteq> 0" using inv self by (cases "this = 0") (auto simp: objects_inv_def)
  then show ?thesis
    unfolding poll_event_eq[OF self q]
    using assms(1) self rest
    by (auto simp: binding_inv_def objects_inv_def callback_live_def split: list.split)
qed

lemma init_inv:
  assumes "binding_inv g" and "objects g this \<noteq> None" and "step_ok b (S_init env (Some (config_of gd cfg))) (core g)"
  shows "binding_inv (snd (godot_init gd b abi env cfg this g))"
proof -
  let ?f = "nearcade_init b abi env (Some (config_of gd cfg))"
  let ?g1 = "g\<lparr>core := snd (?f (core g))\<rparr>"
  have one: "call_sdk ?f g = (fst (?f (core g)), ?g1)"
    by (rule call_sdk_quiet) (simp add: delivered_init)
  let ?set = "nearcade_set_event_callback event_callback_addr this"
  have two: "call_sdk ?set ?g1 = (NEARCADE_OK, ?g1\<lparr>core := snd (?set (core ?g1))\<rparr>)"
    by (subst call_sdk_quiet) (simp_all add: nearcade_set_event_callback_def)
  have res: "snd (godot_init gd b abi env cfg this g) =
      (if fst (?f (core g)) = NEARCADE_OK then ?g1\<lparr>core := snd (?set (snd (?f (core g))))\<rparr> else ?g1)"
    using assms(2) by (simp add: godot_init_def one two split_beta Let_def)
  have "\<not> running (g_state (snd (?f (core g))))" if "fst (?f (core g)) \<noteq> NEARCADE_OK"
  proof (cases "plat b = Windows \<and> wsa_rc env \<noteq> 0")
    case True
    then show ?thesis using assms(3) by (simp add: nearcade_init_def)
  next
    case False
    then show ?thesis using init_running[of b env abi "Some (config_of gd cfg)" "core g"] that by auto
  qed
  then show ?thesis
    unfolding res using assms(1,2)
    by (auto simp: binding_inv_def objects_inv_def callback_live_def nearcade_set_event_callback_def)
qed

lemma exec_godot_inv:
  assumes "binding_inv g" and "godot_ok gd b p g"
  shows "binding_inv (exec_godot gd b abi p g)"
proof -
  have ok: "step_ok b q (core g)" if "sdk_step_of gd g p = Some q" for q
    using assms(2) that by (simp add: godot_ok_def)
  have live: "objects g this \<noteq> None" if "receiver p = Some this" for this
    using assms(2) that by (simp add: godot_ok_def)
  note call = call_step_inv[OF assms(1) ok, where abi = abi]
  show ?thesis
  proof (cases p)
    case (G_initialize level addr)
    then show ?thesis using initialize_inv[OF assms(1)] assms(2) by (simp add: godot_ok_def)
  next
    case (G_uninitialize env level)
    show ?thesis
      unfolding G_uninitialize exec_godot.simps
      by (rule uninitialize_inv[OF assms(1)]) (rule ok, simp add: G_uninitialize)
  next
    case (G_new this)
    then show ?thesis using new_inv[OF assms(1)] assms(2) by (simp add: godot_ok_def)
  next
    case (G_delete env this)
    then show ?thesis using delete_inv[OF assms(1) live ok] by simp
  next
    case (G_init env cfg this)
    then show ?thesis using init_inv[OF assms(1) live ok] by simp
  next
    case (G_poll_event this)
    then show ?thesis using poll_inv[OF assms(1) live] by simp
  next
    case (G_background q)
    moreover have "is_background q" using assms(2) G_background by (simp add: godot_ok_def)
    ultimately show ?thesis by (auto simp: background_def intro!: call)
  next
    case (G_send_frame d w h fmt this)
    then have "exec_godot gd b abi p g = g"
      using live call_sdk_quiet[of "nearcade_send_frame (Some d) w h (pixel_format_of fmt)" g]
      by (simp add: godot_send_frame_def nearcade_send_frame_def)
    then show ?thesis using assms(1) by simp
  qed (use live in \<open>simp_all add: godot_defs call\<close>)
qed

lemma binding_inv_live:
  "binding_inv g \<Longrightarrow> running (g_state (core g)) \<Longrightarrow> event_cb (g_state (core g)) = event_callback_addr \<Longrightarrow>
   objects g (event_cb_userdata (g_state (core g))) \<noteq> None"
  by (simp add: binding_inv_def callback_live_def)

lemma reachable_binding_inv: "godot_reachable gd b abi g \<Longrightarrow> binding_inv g"
proof (induction rule: godot_reachable.induct)
  case load
  then show ?case
    by (simp add: binding_inv_def binding_static_def objects_inv_def sdk_static_def zero_state_def)
next
  case (step g p)
  then show ?case by (simp add: exec_godot_inv)
qed

lemma godot_started_reachable: "godot_reachable gd_latin1 linux_build linux_abi godot_started"
  unfolding godot_started_def
  by (intro godot_reachable.intros)
    (simp_all add: godot_ok_def binding_static_def initialize_nearcade_module_def godot_new_def sdk_static_def zero_state_def open_fresh_def
      input_static_def)


lemma default_init: "nearcade_init b abi env (Some (config_of gd [])) s = nearcade_init b abi env None s"
proof -
  have "config_of gd [] = NEARCADE_DEFAULT_CONFIG" by (simp add: config_of_def Let_def)
  then have "init_config (Some (config_of gd [])) = init_config None" by (simp add: init_config_def)
  then show ?thesis by (simp add: nearcade_init_def)
qed

lemma godot_started_core: "core godot_started = snd (nearcade_set_event_callback event_callback_addr 1 started)"
  using plain_init_ok
  by (simp add: godot_started_def godot_init_core default_init split_beta Let_def godot_new_def
      initialize_nearcade_module_def binding_static_def started_def)

lemma init_no_callback:
  assumes "plat b \<noteq> Windows \<or> wsa_rc env = 0"
  shows "event_cb (g_state (snd (nearcade_init b abi env cfg s))) = 0"
  using assms by (auto simp: nearcade_init_def Let_def init_components_frame zero_state_def)

lemma init_components_config [simp]: "config (g_state (snd (init_components b abi env s))) = config (g_state s)"
  by (simp add: init_components_def Let_def split_beta)

lemma init_keeps_config:
  assumes "plat b \<noteq> Windows \<or> wsa_rc env = 0"
  shows "config (g_state (snd (nearcade_init b abi env cfg s))) = init_config cfg"
  using assms by (auto simp: nearcade_init_def Let_def)

lemma streaming_queued:
  assumes "objects g this = Some \<lparr>event_queue = [], queue_mutex = Unlocked\<rparr>" and "this \<noteq> 0"
    and "event_cb (g_state (core g)) = event_callback_addr" and "event_cb_userdata (g_state (core g)) = this"
  shows "objects (snd (godot_start_streaming this g)) this =
    Some \<lparr>event_queue = [NEARCADE_EVENT_STREAMING 0], queue_mutex = Unlocked\<rparr>"
proof -
  have "event_callback_addr \<noteq> 0" by (simp add: event_callback_addr_def)
  with assms show ?thesis
    by (simp add: godot_start_streaming_def call_sdk_def nearcade_start_streaming_def fire_event_def
        call_back_def godot_event_callback_def queue_event_eq EVENT_QUEUE_MAX_def)
qed

lemma binding_core_up:
  assumes "godot_reachable gd b abi g" and "running (g_state (core g))"
  shows "up b (core g)"
  using reachable_inv[OF reachable_sdk[OF assms(1)]] assms(2) by (auto simp: down_def)

lemma godot_started_object: "objects godot_started 1 = Some \<lparr>event_queue = [], queue_mutex = Unlocked\<rparr>"
proof -
  have "objects (snd (godot_init gd b abi env cfg this g)) = objects g" if "objects g this \<noteq> None"
    for gd b abi env cfg this g
    using that by (simp add: godot_init_def Let_def split_beta call_sdk_quiet delivered_init nearcade_set_event_callback_def)
  then show ?thesis by (simp add: godot_started_def initialize_nearcade_module_def godot_new_live)
qed

lemma poll_single:
  assumes "objects g this = Some \<lparr>event_queue = [ev], queue_mutex = Unlocked\<rparr>"
  shows "fst (godot_poll_event gd this g) = event_dict gd ev"
  using poll_event_eq[OF assms, of gd] by (simp add: queue_inv_def EVENT_QUEUE_MAX_def)


section \<open>Properties\<close>





text \<open>
  C32. The rule that the SDK is called only while it runs is needed. The destructor leaves its object
  registered as the user data of the callback, and \<open>nearcade_start_streaming\<close> does not
  look whether the SDK runs: after the object that started the SDK is destroyed, the method
  \<open>start_streaming\<close> of any other object, such as the singleton the module creates at load,
  queues an event in the destroyed one.
\<close>

theorem destroyed_object_still_called:
  assumes "event_cb (g_state (core g)) = event_callback_addr" and "event_cb_userdata (g_state (core g)) = this"
    and "this \<noteq> 0" and "objects g this \<noteq> None" and "objects g other \<noteq> None" and "other \<noteq> this"
  shows "stale (snd (godot_start_streaming other (godot_delete b env this g)))"
proof -
  let ?g = "godot_delete b env this g"
  let ?s = "nearcade_shutdown b env (core g)"
  have quiet: "call_sdk (\<lambda>s. ((), nearcade_shutdown b env s)) g = ((), g\<lparr>core := ?s\<rparr>)"
    by (subst call_sdk_quiet) (simp_all add: shutdown_quiet)
  have g: "core ?g = ?s" "objects ?g this = None" "objects ?g other \<noteq> None"
    using assms(4-6) by (simp_all add: godot_delete_def quiet Let_def)
  have cb: "event_cb (g_state ?s) = event_callback_addr" "event_cb_userdata (g_state ?s) = this"
    using assms(1,2) step_keeps_callback[of "S_shutdown env" b abi "core g"] by simp_all
  have "event_callback_addr \<noteq> 0" by (simp add: event_callback_addr_def)
  with g cb assms(3) show ?thesis
    by (simp add: godot_start_streaming_def call_sdk_def nearcade_start_streaming_def fire_event_def
        call_back_def godot_event_callback_def)
qed

theorem destroyed_object_still_called_witness:
  "stale (snd (godot_start_streaming 2 (godot_delete linux_build (cap_env plain_env) 1 (godot_new 2 godot_started))))"
proof (rule destroyed_object_still_called)
  have core: "core (godot_new 2 godot_started) = core godot_started" by (simp add: godot_new_def Let_def)
  show "event_cb (g_state (core (godot_new 2 godot_started))) = event_callback_addr"
    "event_cb_userdata (g_state (core (godot_new 2 godot_started))) = 1"
    unfolding core godot_started_core by (simp_all add: nearcade_set_event_callback_def)
  have "objects (godot_new 2 godot_started) 1 = objects godot_started 1" by (simp add: godot_new_def Let_def)
  also have "\<dots> \<noteq> None"
    using binding_inv_live[OF reachable_binding_inv[OF godot_started_reachable]] godot_started_core
    by (simp add: nearcade_set_event_callback_def started_running)
  finally show "objects (godot_new 2 godot_started) 1 \<noteq> None" .
  show "objects (godot_new 2 godot_started) 2 \<noteq> None" by (simp add: godot_new_live)
qed simp_all

text \<open>
  C30. Starting through the binding connects the events. \<open>init\<close> reports the SDK's result code, its
  address and its PIN, and hands the configuration on with the given keys in place of the
  defaults; when it succeeds, starting the stream makes the next poll of the same object return the
  event \<open>streaming_started\<close>; when the SDK refuses to start, no event reaches the object.
\<close>

theorem godot_init_wires_events:
  assumes "objects g this = Some \<lparr>event_queue = [], queue_mutex = Unlocked\<rparr>" and "this \<noteq> 0"
    and "plat b \<noteq> Windows \<or> wsa_rc env = 0"
    and "nearcade_init b abi env (Some (config_of gd cfg)) (core g) = (r, s1)"
    and "godot_init gd b abi env cfg this g = (d, g1)"
  shows "map_of d ''result'' = Some (V_INT (error_code r))
    \<and> map_of d ''pin'' = Some (V_STRING (string_new gd (take 7 (cstr (pin (g_state s1))))))
    \<and> map_of d ''lan_ip'' = Some (V_STRING (string_new gd (take 63 (cstr (lan_ip (g_state s1))))))
    \<and> config (g_state (core g1)) = init_config (Some (config_of gd cfg))
    \<and> fst (godot_poll_event gd this (snd (godot_start_streaming this g1))) =
        (if r = NEARCADE_OK then [(''type'', V_INT 6), (''viewer_count'', V_INT 0)] else [])"
proof -
  let ?f = "nearcade_init b abi env (Some (config_of gd cfg))"
  let ?set = "nearcade_set_event_callback event_callback_addr this"
  let ?s2 = "if r = NEARCADE_OK then snd (?set s1) else s1"
  have one: "call_sdk ?f g = (r, g\<lparr>core := s1\<rparr>)"
    using call_sdk_quiet[of ?f g] delivered_init[of b abi env "Some (config_of gd cfg)" "core g"] assms(4) by simp
  have two: "call_sdk ?set (g\<lparr>core := s1\<rparr>) = (NEARCADE_OK, g\<lparr>core := snd (?set s1)\<rparr>)"
    by (subst call_sdk_quiet) (simp_all add: nearcade_set_event_callback_def)
  have g1: "g1 = g\<lparr>core := ?s2\<rparr>" and d: "d = [(''result'', V_INT (error_code r)), (''lan_ip'', V_STRING (godot_get_lan_ip gd g1)),
      (''pin'', V_STRING (godot_get_pin gd g1)), (''signaling_url'', V_STRING (godot_get_signaling_url gd b g1))]"
    using assms(1,5) by (auto simp: godot_init_def one two Let_def split: if_splits)
  have strs: "cstr (strncpy (cstr x) 7 (zeroed 8)) = take 7 (cstr x)" "cstr (strncpy (cstr x) 63 (zeroed 64)) = take 63 (cstr x)" for x
    using cstr_strncpy[of 8 "zeroed 8" "cstr x"] cstr_strncpy[of 64 "zeroed 64" "cstr x"] by simp_all
  have conf: "config (g_state s1) = init_config (Some (config_of gd cfg))" "event_cb (g_state s1) = 0"
    using init_keeps_config[OF assms(3), of abi "Some (config_of gd cfg)" "core g"]
      init_no_callback[OF assms(3), of abi "Some (config_of gd cfg)" "core g"] assms(4) by simp_all
  have "fst (godot_poll_event gd this (snd (godot_start_streaming this g1))) = [(''type'', V_INT 6), (''viewer_count'', V_INT 0)]"
    if ok: "r = NEARCADE_OK"
  proof -
    have "objects (snd (godot_start_streaming this g1)) this =
        Some \<lparr>event_queue = [NEARCADE_EVENT_STREAMING 0], queue_mutex = Unlocked\<rparr>"
      using assms(1,2) ok by (intro streaming_queued) (simp_all add: g1 nearcade_set_event_callback_def)
    from poll_event_eq[OF this, of gd] show ?thesis by (simp add: queue_inv_def EVENT_QUEUE_MAX_def event_dict_def)
  qed
  moreover have "fst (godot_poll_event gd this (snd (godot_start_streaming this g1))) = []" if "r \<noteq> NEARCADE_OK"
  proof -
    have "snd (godot_start_streaming this g1) = g1\<lparr>core := snd (nearcade_start_streaming s1)\<rparr>"
      using that conf(2) assms(1) call_sdk_quiet[of nearcade_start_streaming g1]
      by (simp add: godot_start_streaming_def g1 nearcade_start_streaming_def fire_event_def)
    then show ?thesis
      using poll_event_eq[of "snd (godot_start_streaming this g1)" this _ gd] assms(1)
      by (simp add: g1 queue_inv_def)
  qed
  ultimately show ?thesis
    using conf(1) by (simp add: d g1 godot_get_pin_def godot_get_lan_ip_def nearcade_get_pin_def
        nearcade_get_lan_ip_def strs nearcade_set_event_callback_def)
qed

theorem godot_init_wires_events_witness:
  "let g = godot_new 1 binding_static; g1 = snd (godot_init gd_latin1 linux_build linux_abi plain_env [] 1 g) in
   fst (godot_poll_event gd_latin1 1 (snd (godot_start_streaming 1 g1))) = [(''type'', V_INT 6), (''viewer_count'', V_INT 0)]"
proof -
  let ?g = "godot_new 1 binding_static"
  define s1 where "s1 = snd (nearcade_init linux_build linux_abi plain_env None sdk_static)"
  have s: "core ?g = sdk_static" by (simp add: godot_new_def binding_static_def Let_def)
  have i: "nearcade_init linux_build linux_abi plain_env (Some (config_of gd_latin1 [])) (core ?g) = (NEARCADE_OK, s1)"
    unfolding s default_init s1_def by (rule prod_eqI) (simp_all add: plain_init_ok)
  obtain d g1 where g: "godot_init gd_latin1 linux_build linux_abi plain_env [] 1 ?g = (d, g1)" by (meson surj_pair)
  show ?thesis
    using godot_init_wires_events[OF godot_new_live _ _ i g] g by (simp add: linux_build_def)
qed

text \<open>
  C28. From a viewer's data channel to the script. In every run of the binding with the SDK running
  and this object registered, the sixteen bytes of a packet on a data channel, followed by anything,
  make the next poll of the object, if nothing else waits, return the packet as a dictionary, from which
  \<open>submit_gamepad\<close> reads the same packet again. The event does not say whose packet it is: its
  \<open>viewer_id\<close> is the empty string, whichever viewer sent it.
\<close>

theorem channel_packet_reaches_script:
  assumes "godot_reachable gd b abi g" and "running (g_state (core g))"
    and "event_cb (g_state (core g)) = event_callback_addr" and "event_cb_userdata (g_state (core g)) = this"
    and "this \<noteq> 0" and "objects g this = Some self" and "event_queue self = []"
    and "int_variants gd"
  shows "let d = fst (godot_poll_event gd this
           (exec_godot gd b abi (G_background (S_input_message (Binary (encode_packet p @ rest)))) g)) in
    map_of d ''type'' = Some (V_INT 2)
    \<and> map_of d ''packet'' = Some (V_DICTIONARY (packet_dict p)) \<and> packet_of gd (packet_dict p) = p
    \<and> map_of d ''viewer_id'' = Some (V_STRING (string_new gd []))"
proof -
  let ?m = "Binary (encode_packet p @ rest)"
  let ?g = "exec_godot gd b abi (G_background (S_input_message ?m)) g"
  let ?ev = "NEARCADE_EVENT_INPUT_PACKET p (zeroed 64)"
  have "up b (core g)" using binding_core_up[OF assms(1,2)] .
  then have cb: "g_input_cb (wrtc (core g))" by (simp add: up_def webrtc_up_def)
  have dec: "decode_packet (take sizeof_packet (encode_packet p @ rest)) = p"
    using length_encode_packet[of p] decode_encode_packet[of p "[]"] by simp
  have "queue_inv self"
    using reachable_binding_inv[OF assms(1)] assms(6) by (simp add: binding_inv_def objects_inv_def object_inv_def)
  then have self: "self = \<lparr>event_queue = [], queue_mutex = Unlocked\<rparr>" using assms(7) by (simp add: queue_inv_def)
  have "exec_step b abi (S_input_message ?m) (core g) = webrtc_received_input b p (core g)"
    using cb dec length_encode_packet[of p] by (simp add: on_input_message_def)
  moreover have "event_callback_addr \<noteq> 0" by (simp add: event_callback_addr_def)
  ultimately have "objects ?g this = Some \<lparr>event_queue = [?ev], queue_mutex = Unlocked\<rparr>"
    using assms(3-6) self
    by (simp add: background_def call_sdk_def webrtc_received_input_def fire_event_def Let_def call_back_def
        godot_event_callback_def queue_event_eq EVENT_QUEUE_MAX_def)
  from poll_single[OF this, of gd] show ?thesis
    using packet_of_packet_dict[OF assms(8), of p] by (simp add: event_dict_def V_cstr_def Let_def)
qed

theorem channel_packet_reaches_script_witness:
  "map_of (fst (godot_poll_event gd_latin1 1 (exec_godot gd_latin1 linux_build linux_abi
     (G_background (S_input_message (Binary (encode_packet (decode_packet (replicate 16 0x81)))))) godot_started)))
     ''packet'' = Some (V_DICTIONARY (packet_dict (decode_packet (replicate 16 0x81))))"
proof -
  have core: "running (g_state (core godot_started))" "event_cb (g_state (core godot_started)) = event_callback_addr"
    "event_cb_userdata (g_state (core godot_started)) = 1"
    unfolding godot_started_core by (simp_all add: nearcade_set_event_callback_def started_running)
  obtain self where self: "objects godot_started 1 = Some self" "event_queue self = []"
    using godot_started_object by auto
  from channel_packet_reaches_script[OF godot_started_reachable core _ self int_variants_latin1,
      of "decode_packet (replicate 16 0x81)" "[]"] show ?thesis by (simp add: Let_def)
qed

end
