(* ===== verification/Test_Basic.thy ===== *)
theory Test_Basic
  imports Sdk_Events
begin

text \<open>
  \<open>test/test_basic.c\<close>: the program the build runs as its test, as one sequence of API calls with
  the conditions it asserts. The queries change nothing and their answers are only printed, as
  are the return values that no assertion mentions.
\<close>

text \<open>\<open>event_cb\<close> counts the events; its address is some number other than 0.\<close>

definition test_event_cb :: nat where
  "test_event_cb = 1"

definition event_count :: "sdk \<Rightarrow> nat" where
  "event_count s = length (filter (\<lambda>(cb, ud, ev). cb = test_event_cb) (delivered s))"

text \<open>The line it prints for an event. \<open>fmt_f\<close> stands for \<open>%.1f\<close>, which only rumble events use; those
  are never fired.\<close>

definition event_line :: "(32 word \<Rightarrow> string) \<Rightarrow> nearcade_event \<Rightarrow> string" where
  "event_line fmt_f ev =
     ''[test] Event type='' @ fmt_d (event_type ev) @
     (case ev of
        NEARCADE_EVENT_VIEWER_JOINED vid name \<Rightarrow> '' viewer='' @ cstr vid @ '' name='' @ cstr name
      | NEARCADE_EVENT_VIEWER_LEFT vid \<Rightarrow> '' viewer='' @ cstr vid
      | NEARCADE_EVENT_INPUT_PACKET pkt vid \<Rightarrow> '' viewer='' @ cstr vid @ '' slot='' @ fmt_d (uint (pkt_slot pkt))
      | NEARCADE_EVENT_SIGNALING vid data \<Rightarrow> '' viewer='' @ cstr vid @ '' data='' @ [CHR 0x27] @ cstr data @ [CHR 0x27]
      | NEARCADE_EVENT_RUMBLE sl strong weak duration \<Rightarrow>
          '' slot='' @ fmt_d (uint sl) @ '' strong='' @ fmt_f strong @ '' weak='' @ fmt_f weak
      | NEARCADE_EVENT_ERROR code msg \<Rightarrow> '' code='' @ fmt_d code @ '' msg='' @ [CHR 0x27] @ cstr msg @ [CHR 0x27]
      | NEARCADE_EVENT_STREAMING n \<Rightarrow> '' viewers='' @ fmt_d n) @ [CHR 0x0A]"

definition test_packet :: nearcade_gamepad_packet where
  "test_packet =
     (decode_packet (replicate sizeof_packet 0))
       \<lparr>pkt_type := 0x01, pkt_slot := 0, lx := 0, ly := word_of_int (-32767),
        buttons := word_of_int NEARCADE_BTN_A\<rparr>"

definition fake_nal :: "8 word list" where
  "fake_nal = [0x00, 0x00, 0x00, 0x01, 0x67, 0x42, 0x00, 0x1e]"

text \<open>The answers of the environment: to \<open>nearcade_init\<close>, to \<open>rand\<close>, to the capture and to
  the writes of the signaling server.\<close>

definition test_main ::
    "build \<Rightarrow> evdev_abi \<Rightarrow> init_env \<Rightarrow> nat \<Rightarrow> capture_env \<Rightarrow> lws_env \<Rightarrow> sdk \<Rightarrow> bool list \<times> sdk" where
  "test_main b abi env r cenv lenv s =
     (let (rc1, s) = nearcade_init b abi env None s;
          (rc2, s) = nearcade_regenerate_pin r s;
          (rc4, s) = nearcade_set_event_callback test_event_cb 0 s;
          (rc5, s) = nearcade_submit_gamepad b (Some test_packet) s;
          (_, s) = nearcade_flush_slot b 0 s;
          (_, s) = nearcade_submit_kbm b abi (Some ''viewer_0'') (Some ''mousemove'') None 100 50 s;
          (_, s) = nearcade_submit_kbm b abi (Some ''viewer_0'') (Some ''keydown'') (Some ''KEY_W'') 0 0 s;
          (_, s) = nearcade_submit_kbm b abi (Some ''viewer_0'') (Some ''keyup'') (Some ''KEY_W'') 0 0 s;
          (rc8a, s) = nearcade_submit_gamepad b None s;
          (rc8b, s) = nearcade_submit_kbm b abi None (Some ''mousemove'') None 0 0 s;
          (rc8c, s) = nearcade_disconnect_viewer b None s;
          (rc9, s) = nearcade_disconnect_viewer b (Some ''nonexistent'') s;
          (rc10, s) = nearcade_set_controller_type (Some ''viewer_0'') NEARCADE_CTRL_DS4 s;
          (rc11a, s) = nearcade_start_streaming s;
          (rc11b, s) = nearcade_stop_streaming s;
          (rc12, s) = nearcade_send_h264 (Some fake_nal) s;
          (rc13, s) = nearcade_send_frame (Some [0, 0, 0, 0]) 640 480 NEARCADE_PIX_FMT_RGBA s;
          (_, s) = nearcade_start_capture b cenv s;
          (_, s) = nearcade_stop_capture b cenv s;
          (_, s) = nearcade_poll_events 0 s;
          (_, s) = nearcade_send_offer (Some ''viewer_0'') (Some ''test_sdp_offer'') s;
          (_, s) = nearcade_send_answer b lenv (Some ''host'') (Some ''test_sdp_answer'') s;
          (_, s) = nearcade_send_ice_candidate b lenv (Some ''viewer_0'') (Some ''test_ice_candidate'') s;
          s = nearcade_shutdown b cenv s;
          s = nearcade_shutdown b cenv s
      in ([rc1 = NEARCADE_OK, rc2 = NEARCADE_OK, rc4 = NEARCADE_OK, rc5 = NEARCADE_ERR_NO_DEVICE,
           rc8a = NEARCADE_ERR_INVALID_ARG, rc8b = NEARCADE_ERR_INVALID_ARG, rc8c = NEARCADE_ERR_INVALID_ARG,
           rc9 = NEARCADE_OK, rc10 = NEARCADE_ERR_INVALID_ARG, rc11a = NEARCADE_OK, rc11b = NEARCADE_OK,
           rc12 = NEARCADE_OK, rc13 = NEARCADE_ERR_INIT], s))"

text \<open>The same calls as steps, without those that change nothing.\<close>

definition test_steps_1 :: "nat \<Rightarrow> sdk_step list" where
  "test_steps_1 r = [S_regenerate_pin r, S_set_event_callback test_event_cb 0]"

definition test_steps_2 :: "sdk_step list" where
  "test_steps_2 =
     [S_submit_gamepad (Some test_packet), S_flush_slot 0,
      S_submit_kbm (Some ''viewer_0'') (Some ''mousemove'') None 100 50,
      S_submit_kbm (Some ''viewer_0'') (Some ''keydown'') (Some ''KEY_W'') 0 0,
      S_submit_kbm (Some ''viewer_0'') (Some ''keyup'') (Some ''KEY_W'') 0 0,
      S_submit_gamepad None, S_submit_kbm None (Some ''mousemove'') None 0 0,
      S_disconnect_viewer None, S_disconnect_viewer (Some ''nonexistent'')]"

definition test_steps_3 :: "sdk_step list" where
  "test_steps_3 =
     [S_set_controller_type (Some ''viewer_0'') NEARCADE_CTRL_DS4, S_start_streaming, S_stop_streaming,
      S_send_h264 (Some fake_nal)]"

definition test_steps_4 :: "lws_env \<Rightarrow> sdk_step list" where
  "test_steps_4 lenv =
     [S_send_answer lenv (Some ''host'') (Some ''test_sdp_answer''),
      S_send_ice_candidate lenv (Some ''viewer_0'') (Some ''test_ice_candidate'')]"

text \<open>Calls that neither start nor stop anything.\<close>

fun plain_call :: "sdk_step \<Rightarrow> bool" where
  "plain_call (S_init env cfg) = False"
| "plain_call (S_shutdown env) = False"
| "plain_call (S_start_capture env) = False"
| "plain_call (S_stop_capture env) = False"
| "plain_call (S_lws env wsi reason) = False"
| "plain_call _ = True"


section \<open>Facts\<close>

lemmas test_steps_defs = test_steps_1_def test_steps_2_def test_steps_3_def test_steps_4_def

lemma plain_call_keeps:
  assumes "up b s" and "plain_call p"
  shows "up b (exec_step b abi p s) \<and> capturing (g_state (exec_step b abi p s)) = capturing (g_state s)"
proof -
  have run: "running (g_state s)" using assms(1) by (simp add: up_def state_up_def)
  then have ok: "step_ok b p s" using assms(2) by (cases p) simp_all
  have "up b (exec_step b abi p s)" by (rule up_step[OF assms(1) ok]) (use assms(2) in auto)
  moreover have "capturing (g_state (exec_step b abi p s)) = capturing (g_state s)"
    using assms(2)
    by (cases p) (auto simp: nearcade_start_streaming_def nearcade_stop_streaming_def nearcade_send_h264_def
        nearcade_set_event_callback_def nearcade_regenerate_pin_def nearcade_submit_gamepad_def
        nearcade_submit_kbm_def nearcade_flush_slot_def nearcade_disconnect_viewer_def
        nearcade_set_viewer_input_mode_def nearcade_set_controller_type_def lock_viewers_def unlock_viewers_def
        nearcade_send_answer_def nearcade_send_ice_candidate_def on_local_description_def
        on_state_change_def webrtc_viewer_state_def webrtc_send_via_signaling_def
        on_input_message_def webrtc_received_input_def
        on_local_candidate_def send_to_viewer_def Let_def split_beta split: option.split rtc_message.split)
  ultimately show ?thesis by simp
qed

lemma plain_calls_keep:
  assumes "up b s" and "\<forall>p\<in>set ps. plain_call p"
  shows "up b (fold (exec_step b abi) ps s)
    \<and> capturing (g_state (fold (exec_step b abi) ps s)) = capturing (g_state s)"
  using assms
proof (induction ps arbitrary: s)
  case (Cons p ps)
  then show ?case using plain_call_keeps[OF Cons.prems(1), of p abi] by simp
qed simp

lemma silent_calls: "\<forall>p\<in>set ps. silent p \<Longrightarrow> delivered (fold (exec_step b abi) ps s) = delivered s"
  by (induction ps arbitrary: s) (simp_all add: silent_step)

text \<open>The answers that do not depend on the state.\<close>

lemma test_answers:
  "fst (nearcade_regenerate_pin r s) = NEARCADE_OK" "fst (nearcade_set_event_callback cb ud s) = NEARCADE_OK"
  "nearcade_submit_gamepad b None s = (NEARCADE_ERR_INVALID_ARG, s)"
  "nearcade_submit_kbm b abi None et k dx dy s = (NEARCADE_ERR_INVALID_ARG, s)"
  "nearcade_disconnect_viewer b None s = (NEARCADE_ERR_INVALID_ARG, s)"
  "fst (nearcade_disconnect_viewer b (Some v) s) = NEARCADE_OK"
  "fst (nearcade_start_streaming s) = NEARCADE_OK" "fst (nearcade_stop_streaming s) = NEARCADE_OK"
  "fst (nearcade_send_h264 (Some fake_nal) s) = NEARCADE_OK"
  "nearcade_send_frame d w h fmt s = (NEARCADE_ERR_INIT, s)"
  "nearcade_poll_events t s = (NEARCADE_OK, s)" "nearcade_send_offer vo so s = (0, s)"
  by (simp_all add: nearcade_regenerate_pin_def nearcade_set_event_callback_def nearcade_submit_gamepad_def
      nearcade_submit_kbm_def nearcade_disconnect_viewer_def nearcade_start_streaming_def
      nearcade_stop_streaming_def nearcade_send_h264_def webrtc_send_h264_def fake_nal_def
      nearcade_send_frame_def nearcade_poll_events_def nearcade_send_offer_def split_beta Let_def
      split: option.split)

lemma test_main_eq:
  "test_main b abi env r cenv lenv s =
    (let s1 = exec_step b abi (S_init env None) s;
         s2 = fold (exec_step b abi) (test_steps_1 r) s1;
         s3 = fold (exec_step b abi) test_steps_2 s2;
         s4 = fold (exec_step b abi) test_steps_3 s3;
         s5 = exec_step b abi (S_stop_capture cenv) (exec_step b abi (S_start_capture cenv) s4);
         s6 = fold (exec_step b abi) (test_steps_4 lenv) s5
     in ([fst (nearcade_init b abi env None s) = NEARCADE_OK, True, True,
          fst (nearcade_submit_gamepad b (Some test_packet) s2) = NEARCADE_ERR_NO_DEVICE, True, True, True, True,
          fst (nearcade_set_controller_type (Some ''viewer_0'') NEARCADE_CTRL_DS4 s3) = NEARCADE_ERR_INVALID_ARG,
          True, True, True, True],
         nearcade_shutdown b cenv (nearcade_shutdown b cenv s6)))"
  by (simp add: test_main_def split_beta Let_def test_steps_defs test_answers)

lemma calls_keep_callback:
  assumes "\<forall>p\<in>set ps. plain_call p \<and> (\<forall>cb ud. p \<noteq> S_set_event_callback cb ud)"
  shows "event_cb (g_state (fold (exec_step b abi) ps s)) = event_cb (g_state s)
    \<and> event_cb_userdata (g_state (fold (exec_step b abi) ps s)) = event_cb_userdata (g_state s)"
  using assms
proof (induction ps arbitrary: s)
  case (Cons p ps)
  have "\<And>env cfg. p \<noteq> S_init env cfg" using Cons.prems by auto
  then show ?case using Cons step_keeps_callback[of p b abi s] by simp
qed simp

lemma no_device_on_linux:
  assumes "up b s" and "plat b = Linux"
  shows "fst (nearcade_submit_gamepad b (Some test_packet) s) = NEARCADE_ERR_NO_DEVICE"
proof -
  have "no_gamepads (inputs s)" using assms by (simp add: up_def input_up_def)
  then have "gp_fds (lock_input (inputs s)) ! 0 < 0" by (simp add: no_gamepads_nth)
  then show ?thesis
    using assms(2) by (simp add: nearcade_submit_gamepad_def input_submit_gamepad_def linux_input_submit_gamepad_def
        test_packet_def Let_def split_beta)
qed

lemma ok_elsewhere:
  "plat b \<noteq> Linux \<Longrightarrow> fst (nearcade_submit_gamepad b (Some p) s) = NEARCADE_OK"
  by (cases "plat b") (simp_all add: nearcade_submit_gamepad_def input_submit_gamepad_def win_input_defs mac_input_defs)

lemma capture_cycle:
  fixes abi
  assumes "up b s" and "\<not> capturing (g_state s)" and "fork_parent env" and "wait_answers env (fork_ret env)"
  defines "s' \<equiv> exec_step b abi (S_stop_capture env) (exec_step b abi (S_start_capture env) s)"
  shows "up b s' \<and> \<not> capturing (g_state s') \<and> \<not> ff_active (g_ff s')"
proof -
  let ?s = "snd (nearcade_start_capture b env s)"
  have up: "up b ?s" by (rule up_capture(1)[OF assms(1,3)])
  have idle: "\<not> ff_active (g_ff s)" using assms(1,2) by (simp add: up_def capture_up_def)
  have "ff_pid (g_ff ?s) = fork_ret env" if "ff_active (g_ff ?s)"
    using that idle assms(2)
    by (auto simp: nearcade_start_capture_def capture_start_def Let_def split_beta split: if_splits)
  then have up': "up b s'" using up_capture(2)[OF up, of env] assms(4) by (simp add: s'_def)
  moreover have "\<not> capturing (g_state s')" by (simp add: s'_def nearcade_stop_capture_def Let_def)
  ultimately show ?thesis by (simp add: up_def capture_up_def)
qed

lemma test_streams_once:
  assumes "event_cb (g_state s) = test_event_cb"
  shows "event_count (fold (exec_step b abi) test_steps_3 s) = Suc (event_count s)"
proof -
  let ?s = "exec_step b abi (S_set_controller_type (Some ''viewer_0'') NEARCADE_CTRL_DS4) s"
  have "event_cb (g_state ?s) = test_event_cb" and d: "delivered ?s = delivered s"
    using assms step_keeps_callback[of "S_set_controller_type (Some ''viewer_0'') NEARCADE_CTRL_DS4" b abi s]
      silent_step[of "S_set_controller_type (Some ''viewer_0'') NEARCADE_CTRL_DS4" b abi s] by simp_all
  then have "event_count (exec_step b abi S_start_streaming ?s) = Suc (event_count s)"
    by (simp add: event_count_def nearcade_start_streaming_def fire_event_def test_event_cb_def)
  moreover have "event_count (fold (exec_step b abi) test_steps_3 s) = event_count (exec_step b abi S_start_streaming ?s)"
    using silent_calls[of "[S_stop_streaming, S_send_h264 (Some fake_nal)]" b abi "exec_step b abi S_start_streaming ?s"]
    by (simp add: event_count_def test_steps_3_def)
  ultimately show ?thesis by simp
qed

lemma event_count_silent:
  "\<forall>p\<in>set ps. silent p \<Longrightarrow> event_count (fold (exec_step b abi) ps s) = event_count s"
  by (simp add: event_count_def silent_calls)

text \<open>The SDK stays up from the start of the test to the first shutdown.\<close>

lemma test_stays_up:
  fixes r lenv
  assumes "fst (nearcade_init b abi env None sdk_static) = NEARCADE_OK"
    and "fork_parent cenv" and "wait_answers cenv (fork_ret cenv)"
  defines "s1 \<equiv> exec_step b abi (S_init env None) sdk_static"
  defines "s2 \<equiv> fold (exec_step b abi) (test_steps_1 r) s1"
  defines "s3 \<equiv> fold (exec_step b abi) test_steps_2 s2"
  defines "s4 \<equiv> fold (exec_step b abi) test_steps_3 s3"
  defines "s5 \<equiv> exec_step b abi (S_stop_capture cenv) (exec_step b abi (S_start_capture cenv) s4)"
  defines "s6 \<equiv> fold (exec_step b abi) (test_steps_4 lenv) s5"
  shows "up b s2" and "up b s3" and "up b s6" and "\<not> ff_active (g_ff s6)"
    and "event_cb (g_state s3) = test_event_cb"
proof -
  have "open_fresh (uinput env) (inputs sdk_static)" by (simp add: open_fresh_def sdk_static_def input_static_def)
  then have up1: "up b s1" "\<not> capturing (g_state s1)"
    using init_up[OF down_static, of env b abi None] init_not_capturing[OF disjI2[OF assms(1)]] assms(1) by (simp_all add: s1_def)
  then have up2: "up b s2" "\<not> capturing (g_state s2)"
    using plain_calls_keep[OF up1(1), of "test_steps_1 r" abi] by (simp_all add: s2_def test_steps_defs)
  then have up3: "up b s3" "\<not> capturing (g_state s3)"
    using plain_calls_keep[OF up2(1), of test_steps_2 abi] by (simp_all add: s3_def test_steps_defs)
  then have up4: "up b s4" "\<not> capturing (g_state s4)"
    using plain_calls_keep[OF up3(1), of test_steps_3 abi] by (simp_all add: s4_def test_steps_defs)
  then have up5: "up b s5" "\<not> capturing (g_state s5)"
    using capture_cycle[OF up4 assms(2,3), of abi] by (simp_all add: s5_def)
  then have up6: "up b s6" "\<not> capturing (g_state s6)"
    using plain_calls_keep[OF up5(1), of "test_steps_4 lenv" abi] by (simp_all add: s6_def test_steps_defs)
  show "up b s2" "up b s3" "up b s6" by fact+
  show "\<not> ff_active (g_ff s6)" using up6 by (simp add: up_def capture_up_def)
  show "event_cb (g_state s3) = test_event_cb"
    using calls_keep_callback[of test_steps_2 b abi s2]
    by (simp add: s3_def test_steps_2_def) (simp add: s2_def test_steps_1_def nearcade_set_event_callback_def)
qed


section \<open>Properties\<close>



end
