(* ===== verification/Signaling_Thread.thy ===== *)
theory Signaling_Thread
  imports Signaling
begin

text \<open>
  \<open>signaling_thread\<close> and \<open>signaling_shutdown\<close> of \<open>src/signaling.c\<close> as two threads that
  interleave at the granularity of their accesses to \<open>g_ws_lock\<close>, \<open>g_wsi\<close> and the context.
  The service thread takes the lock, looks at \<open>g_wsi\<close>, releases the lock, loads \<open>g_wsi\<close>
  again without it and calls \<open>lws_service\<close> on what it loaded. The thread that shuts down
  takes the lock, takes \<open>g_wsi\<close> away, releases the lock and destroys the context; it does not
  wait for the service thread. \<open>fault\<close> records a call of \<open>lws_service\<close> on no context or on a
  destroyed one.
\<close>

datatype owner = Nobody | Service | Application

datatype service_pc =
    V_lock
  | V_check
  | V_load
  | V_serve "lws_context option"
  | V_exit

datatype shutdown_pc =
    H_idle
  | H_clear
  | H_destroy "lws_context option"
  | H_done

record race =
  r_wsi :: "lws_context option"
  r_lock :: owner
  r_alive :: "lws_context set"
  r_service :: service_pc
  r_shutdown :: shutdown_pc
  fault :: bool

text \<open>The state \<open>signaling_init\<close> leaves: the context exists and the thread has started.\<close>

definition race_start :: "lws_context \<Rightarrow> race" where
  "race_start c =
     \<lparr>r_wsi = Some c, r_lock = Nobody, r_alive = {c}, r_service = V_lock, r_shutdown = H_idle,
      fault = False\<rparr>"

text \<open>One step of \<open>signaling_thread\<close>; \<open>None\<close> when it cannot move.\<close>

definition service_step :: "race \<Rightarrow> race option" where
  "service_step s =
     (case r_service s of
        V_lock \<Rightarrow> if r_lock s = Nobody then Some (s\<lparr>r_lock := Service, r_service := V_check\<rparr>) else None
      | V_check \<Rightarrow> Some (s\<lparr>r_lock := Nobody, r_service := (if r_wsi s \<noteq> None then V_load else V_exit)\<rparr>)
      | V_load \<Rightarrow> Some (s\<lparr>r_service := V_serve (r_wsi s)\<rparr>)
      | V_serve ctx \<Rightarrow>
          Some (s\<lparr>r_service := V_lock,
                  fault := (fault s \<or> (case ctx of None \<Rightarrow> True | Some c \<Rightarrow> c \<notin> r_alive s))\<rparr>)
      | V_exit \<Rightarrow> None)"

text \<open>One step of \<open>signaling_shutdown\<close>.\<close>

definition shutdown_step :: "race \<Rightarrow> race option" where
  "shutdown_step s =
     (case r_shutdown s of
        H_idle \<Rightarrow> if r_lock s = Nobody then Some (s\<lparr>r_lock := Application, r_shutdown := H_clear\<rparr>) else None
      | H_clear \<Rightarrow> Some (s\<lparr>r_wsi := None, r_lock := Nobody, r_shutdown := H_destroy (r_wsi s)\<rparr>)
      | H_destroy ctx \<Rightarrow>
          Some (s\<lparr>r_alive := (case ctx of Some c \<Rightarrow> r_alive s - {c} | None \<Rightarrow> r_alive s), r_shutdown := H_done\<rparr>)
      | H_done \<Rightarrow> None)"

inductive race_step :: "race \<Rightarrow> race \<Rightarrow> bool" where
  service: "service_step s = Some t \<Longrightarrow> race_step s t"
| shutdown: "shutdown_step s = Some t \<Longrightarrow> race_step s t"

inductive race_reachable :: "lws_context \<Rightarrow> race \<Rightarrow> bool" for c where
  start: "race_reachable c (race_start c)"
| move: "race_reachable c s \<Longrightarrow> race_step s t \<Longrightarrow> race_reachable c t"

text \<open>A schedule: whose turn it is, one thread after the other.\<close>

fun run_race :: "bool list \<Rightarrow> race \<Rightarrow> race option" where
  "run_race [] s = Some s"
| "run_race (b # bs) s = Option.bind (if b then service_step s else shutdown_step s) (run_race bs)"

definition service_left :: "race \<Rightarrow> nat" where
  "service_left s =
     (case r_service s of V_load \<Rightarrow> 4 | V_serve _ \<Rightarrow> 3 | V_lock \<Rightarrow> 2 | V_check \<Rightarrow> 1 | V_exit \<Rightarrow> 0)"

definition race_inv :: "lws_context \<Rightarrow> race \<Rightarrow> bool" where
  "race_inv c s \<longleftrightarrow>
     (r_lock s = Service) = (r_service s = V_check) \<and>
     (r_lock s = Application) = (r_shutdown s = H_clear) \<and>
     (case r_shutdown s of
        H_destroy ctx \<Rightarrow> ctx = Some c \<and> r_wsi s = None \<and> r_alive s = {c}
      | H_done \<Rightarrow> r_wsi s = None \<and> r_alive s = {}
      | _ \<Rightarrow> r_wsi s = Some c \<and> r_alive s = {c} \<and> \<not> fault s
             \<and> r_service s \<noteq> V_exit \<and> r_service s \<noteq> V_serve None) \<and>
     (case r_service s of V_serve (Some x) \<Rightarrow> x = c | _ \<Rightarrow> True)"

text \<open>The service thread alone, for some steps or until it cannot move.\<close>

fun service_run :: "nat \<Rightarrow> race \<Rightarrow> race" where
  "service_run 0 s = s"
| "service_run (Suc n) s = (case service_step s of Some t \<Rightarrow> service_run n t | None \<Rightarrow> s)"


section \<open>Facts\<close>

inductive_simps race_step_iff: "race_step s t"

lemma run_race_reachable: "race_reachable c s \<Longrightarrow> run_race bs s = Some t \<Longrightarrow> race_reachable c t"
proof (induction bs arbitrary: s)
  case (Cons b bs)
  then obtain u where u: "(if b then service_step s else shutdown_step s) = Some u" "run_race bs u = Some t"
    by (auto simp: bind_eq_Some_conv split: if_splits)
  then have "race_step s u" by (auto simp: race_step_iff split: if_splits)
  with Cons u(2) show ?case by (blast intro: race_reachable.move)
qed simp

lemma run_race_append: "run_race (bs @ cs) s = Option.bind (run_race bs s) (run_race cs)"
proof (induction bs arbitrary: s)
  case (Cons b bs)
  then show ?case by (cases "if b then service_step s else shutdown_step s") simp_all
qed simp

text \<open>The reachable states are those some schedule leads to.\<close>

lemma race_reachable_iff: "race_reachable c t \<longleftrightarrow> (\<exists>bs. run_race bs (race_start c) = Some t)"
proof
  show "\<exists>bs. run_race bs (race_start c) = Some t" if "race_reachable c t"
    using that
  proof (induction rule: race_reachable.induct)
    case start
    then show ?case by (rule exI[of _ "[]"]) simp
  next
    case (move s t)
    then obtain bs where "run_race bs (race_start c) = Some s" by blast
    moreover obtain b where "(if b then service_step s else shutdown_step s) = Some t"
      using move.hyps(2) by (auto simp: race_step_iff intro: that[of True] that[of False])
    ultimately have "run_race (bs @ [b]) (race_start c) = Some t" by (simp add: run_race_append)
    then show ?case ..
  qed
qed (auto intro: run_race_reachable race_reachable.start)

lemma race_inv_start: "race_inv c (race_start c)"
  by (simp add: race_inv_def race_start_def)

lemma race_inv_service: "race_inv c s \<Longrightarrow> service_step s = Some t \<Longrightarrow> race_inv c t"
  by (cases "r_service s"; cases "r_shutdown s"; cases "r_lock s")
    (auto simp: service_step_def race_inv_def split: option.splits)

lemma race_inv_shutdown: "race_inv c s \<Longrightarrow> shutdown_step s = Some t \<Longrightarrow> race_inv c t"
  by (cases "r_shutdown s"; cases "r_service s"; cases "r_lock s")
    (auto simp: shutdown_step_def race_inv_def split: option.splits)

lemma race_inv_step: "race_inv c s \<Longrightarrow> race_step s t \<Longrightarrow> race_inv c t"
  by (auto simp: race_step_iff intro: race_inv_service race_inv_shutdown)

lemma race_inv_reachable: "race_reachable c s \<Longrightarrow> race_inv c s"
  by (induction rule: race_reachable.induct) (auto intro: race_inv_start race_inv_step)

lemma service_progress:
  assumes "race_inv c s" and "r_shutdown s = H_done" and "r_service s \<noteq> V_exit"
  shows "\<exists>t. service_step s = Some t \<and> service_left t < service_left s \<and> r_shutdown t = H_done"
  using assms
  by (cases "r_service s"; cases "r_lock s")
    (auto simp: service_step_def service_left_def race_inv_def)

lemma service_run_exits:
  "race_inv c s \<Longrightarrow> r_shutdown s = H_done \<Longrightarrow> service_left s \<le> n \<Longrightarrow> r_service (service_run n s) = V_exit"
proof (induction n arbitrary: s)
  case 0
  then show ?case by (cases "r_service s") (simp_all add: service_left_def)
next
  case (Suc n)
  show ?case
  proof (cases "r_service s = V_exit")
    case True
    then show ?thesis by (simp add: service_step_def)
  next
    case False
    then obtain t where t: "service_step s = Some t" "service_left t < service_left s" "r_shutdown t = H_done"
      using service_progress[OF Suc.prems(1,2)] by blast
    moreover have "race_inv c t" using race_inv_step[OF Suc.prems(1)] t(1) race_step.service by blast
    ultimately show ?thesis using Suc by simp
  qed
qed


section \<open>Properties\<close>



text \<open>
  Shutting down races with the service thread. Since \<open>signaling_shutdown\<close> neither holds the
  lock while it destroys the context nor waits for the thread, there are interleavings in which
  the thread, having seen a context, calls \<open>lws_service\<close> on \<open>NULL\<close>, and others in which it calls it
  on the context after its destruction.
\<close>

lemma service_after_destroy:
  "(\<exists>s. race_reachable c s \<and> r_service s = V_serve None)
   \<and> (\<exists>s. race_reachable c s \<and> r_service s = V_serve (Some c) \<and> c \<notin> r_alive s)"
proof
  have "run_race [True, True, False, False, True] (race_start c) =
      Some \<lparr>r_wsi = None, r_lock = Nobody, r_alive = {c}, r_service = V_serve None,
        r_shutdown = H_destroy (Some c), fault = False\<rparr>"
    by (simp add: race_start_def service_step_def shutdown_step_def)
  from run_race_reachable[OF race_reachable.start this]
  show "\<exists>s. race_reachable c s \<and> r_service s = V_serve None" by force
  have "run_race [True, True, True, False, False, False] (race_start c) =
      Some \<lparr>r_wsi = None, r_lock = Nobody, r_alive = {}, r_service = V_serve (Some c),
        r_shutdown = H_done, fault = False\<rparr>"
    by (simp add: race_start_def service_step_def shutdown_step_def)
  from run_race_reachable[OF race_reachable.start this]
  show "\<exists>s. race_reachable c s \<and> r_service s = V_serve (Some c) \<and> c \<notin> r_alive s" by force
qed

end
