(* ===== verification/Signaling_Fragments.thy ===== *)
theory Signaling_Fragments
  imports Signaling
begin

text \<open>
  The protocol table of \<open>src/signaling.c\<close> and what its receive buffer means for long messages.
  libwebsockets hands a message to the callback in one piece as long as it fits \<open>rx_buffer_size\<close>; a
  longer one spills into several calls, each with a full buffer but the last. This documented
  behaviour is the predicate \<open>spills\<close>; how the library splits is otherwise left open. The
  callback treats every call as a message of its own.
\<close>

datatype protocols_enum =
    PROTOCOL_HTTP
  | PROTOCOL_SIGNALING
  | PROTOCOL_COUNT

fun protocol_num :: "protocols_enum \<Rightarrow> nat" where
  "protocol_num PROTOCOL_HTTP = 0"
| "protocol_num PROTOCOL_SIGNALING = 1"
| "protocol_num PROTOCOL_COUNT = 2"

text \<open>The only callback the table names is \<open>callback_signaling\<close>; \<open>lp_callback\<close> tells whether it is
  given, and the entry that ends the table is all zero.\<close>

record lws_protocols =
  lp_name :: "string option"
  lp_callback :: bool
  per_session_data_size :: nat
  rx_buffer_size :: nat

definition protocols :: "lws_protocols list" where
  "protocols =
     [\<lparr>lp_name = Some ''http'', lp_callback = True, per_session_data_size = 0, rx_buffer_size = 4096\<rparr>,
      \<lparr>lp_name = Some ''nearcade-signaling'', lp_callback = True, per_session_data_size = 0, rx_buffer_size = 4096\<rparr>,
      \<lparr>lp_name = None, lp_callback = False, per_session_data_size = 0, rx_buffer_size = 0\<rparr>]"

definition spills :: "nat \<Rightarrow> string \<Rightarrow> string list \<Rightarrow> bool" where
  "spills n d cs \<longleftrightarrow>
     concat cs = d \<and> list_all (\<lambda>c. c \<noteq> [] \<and> length c \<le> n) cs \<and> list_all (\<lambda>c. length c = n) (butlast cs)"

text \<open>What reaches the WebRTC side when the parts of a message arrive one after the other.\<close>

definition handed_over :: "lws \<Rightarrow> string list \<Rightarrow> signaling \<Rightarrow> (string \<times> string) list" where
  "handed_over wsi cs st =
     snd (fold (\<lambda>c. callback_signaling (\<lambda>_ _ w. w) (\<lambda>vid data w. w @ [(vid, data)]) (\<lambda>_ w. w) wsi
                  (LWS_CALLBACK_RECEIVE c)) cs (st, []))"


section \<open>Facts\<close>

lemma protocols_terminated:
  "length protocols = Suc (protocol_num PROTOCOL_COUNT)"
  "lp_name p = None \<longleftrightarrow> p = last protocols" if "p \<in> set protocols"
  using that by (auto simp: protocols_def)

lemma rx_buffer_size_signaling [simp]: "rx_buffer_size (protocols ! protocol_num PROTOCOL_SIGNALING) = 4096"
  by (simp add: protocols_def)

lemma spills_whole:
  assumes "spills n d cs" and "d \<noteq> []" and "length d \<le> n"
  shows "cs = [d]"
proof (cases cs)
  case Nil
  then show ?thesis using assms(1,2) by (simp add: spills_def)
next
  case (Cons c cs')
  have "cs' = []"
  proof (rule ccontr)
    assume "cs' \<noteq> []"
    then have "length c = n" "hd cs' \<noteq> []" "concat cs' = hd cs' @ concat (tl cs')"
      using assms(1) Cons by (cases cs'; simp add: spills_def)+
    then have "n < length d" using assms(1) Cons by (auto simp: spills_def)
    then show False using assms(3) by simp
  qed
  then show ?thesis using assms(1) Cons by (simp add: spills_def)
qed

lemma spills_first:
  assumes "spills n d cs" and "n \<le> length d" and "0 < n"
  obtains cs' where "cs = take n d # cs'"
proof (cases cs)
  case Nil
  then show ?thesis using assms by (simp add: spills_def)
next
  case (Cons c cs')
  have "length c = n"
  proof (cases cs')
    case Nil
    then show ?thesis using assms(1,2) Cons by (auto simp: spills_def)
  next
    case (Cons c' cs'')
    then show ?thesis using assms(1) \<open>cs = c # cs'\<close> by (simp add: spills_def)
  qed
  then have "c = take n d" using assms(1) Cons by (auto simp: spills_def)
  then show ?thesis using that Cons by blast
qed

text \<open>The callback looks at the first 4095 bytes only.\<close>

lemma receive_cut:
  "callback_signaling v m f wsi (LWS_CALLBACK_RECEIVE inp) = callback_signaling v m f wsi (LWS_CALLBACK_RECEIVE (take 4095 inp))"
  by (simp add: callback_signaling_def)

lemma receive_part:
  assumes "sig_inv st" and "g_msg_cb st" and "viewer_at st i = Some wsi" and "c_string c"
  shows "callback_signaling (\<lambda>_ _ w. w) (\<lambda>vid data w. w @ [(vid, data)]) (\<lambda>_ w. w) wsi (LWS_CALLBACK_RECEIVE c) (st, w) =
    (st, w @ [(viewer_id_of (int i), take 4095 c)])"
proof -
  have "c_string (take 4095 c)" using assms(4) by (auto simp: c_string_def dest: in_set_takeD)
  then show ?thesis
    using receive_from_viewer[OF assms(1) _ _ assms(3), of "take 4095 c"] assms(2) by (subst receive_cut) simp
qed

lemma handed_over_parts:
  assumes "sig_inv st" and "g_msg_cb st" and "viewer_at st i = Some wsi" and "c_string (concat cs)"
  shows "handed_over wsi cs st = map (\<lambda>c. (viewer_id_of (int i), take 4095 c)) cs"
proof -
  have "\<forall>c\<in>set cs. c_string c" using assms(4) by (auto simp: c_string_def)
  then have "fold (\<lambda>c. callback_signaling (\<lambda>_ _ w. w) (\<lambda>vid data w. w @ [(vid, data)]) (\<lambda>_ w. w) wsi
      (LWS_CALLBACK_RECEIVE c)) cs (st, w) = (st, w @ map (\<lambda>c. (viewer_id_of (int i), take 4095 c)) cs)" for w
    by (induction cs arbitrary: w) (simp_all add: receive_part[OF assms(1-3)])
  then show ?thesis by (simp add: handed_over_def)
qed


section \<open>Properties\<close>



end
