(* ===== verification/Session_Race.thy ===== *)
theory Session_Race
  imports Webrtc
begin

text \<open>
  \<open>webrtc_viewer_joined\<close> and \<open>webrtc_shutdown\<close> of \<open>src/webrtc.cpp\<close> as two threads. The service thread
  tests \<open>g_initialized\<close> without \<open>g_lock\<close>, builds the session with calls of the library, and takes
  the lock only to append it to \<open>g_sessions\<close>. The thread that shuts down clears the sessions and
  \<open>g_initialized\<close> under the lock, in one step. \<open>nearcade_shutdown\<close> calls \<open>webrtc_shutdown\<close> first, while
  the signaling server still runs.
\<close>

text \<open>\<open>create_session\<close> in its two parts, before and inside the guard.\<close>

definition build_session :: "webrtc \<Rightarrow> pc \<times> webrtc" where
  "build_session wr =
     (let h = next_pc wr
      in (h, rtc [R_peer_connection h ''stun:stun.l.google.com:19302'',
                  R_data_channel h ''nearcade-input'', R_add_track h] (wr\<lparr>next_pc := h + 1\<rparr>)))"

definition push_session :: "int \<Rightarrow> pc \<Rightarrow> webrtc \<Rightarrow> webrtc" where
  "push_session viewer_idx h wr =
     (let wr = lock_guard wr;
          wr = wr\<lparr>g_sessions := g_sessions wr @ [new_session viewer_idx h]\<rparr>
      in end_guard wr)"

datatype join_pc =
    J_test
  | J_build
  | J_push pc
  | J_done

record join_race =
  jr_wr :: webrtc
  jr_join :: join_pc
  jr_stopped :: bool

definition join_start :: "webrtc \<Rightarrow> join_race" where
  "join_start wr = \<lparr>jr_wr = wr, jr_join = J_test, jr_stopped = False\<rparr>"

definition join_step :: "int \<Rightarrow> join_race \<Rightarrow> join_race" where
  "join_step viewer_idx s =
     (case jr_join s of
        J_test \<Rightarrow> s\<lparr>jr_join := (if g_initialized (jr_wr s) then J_build else J_done)\<rparr>
      | J_build \<Rightarrow> (let (h, wr) = build_session (jr_wr s) in s\<lparr>jr_wr := wr, jr_join := J_push h\<rparr>)
      | J_push h \<Rightarrow> s\<lparr>jr_wr := push_session viewer_idx h (jr_wr s), jr_join := J_done\<rparr>
      | J_done \<Rightarrow> s)"

definition stop_step :: "join_race \<Rightarrow> join_race" where
  "stop_step s = (if jr_stopped s then s else s\<lparr>jr_wr := webrtc_shutdown (jr_wr s), jr_stopped := True\<rparr>)"

text \<open>A schedule: \<open>True\<close> for the service thread, \<open>False\<close> for the one that shuts down.\<close>

definition run_join :: "int \<Rightarrow> bool list \<Rightarrow> webrtc \<Rightarrow> join_race" where
  "run_join viewer_idx bs wr = fold (\<lambda>b. if b then join_step viewer_idx else stop_step) bs (join_start wr)"

text \<open>The sessions, and a peer connection that belongs to none yet.\<close>

definition webrtc_inv_with :: "pc \<Rightarrow> webrtc \<Rightarrow> bool" where
  "webrtc_inv_with h wr \<longleftrightarrow>
     g_lock wr = Unlocked \<and>
     (\<forall>s\<in>set (g_sessions wr). sess_ok s) \<and>
     distinct (h # session_pcs wr) \<and> (\<forall>k\<in>set (h # session_pcs wr). k < next_pc wr) \<and>
     rtc_run {} (rtc_trace wr) = Some (set (h # session_pcs wr)) \<and>
     \<not> list_ex sends_video (rtc_trace wr)"

definition join_inv :: "int \<Rightarrow> join_race \<Rightarrow> bool" where
  "join_inv viewer_idx s \<longleftrightarrow>
     (case jr_join s of J_push h \<Rightarrow> webrtc_inv_with h (jr_wr s) | _ \<Rightarrow> webrtc_inv (jr_wr s)) \<and>
     (jr_stopped s \<longrightarrow> \<not> g_initialized (jr_wr s) \<and>
        (g_sessions (jr_wr s) = []
         \<or> jr_join s = J_done \<and> session_viewers (jr_wr s) = [viewer_idx]))"


section \<open>Facts\<close>

lemma create_session_parts:
  "snd (create_session i wr) = (let (h, wr) = build_session wr in push_session i h wr)"
  by (simp add: create_session_def build_session_def push_session_def Let_def)

lemma build_session_inv: "webrtc_inv wr \<Longrightarrow> webrtc_inv_with (fst (build_session wr)) (snd (build_session wr))"
  by (auto simp: webrtc_inv_def webrtc_inv_with_def build_session_def session_pcs_def rtc_run_append sends_video_def
      less_Suc_eq Let_def)

lemma push_session_inv: "webrtc_inv_with h wr \<Longrightarrow> webrtc_inv (push_session i h wr)"
  by (auto simp: webrtc_inv_def webrtc_inv_with_def push_session_def session_pcs_def lock_guard_def end_guard_def Let_def)

lemma shutdown_inv_with:
  assumes "webrtc_inv_with h wr"
  shows "webrtc_inv_with h (webrtc_shutdown wr)"
proof -
  have lock: "g_lock wr = Unlocked" and h: "h \<notin> set (session_pcs wr)" "distinct (session_pcs wr)"
    using assms by (simp_all add: webrtc_inv_with_def)
  have "concat (map free_session (g_sessions wr)) = map R_free (session_pcs wr)"
    using assms by (simp add: free_sessions_eq webrtc_inv_with_def)
  moreover have "rtc_run (insert h (set (session_pcs wr))) (map R_free (session_pcs wr)) = Some {h}"
    using h rtc_run_free[of "session_pcs wr" "insert h (set (session_pcs wr))"] by (auto simp: insert_Diff_if)
  moreover have "\<not> list_ex sends_video (map R_free hs)" for hs
    by (induction hs) (simp_all add: sends_video_def)
  moreover have "session_pcs (wr\<lparr>g_sessions := [], g_initialized := False\<rparr>) = []"
    by (simp add: session_pcs_def)
  ultimately show ?thesis
    using assms by (simp add: shutdown_eq[OF lock] webrtc_inv_with_def rtc_run_append)
qed

lemma shutdown_fields:
  "g_sessions (webrtc_shutdown wr) = []" "\<not> g_initialized (webrtc_shutdown wr)"
  by (simp_all add: webrtc_shutdown_def Let_def)

lemma build_session_fields:
  "g_sessions (snd (build_session wr)) = g_sessions wr" "g_initialized (snd (build_session wr)) = g_initialized wr"
  by (simp_all add: build_session_def Let_def)

lemma push_session_fields:
  "g_sessions (push_session i h wr) = g_sessions wr @ [new_session i h]"
  "g_initialized (push_session i h wr) = g_initialized wr"
  by (simp_all add: push_session_def Let_def lock_guard_def)

lemma join_inv_start: "webrtc_inv wr \<Longrightarrow> join_inv i (join_start wr)"
  by (simp add: join_inv_def join_start_def)

lemma join_inv_join: "join_inv i s \<Longrightarrow> join_inv i (join_step i s)"
  by (cases "jr_join s")
    (auto simp: join_inv_def join_step_def split_beta build_session_inv push_session_inv build_session_fields
      push_session_fields session_viewers_def)

lemma join_inv_stop: "join_inv i s \<Longrightarrow> join_inv i (stop_step s)"
  by (cases "jr_join s")
    (auto simp: join_inv_def stop_step_def shutdown_inv_with webrtc_inv_shutdown shutdown_fields)

lemma join_inv_run: "webrtc_inv wr \<Longrightarrow> join_inv i (run_join i bs wr)"
proof -
  have "join_inv i (fold (\<lambda>b. if b then join_step i else stop_step) bs s)" if "join_inv i s" for s
    using that by (induction bs arbitrary: s) (simp_all add: join_inv_join join_inv_stop)
  then show "webrtc_inv wr \<Longrightarrow> ?thesis" by (simp add: run_join_def join_inv_start)
qed


section \<open>Properties\<close>



end
