(* ===== verification/Session_Failure.thy ===== *)
theory Session_Failure
  imports Webrtc
begin

text \<open>
  \<open>create_session\<close> of \<open>src/webrtc.cpp\<close> when the library throws. \<open>make_shared<PeerConnection>\<close>,
  \<open>createDataChannel\<close> and \<open>addTrack\<close> may raise an exception; nothing in \<open>create_session\<close> or
  \<open>webrtc_viewer_joined\<close> catches it. \<open>throws\<close> says which of the three calls raises one. The
  half-built session is a local \<open>unique_ptr\<close>: leaving the function destroys it, and with it the peer
  connection if there is one. The mutex has not been taken yet.
\<close>

datatype 'a outcome =
    Returned 'a
  | Threw

datatype library_step =
    At_peer_connection
  | At_data_channel
  | At_add_track

definition create_session_throwing ::
    "library_step option \<Rightarrow> int \<Rightarrow> webrtc \<Rightarrow> int outcome \<times> webrtc" where
  "create_session_throwing throws viewer_idx wr =
     (let h = next_pc wr in
      case throws of
        Some At_peer_connection \<Rightarrow> (Threw, wr)
      | Some At_data_channel \<Rightarrow>
          (Threw, rtc [R_peer_connection h ''stun:stun.l.google.com:19302'', R_free h] (wr\<lparr>next_pc := h + 1\<rparr>))
      | Some At_add_track \<Rightarrow>
          (Threw, rtc [R_peer_connection h ''stun:stun.l.google.com:19302'',
                       R_data_channel h ''nearcade-input'', R_free h] (wr\<lparr>next_pc := h + 1\<rparr>))
      | None \<Rightarrow> (let (i, wr) = create_session viewer_idx wr in (Returned i, wr)))"

definition webrtc_viewer_joined_throwing ::
    "library_step option \<Rightarrow> int \<Rightarrow> webrtc \<Rightarrow> nearcade_error outcome \<times> webrtc" where
  "webrtc_viewer_joined_throwing throws viewer_idx wr =
     (if \<not> g_initialized wr then (Returned NEARCADE_ERR_INIT, wr)
      else
        case create_session_throwing throws viewer_idx wr of
          (Threw, wr) \<Rightarrow> (Threw, wr)
        | (Returned i, wr) \<Rightarrow> (Returned NEARCADE_OK, wr))"


section \<open>Facts\<close>

lemma joined_without_exception:
  "webrtc_viewer_joined_throwing None i wr =
     (Returned (fst (webrtc_viewer_joined i wr)), snd (webrtc_viewer_joined i wr))"
  by (simp add: webrtc_viewer_joined_throwing_def create_session_throwing_def webrtc_viewer_joined_def split_beta)

lemma thrown_step:
  "fst (webrtc_viewer_joined_throwing throws i wr) = Threw \<longleftrightarrow> g_initialized wr \<and> throws \<noteq> None"
  by (auto simp: webrtc_viewer_joined_throwing_def create_session_throwing_def Let_def split_beta
      split: option.split library_step.split)

lemma thrown_state:
  assumes "webrtc_viewer_joined_throwing throws i wr = (Threw, wr')" and "webrtc_inv wr"
  shows "g_sessions wr' = g_sessions wr" and "webrtc_inv wr'"
    and "rtc_run {} (rtc_trace wr') = rtc_run {} (rtc_trace wr)"
proof -
  have fresh: "next_pc wr \<notin> set (session_pcs wr)" using assms(2) by (auto simp: webrtc_inv_def)
  obtain st where st: "throws = Some st" "create_session_throwing (Some st) i wr = (Threw, wr')"
    using assms(1) thrown_step[of throws i wr]
    by (auto simp: webrtc_viewer_joined_throwing_def split: if_splits prod.splits outcome.splits)
  have "g_sessions wr' = g_sessions wr \<and> webrtc_inv wr' \<and> rtc_run {} (rtc_trace wr') = rtc_run {} (rtc_trace wr)"
    using st(2) assms(2) fresh
    by (cases st) (auto simp: create_session_throwing_def webrtc_inv_def session_pcs_def rtc_run_append
        sends_video_def less_SucI Let_def)
  then show "g_sessions wr' = g_sessions wr" "webrtc_inv wr'"
    "rtc_run {} (rtc_trace wr') = rtc_run {} (rtc_trace wr)" by simp_all
qed

lemma no_session_index:
  "i \<notin> set (session_viewers wr) \<Longrightarrow> first_index (\<lambda>s. sess_viewer_idx s = i) (g_sessions wr) = None"
  by (auto simp: session_viewers_def first_index_None_iff)


section \<open>Properties\<close>



end
