(* ===== verification/Shutdown_Race.thy ===== *)
theory Shutdown_Race
  imports Thread_Compat
begin

text \<open>
  \<open>src/atomic_compat.h\<close> and the use \<open>nearcade_shutdown\<close> of \<open>src/nearcade.c\<close> makes of it. The flags
  of the global state are atomic cells with a load and a store and no compare-and-exchange. Two
  threads that call \<open>nearcade_shutdown\<close> interleave at the granularity of these accesses: each
  loads \<open>running\<close>, returns if it is 0, stores 0, and then tears the components down and destroys
  the mutexes, of which \<open>viewer_lock\<close> stands for both.
\<close>

text \<open>The cell is 32 bits wide in both variants (\<open>long\<close> with MSVC, \<open>atomic_int\<close> elsewhere).\<close>

type_synonym nearcade_atomic_int = "32 word"

definition nearcade_atomic_store :: "nearcade_atomic_int \<Rightarrow> nearcade_atomic_int \<Rightarrow> nearcade_atomic_int" where
  "nearcade_atomic_store val ptr = val"

definition nearcade_atomic_load :: "nearcade_atomic_int \<Rightarrow> int" where
  "nearcade_atomic_load ptr = sint ptr"

text \<open>The MSVC variant exchanges the content and drops the old one.\<close>

definition InterlockedExchange :: "nearcade_atomic_int \<Rightarrow> nearcade_atomic_int \<Rightarrow> nearcade_atomic_int \<times> nearcade_atomic_int" where
  "InterlockedExchange val ptr = (ptr, val)"

definition msvc_atomic_store :: "nearcade_atomic_int \<Rightarrow> nearcade_atomic_int \<Rightarrow> nearcade_atomic_int" where
  "msvc_atomic_store val ptr = snd (InterlockedExchange val ptr)"

definition msvc_atomic_load :: "nearcade_atomic_int \<Rightarrow> int" where
  "msvc_atomic_load ptr = sint ptr"

datatype caller_pc =
    C_load
  | C_store
  | C_teardown
  | C_returned

record shutdowns =
  sr_running :: nearcade_atomic_int
  sr_pc :: "bool \<Rightarrow> caller_pc"
  sr_lock :: mutex
  teardowns :: nat

definition shutdowns_start :: shutdowns where
  "shutdowns_start = \<lparr>sr_running = 1, sr_pc = (\<lambda>_. C_load), sr_lock = Unlocked, teardowns = 0\<rparr>"

text \<open>One step of one of the two threads; a thread that has returned does nothing.\<close>

definition caller_step :: "bool \<Rightarrow> shutdowns \<Rightarrow> shutdowns" where
  "caller_step t s =
     (case sr_pc s t of
        C_load \<Rightarrow>
          s\<lparr>sr_pc := (sr_pc s)(t := if nearcade_atomic_load (sr_running s) = 0 then C_returned else C_store)\<rparr>
      | C_store \<Rightarrow>
          s\<lparr>sr_running := nearcade_atomic_store 0 (sr_running s), sr_pc := (sr_pc s)(t := C_teardown)\<rparr>
      | C_teardown \<Rightarrow>
          s\<lparr>sr_lock := nearcade_mutex_destroy (sr_lock s), teardowns := Suc (teardowns s),
            sr_pc := (sr_pc s)(t := C_returned)\<rparr>
      | C_returned \<Rightarrow> s)"

text \<open>A thread that has passed the test and will still tear down.\<close>

definition committed :: "caller_pc \<Rightarrow> bool" where
  "committed c \<longleftrightarrow> c = C_store \<or> c = C_teardown"

definition pending :: "shutdowns \<Rightarrow> nat" where
  "pending s = of_bool (committed (sr_pc s True)) + of_bool (committed (sr_pc s False))"

definition waiting :: "shutdowns \<Rightarrow> nat" where
  "waiting s = of_bool (sr_pc s True = C_load) + of_bool (sr_pc s False = C_load)"

definition shutdowns_inv :: "shutdowns \<Rightarrow> bool" where
  "shutdowns_inv s \<longleftrightarrow>
     sr_running s \<in> {0, 1}
     \<and> sr_lock s = (if teardowns s = 0 then Unlocked else if teardowns s = 1 then Uninit else Broken)
     \<and> teardowns s + pending s + waiting s \<le> 2
     \<and> (sr_running s = 0 \<or> sr_pc s True = C_load \<or> sr_pc s True = C_store)
     \<and> (sr_running s = 0 \<or> sr_pc s False = C_load \<or> sr_pc s False = C_store)
     \<and> (sr_running s = 0 \<longrightarrow> 1 \<le> teardowns s + pending s)
     \<and> (sr_running s \<noteq> 0 \<longrightarrow> teardowns s = 0)"


section \<open>Facts\<close>

lemma msvc_atomic_same:
  "msvc_atomic_store val ptr = nearcade_atomic_store val ptr" "msvc_atomic_load ptr = nearcade_atomic_load ptr"
  by (simp_all add: msvc_atomic_store_def InterlockedExchange_def nearcade_atomic_store_def msvc_atomic_load_def
      nearcade_atomic_load_def)

lemma load_flag: "nearcade_atomic_load 0 = 0" "nearcade_atomic_load 1 = 1"
  by (simp_all add: nearcade_atomic_load_def)

lemma shutdowns_inv_start: "shutdowns_inv shutdowns_start"
  by (simp add: shutdowns_inv_def shutdowns_start_def pending_def waiting_def committed_def)

lemma shutdowns_inv_step: "shutdowns_inv s \<Longrightarrow> shutdowns_inv (caller_step t s)"
  by (cases t; cases "sr_pc s True"; cases "sr_pc s False")
    (auto simp: shutdowns_inv_def caller_step_def pending_def waiting_def committed_def load_flag
      nearcade_atomic_store_def)

lemma shutdowns_inv_run: "shutdowns_inv s \<Longrightarrow> shutdowns_inv (fold caller_step ts s)"
  by (induction ts arbitrary: s) (simp_all add: shutdowns_inv_step)

text \<open>A call that begins after another has cleared the flag does nothing.\<close>

lemma late_call_returns:
  assumes "sr_running s = 0" and "sr_pc s t = C_load"
  shows "caller_step t s = s\<lparr>sr_pc := (sr_pc s)(t := C_returned)\<rparr>"
  using assms by (simp add: caller_step_def load_flag)


section \<open>Properties\<close>

text \<open>
  C33. Two threads that shut the SDK down. Whatever the interleaving, when both calls have returned the
  components were torn down once, and the mutexes are destroyed once, or twice, and a mutex was
  destroyed that no longer existed. Both happen: once when one call follows the other, as in the
  shipped test, twice when both load the flag before either stores 0, since load and store are
  two operations.
\<close>

theorem concurrent_shutdowns:
  assumes "fold caller_step ts shutdowns_start = s" and "sr_pc s True = C_returned" and "sr_pc s False = C_returned"
  shows "(teardowns s = 1 \<and> sr_lock s = Uninit \<or> teardowns s = 2 \<and> sr_lock s = Broken)
    \<and> sr_lock (fold caller_step [True, True, True, False] shutdowns_start) = Uninit
    \<and> sr_lock (fold caller_step [True, False, True, True, False, False] shutdowns_start) = Broken"
proof -
  have inv: "shutdowns_inv s" using shutdowns_inv_run[OF shutdowns_inv_start, of ts] assms(1) by simp
  then have "sr_running s = 0" "1 \<le> teardowns s" "teardowns s \<le> 2"
    using assms(2,3) by (auto simp: shutdowns_inv_def pending_def committed_def)
  then have "teardowns s = 1 \<and> sr_lock s = Uninit \<or> teardowns s = 2 \<and> sr_lock s = Broken"
    using inv by (auto simp: shutdowns_inv_def)
  moreover have "sr_lock (fold caller_step [True, True, True, False] shutdowns_start) = Uninit"
    "sr_lock (fold caller_step [True, False, True, True, False, False] shutdowns_start) = Broken"
    by (simp_all add: caller_step_def shutdowns_start_def load_flag nearcade_atomic_store_def)
  ultimately show ?thesis by simp
qed

theorem concurrent_shutdowns_witness:
  "teardowns (fold caller_step [True, True, True, False] shutdowns_start) = 1
   \<and> sr_lock (fold caller_step [True, False, True, True, False, False] shutdowns_start) = Broken"
  using concurrent_shutdowns[of "[True, True, True, False]", OF refl]
  by (auto simp: caller_step_def shutdowns_start_def load_flag nearcade_atomic_store_def)

end
