(* ===== verification/Capture_Race.thy ===== *)
theory Capture_Race
  imports Capture Shutdown_Race
begin

text \<open>
  \<open>nearcade_start_capture\<close> of \<open>src/nearcade.c\<close> with \<open>capture_start\<close> of \<open>src/capture.c\<close> inside, called by
  two threads on Linux. No lock goes with the record of the child: each thread loads \<open>capturing\<close>,
  tests \<open>g_ff.active\<close>, forks, writes the record and stores \<open>capturing\<close>, one step after the other.
\<close>

datatype start_pc =
    K_flag
  | K_active
  | K_fork
  | K_record int
  | K_store
  | K_done

record capture_race =
  kr_ff :: ffmpeg_capture
  kr_capturing :: nearcade_atomic_int
  kr_pc :: "bool \<Rightarrow> start_pc"

definition capture_race_start :: "ffmpeg_capture \<Rightarrow> capture_race" where
  "capture_race_start ff = \<lparr>kr_ff = ff, kr_capturing = 0, kr_pc = (\<lambda>_. K_flag)\<rparr>"

text \<open>One step of thread \<open>t\<close>, for which the system answers \<open>env t\<close>.\<close>

definition start_step ::
    "nearcade_config \<Rightarrow> (bool \<Rightarrow> capture_env) \<Rightarrow> bool \<Rightarrow> capture_race \<Rightarrow> capture_race" where
  "start_step cfg env t s =
     (case kr_pc s t of
        K_flag \<Rightarrow>
          s\<lparr>kr_pc := (kr_pc s)(t := if nearcade_atomic_load (kr_capturing s) \<noteq> 0 then K_done else K_active)\<rparr>
      | K_active \<Rightarrow> s\<lparr>kr_pc := (kr_pc s)(t := if ff_active (kr_ff s) then K_store else K_fork)\<rparr>
      | K_fork \<Rightarrow>
          let pid = fork_ret (env t) in
          s\<lparr>kr_ff := proc [P_fork pid] (kr_ff s), kr_pc := (kr_pc s)(t := if pid < 0 then K_done else K_record pid)\<rparr>
      | K_record pid \<Rightarrow>
          s\<lparr>kr_ff := (proc [P_exec pid (ffmpeg_argv cfg (env t))] (kr_ff s))\<lparr>ff_pid := pid, ff_active := True\<rparr>,
            kr_pc := (kr_pc s)(t := K_store)\<rparr>
      | K_store \<Rightarrow>
          s\<lparr>kr_capturing := nearcade_atomic_store 1 (kr_capturing s), kr_pc := (kr_pc s)(t := K_done)\<rparr>
      | K_done \<Rightarrow> s)"

definition run_starts ::
    "nearcade_config \<Rightarrow> (bool \<Rightarrow> capture_env) \<Rightarrow> bool list \<Rightarrow> ffmpeg_capture \<Rightarrow> capture_race" where
  "run_starts cfg env bs ff = fold (start_step cfg env) bs (capture_race_start ff)"

definition children :: "capture_race \<Rightarrow> int set" where
  "children s = unreaped {} (ff_trace (kr_ff s))"

definition thread_inv :: "(bool \<Rightarrow> capture_env) \<Rightarrow> capture_race \<Rightarrow> bool \<Rightarrow> bool" where
  "thread_inv env s t \<longleftrightarrow>
     (case kr_pc s t of
        K_record pid \<Rightarrow> pid = fork_ret (env t) \<and> pid \<in> children s
      | K_store \<Rightarrow> ff_active (kr_ff s)
      | K_done \<Rightarrow> ff_active (kr_ff s)
      | _ \<Rightarrow> True)"

definition capture_race_inv :: "(bool \<Rightarrow> capture_env) \<Rightarrow> capture_race \<Rightarrow> bool" where
  "capture_race_inv env s \<longleftrightarrow>
     children s \<subseteq> {fork_ret (env True), fork_ret (env False)}
     \<and> (ff_active (kr_ff s) \<longrightarrow> ff_pid (kr_ff s) \<in> children s)
     \<and> (kr_capturing s \<noteq> 0 \<longrightarrow> ff_active (kr_ff s))
     \<and> thread_inv env s True \<and> thread_inv env s False"

text \<open>Answers with which two forks succeed.\<close>

definition forks :: "int \<Rightarrow> int \<Rightarrow> bool \<Rightarrow> capture_env" where
  "forks p q t = \<lparr>fork_ret = (if t then p else q), popen_line = None, wait1 = 0, wait2 = 0, wait3 = 0\<rparr>"


section \<open>Facts\<close>

text \<open>Undisturbed, the steps are the call of the sequential model.\<close>

lemma start_alone:
  assumes "\<not> ff_active ff" and "0 < fork_ret (env True)"
  shows "kr_ff (run_starts cfg env [True, True, True, True, True] ff) = snd (capture_start Linux cfg (env True) ff)"
  using assms by (simp add: run_starts_def start_step_def capture_race_start_def capture_start_def load_flag Let_def)

lemma load_zero: "nearcade_atomic_load c = 0 \<longleftrightarrow> c = 0"
  by (simp add: nearcade_atomic_load_def signed_eq_0_iff)

lemma capture_race_inv_start:
  "capture_inv ff \<Longrightarrow> \<not> ff_active ff \<Longrightarrow> capture_race_inv env (capture_race_start ff)"
  by (simp add: capture_race_inv_def capture_race_start_def children_def thread_inv_def capture_inv_def)

lemma capture_race_inv_step:
  assumes "capture_race_inv env s" and "0 < fork_ret (env True)" and "0 < fork_ret (env False)"
  shows "capture_race_inv env (start_step cfg env t s)"
proof -
  have pos: "0 < fork_ret (env t)" using assms(2,3) by (cases t) simp_all
  show ?thesis
    using assms(1) pos
    by (cases t; cases "kr_pc s t")
      (auto simp: capture_race_inv_def start_step_def thread_inv_def children_def load_zero nearcade_atomic_store_def
        Let_def split: start_pc.splits)
qed

lemma capture_race_inv_run:
  assumes "capture_race_inv env s" and "0 < fork_ret (env True)" and "0 < fork_ret (env False)"
  shows "capture_race_inv env (fold (start_step cfg env) bs s)"
  using assms(1) by (induction bs arbitrary: s) (simp_all add: capture_race_inv_step assms(2,3))

text \<open>A stop reaps the recorded child and no other.\<close>

lemma stop_reaps_recorded:
  assumes "ff_active ff" and "0 < ff_pid ff" and "wait_answers env (ff_pid ff)"
  shows "unreaped {} (ff_trace (snd (capture_stop Linux env ff))) = unreaped {} (ff_trace ff) - {ff_pid ff}"
  using assms by (auto simp: capture_stop_def wait_answers_def Let_def)


section \<open>Properties\<close>

text \<open>
  C21. Two threads that start capturing. Whatever the interleaving, when both calls are through a child is
  recorded, and the children are that one or, when both threads tested \<open>g_ff.active\<close> before either
  set it, two. Stopping reaps the recorded child only: in the second case the other FFmpeg
  process is left running and no call of the SDK can reach it any more.
\<close>

theorem concurrent_starts_leave_child:
  assumes "capture_inv ff" and "\<not> ff_active ff" and "0 < p" and "0 < q" and "p \<noteq> q"
    and "run_starts cfg (forks p q) bs ff = s" and "kr_pc s True = K_done" and "kr_pc s False = K_done"
    and "wait_answers env (ff_pid (kr_ff s))"
  shows "ff_active (kr_ff s) \<and> (children s = {ff_pid (kr_ff s)} \<or> children s = {p, q} \<and> ff_pid (kr_ff s) \<in> {p, q})
    \<and> unreaped {} (ff_trace (snd (capture_stop Linux env (kr_ff s)))) = children s - {ff_pid (kr_ff s)}
    \<and> children (run_starts cfg (forks p q) [True, True, True, True, True, False] ff) = {p}
    \<and> children (run_starts cfg (forks p q) [True, True, False, False, True, False, True, False, True, False] ff) = {p, q}"
proof -
  have inv: "capture_race_inv (forks p q) s"
    using capture_race_inv_run[OF capture_race_inv_start[OF assms(1,2)], of "forks p q" cfg bs] assms(3,4,6)
    by (simp add: run_starts_def forks_def)
  then have act: "ff_active (kr_ff s)" and rec: "ff_pid (kr_ff s) \<in> children s" and sub: "children s \<subseteq> {p, q}"
    using assms(7) by (auto simp: capture_race_inv_def thread_inv_def forks_def)
  have "unreaped {} (ff_trace (snd (capture_stop Linux env (kr_ff s)))) = children s - {ff_pid (kr_ff s)}"
    unfolding children_def using act rec sub assms(3,4,9) by (intro stop_reaps_recorded) auto
  moreover have "unreaped {} (ff_trace ff) = {}" using assms(1,2) by (simp add: capture_inv_def)
  then have "children (run_starts cfg (forks p q) [True, True, True, True, True, False] ff) = {p}"
    "children (run_starts cfg (forks p q) [True, True, False, False, True, False, True, False, True, False] ff) = {p, q}"
    using assms(2,3,4,5) by (auto simp: run_starts_def start_step_def capture_race_start_def children_def load_zero
        nearcade_atomic_store_def forks_def Let_def)
  moreover have "children s = {ff_pid (kr_ff s)} \<or> children s = {p, q}" using rec sub by auto
  ultimately show ?thesis using act rec sub by auto
qed

theorem concurrent_starts_leave_child_witness:
  "unreaped {} (ff_trace (snd (capture_stop Linux
      \<lparr>fork_ret = 0, popen_line = None, wait1 = 0, wait2 = 0, wait3 = 43\<rparr>
      (kr_ff (run_starts NEARCADE_DEFAULT_CONFIG (forks 42 43)
        [True, True, False, False, True, False, True, False, True, False] capture_static))))) = {42}"
proof -
  let ?bs = "[True, True, False, False, True, False, True, False, True, False]"
  let ?s = "run_starts NEARCADE_DEFAULT_CONFIG (forks 42 43) ?bs capture_static"
  have "kr_pc ?s True = K_done" "kr_pc ?s False = K_done" "ff_pid (kr_ff ?s) = 43" "children ?s = {42, 43}"
    by (auto simp: run_starts_def start_step_def capture_race_start_def children_def load_zero capture_static_def
        nearcade_atomic_store_def forks_def Let_def)
  moreover have "\<not> ff_active capture_static" by (simp add: capture_static_def)
  ultimately show ?thesis
    using concurrent_starts_leave_child[of capture_static 42 43 NEARCADE_DEFAULT_CONFIG ?bs ?s
        "\<lparr>fork_ret = 0, popen_line = None, wait1 = 0, wait2 = 0, wait3 = 43\<rparr>"]
    by (auto simp: capture_static_inv wait_answers_def)
qed

end
