(* ===== verification/Input_Reports.thy ===== *)
theory Input_Reports
  imports Input_Linux
begin

unbundle bit_operations_syntax

text \<open>
  Two readings of the reports \<open>src/input_linux.c\<close> writes: flushing a slot against submitting the
  packet of a controller at rest, and the button masks of \<open>include/nearcade.h\<close>, which
  applications use, against those of \<open>src/nearcade_internal.h\<close>, which the backend tests.
\<close>

text \<open>The packet of a controller at rest.\<close>

definition neutral_packet :: "8 word \<Rightarrow> nearcade_gamepad_packet" where
  "neutral_packet slot =
     \<lparr>pkt_type = 1, lx = 0, ly = 0, rx = 0, ry = 0, lt = 0, rt = 0, buttons = 0, hx = 0, hy = 0,
      pkt_slot = slot\<rparr>"

text \<open>The key each mask of the public header stands for.\<close>

definition public_keys :: "(int \<times> evcode) list" where
  "public_keys =
     [(NEARCADE_BTN_A, BTN_SOUTH), (NEARCADE_BTN_B, BTN_EAST), (NEARCADE_BTN_Y, BTN_WEST),
      (NEARCADE_BTN_X, BTN_NORTH), (NEARCADE_BTN_LB, BTN_TL), (NEARCADE_BTN_RB, BTN_TR),
      (NEARCADE_BTN_BACK, BTN_SELECT), (NEARCADE_BTN_START, BTN_START), (NEARCADE_BTN_LS, BTN_THUMBL),
      (NEARCADE_BTN_RS, BTN_THUMBR)]"


section \<open>Facts\<close>

lemma mset_ev_calls: "mset (ev_calls fd es) = image_mset (\<lambda>(ty, c, v). Sys_write_ev fd \<lparr>ie_type = ty, ie_code = c, ie_value = v\<rparr>) (mset es)"
  by (induction es) auto

lemma flush_emits_perm: "mset flush_emits = mset (gamepad_emits (neutral_packet slot))"
  by (simp add: gamepad_emits_report pad_report_def neutral_packet_def flush_emits_def)

lemma last_value_zeros:
  assumes "\<forall>(ty, code, w)\<in>set es. w = 0"
  shows "last_value fd c v (ev_calls fd es) = (if \<exists>ty w. (ty, c, w) \<in> set es then 0 else v)"
  using assms by (induction es arbitrary: v) (auto split: if_splits)

lemma last_value_perm:
  assumes "mset es = mset es'" and "\<forall>(ty, code, w)\<in>set es. w = 0"
  shows "last_value fd' c v (ev_calls fd es) = last_value fd' c v (ev_calls fd es')"
proof (cases "fd' = fd")
  case True
  moreover have "set es = set es'" using assms(1) by (rule mset_eq_setD)
  ultimately show ?thesis using assms(2) by (simp add: last_value_zeros)
next
  case False
  then show ?thesis using last_value_other[of fd fd'] by simp
qed

lemma bit_mask: "bit (word_of_int (push_bit k 1) :: 16 word) n \<longleftrightarrow> n < 16 \<and> n = k"
  by (auto simp: bit_simps)

lemmas NEARCADE_BTN_defs = NEARCADE_BTN_A_def NEARCADE_BTN_B_def NEARCADE_BTN_Y_def NEARCADE_BTN_X_def
  NEARCADE_BTN_LB_def NEARCADE_BTN_RB_def NEARCADE_BTN_BACK_def NEARCADE_BTN_START_def
  NEARCADE_BTN_LS_def NEARCADE_BTN_RS_def NEARCADE_BTN_GUIDE_def


section \<open>Properties\<close>

text \<open>
  Flushing a slot is submitting the packet of a controller at rest: for a slot that has a device
  the two write the same events, in another order, so that every device reads the same values
  afterwards, and nothing else differs. For a slot without one neither writes anything, and only
  the answer differs: flushing reports success.
\<close>

lemma flush_is_neutral_packet:
  assumes "input_lock st = Unlocked" and "linux_input_flush_slot slot st = (r, st1)"
    and "linux_input_submit_gamepad (Some (neutral_packet slot)) st = (r', st2)"
  shows "r = NEARCADE_OK \<and> st1\<lparr>trace := []\<rparr> = st2\<lparr>trace := []\<rparr>
    \<and> mset (trace st1) = mset (trace st2)
    \<and> last_value fd c v (trace st1) = last_value fd c v (trace st2)
    \<and> (r' = NEARCADE_OK \<longleftrightarrow> unat slot < MAX_SLOTS \<and> 0 \<le> gp_fds st ! unat slot)
    \<and> (r' \<noteq> NEARCADE_OK \<longrightarrow> st1 = st \<and> st2 = st)"
proof -
  let ?pk = "neutral_packet slot" and ?sync = "[(EV_SYN, SYN_REPORT, 0)]" and ?fd = "gp_fds st ! unat slot"
  have slot: "pkt_slot ?pk = slot" by (simp add: neutral_packet_def)
  have u: "unlock_input (sys cs (lock_input st)) = st\<lparr>trace := trace st @ cs\<rparr>" for cs
    using assms(1) by (simp add: unlock_input_def lock_input_def sys_def)
  have u0: "unlock_input (lock_input st) = st" using u[of "[]"] by simp
  have perm: "mset (flush_emits @ ?sync) = mset (gamepad_emits ?pk @ ?sync)" by (simp add: flush_emits_perm)
  have zero: "\<forall>(ty, code, w)\<in>set (flush_emits @ ?sync). w = 0" by (auto simp: flush_emits_def)
  consider "unat slot \<ge> MAX_SLOTS" | "unat slot < MAX_SLOTS" "?fd < 0" | "unat slot < MAX_SLOTS" "0 \<le> ?fd"
    by linarith
  then show ?thesis
  proof cases
    case 3
    have "st1 = st\<lparr>trace := trace st @ ev_calls ?fd (flush_emits @ ?sync)\<rparr>" "r = NEARCADE_OK"
      "st2 = st\<lparr>trace := trace st @ ev_calls ?fd (gamepad_emits ?pk @ ?sync)\<rparr>" "r' = NEARCADE_OK"
      using assms(2,3) 3 linux_input_submit_gamepad_cases(4)[of ?pk st]
      by (simp_all add: linux_input_flush_slot_eq slot u del: ev_calls_Cons)
    then show ?thesis
      using 3 perm mset_ev_calls[of ?fd] last_value_perm[OF perm zero, of fd c _ ?fd] by (simp del: ev_calls_Cons)
  qed (use assms(2,3) u0 linux_input_submit_gamepad_cases(2,3)[of ?pk st] in
      \<open>auto simp: linux_input_flush_slot_eq slot u0\<close>)
qed

text \<open>
  The masks of the public header mean what the backend makes of them: a packet whose only button
  is one of the ten presses exactly the key of that button and reports the others released.
  The eleventh, the guide button, is bit 16 of a 16-bit field and presses nothing.
\<close>

lemma public_button_presses_its_key:
  assumes "(m, k) \<in> set public_keys"
  shows "filter (\<lambda>e. fst e = EV_KEY) (gamepad_emits (p\<lparr>buttons := word_of_int m\<rparr>)) =
      map (\<lambda>(_, c). (EV_KEY, c, if c = k then 1 else 0)) public_keys @ [(EV_KEY, BTN_MODE, 0)]
    \<and> filter (\<lambda>e. fst e = EV_KEY) (gamepad_emits (p\<lparr>buttons := word_of_int NEARCADE_BTN_GUIDE\<rparr>)) =
      map (\<lambda>(_, c). (EV_KEY, c, 0)) public_keys @ [(EV_KEY, BTN_MODE, 0)]"
proof -
  have keys: "filter (\<lambda>e. fst e = EV_KEY) (gamepad_emits (p\<lparr>buttons := w\<rparr>)) =
      map (\<lambda>(c, n). (EV_KEY, c, of_bool (bit w n)))
       [(BTN_SOUTH, 0), (BTN_EAST, 1), (BTN_WEST, 2), (BTN_NORTH, 3), (BTN_TL, 4), (BTN_TR, 5),
        (BTN_SELECT, 8), (BTN_START, 9), (BTN_THUMBL, 10), (BTN_THUMBR, 11)] @ [(EV_KEY, BTN_MODE, 0)]" for w
    by (simp add: gamepad_emits_report pad_report_def)
  have guide: "filter (\<lambda>e. fst e = EV_KEY) (gamepad_emits (p\<lparr>buttons := word_of_int NEARCADE_BTN_GUIDE\<rparr>)) =
      map (\<lambda>(_, c). (EV_KEY, c, 0)) public_keys @ [(EV_KEY, BTN_MODE, 0)]"
    unfolding keys public_keys_def NEARCADE_BTN_GUIDE_def
    by (simp only: list.map prod.case bit_mask) simp
  have "filter (\<lambda>e. fst e = EV_KEY) (gamepad_emits (p\<lparr>buttons := word_of_int m\<rparr>)) =
      map (\<lambda>(_, c). (EV_KEY, c, if c = k then 1 else 0)) public_keys @ [(EV_KEY, BTN_MODE, 0)]"
    using assms unfolding keys public_keys_def NEARCADE_BTN_defs list.set insert_iff empty_iff prod.inject
    by (elim disjE conjE) (simp_all only: list.map prod.case bit_mask, simp_all)
  with guide show ?thesis by simp
qed

end
