(* ===== verification/Lock_Order.thy ===== *)
theory Lock_Order
  imports Prelude
begin

text \<open>
  Threads that share mutexes, seen through their lock operations. A thread is the list of locks it
  holds and the list of operations it has still to perform; a pool is a list of threads, any of
  which may move next. A thread moves past \<open>Acquire\<close> only while no thread of the pool holds the
  lock, the thread itself included, since the mutexes of the program are not recursive. \<open>Notify\<close>
  marks a call of the application's event callback, \<open>Touch v\<close> an access to the shared variable \<open>v\<close>.

  The locale states the contract the lock operations of a set of calls keep to: locks are taken in
  the order of a rank, every lock is released by the call that took it, the callback is entered
  holding \<open>outer\<close> locks only, and a variable that has a \<open>guard\<close> is accessed only with that lock held. What follows is proved in it once: every pool of threads that make
  such calls is free of deadlock and of races on the guarded variables, comes to an end whatever the scheduler does, and leaves every
  lock free.
\<close>

datatype ('l, 'v) lock_op =
    Acquire 'l
  | Release 'l
  | Notify
  | Touch 'v

type_synonym ('l, 'v) lock_thread = "'l list \<times> ('l, 'v) lock_op list"

type_synonym ('l, 'v) pool = "('l, 'v) lock_thread list"

definition lock_free :: "'l \<Rightarrow> ('l, 'v) pool \<Rightarrow> bool" where
  "lock_free l ts \<longleftrightarrow> (\<forall>t\<in>set ts. l \<notin> set (fst t))"

text \<open>The next operation of one thread; \<open>None\<close> when it has to wait or has finished.\<close>

fun op_step :: "('l, 'v) pool \<Rightarrow> ('l, 'v) lock_thread \<Rightarrow> ('l, 'v) lock_thread option" where
  "op_step ts (hs, []) = None"
| "op_step ts (hs, Acquire l # p) = (if lock_free l ts then Some (l # hs, p) else None)"
| "op_step ts (hs, Release l # p) = (if l \<in> set hs then Some (remove1 l hs, p) else None)"
| "op_step ts (hs, Notify # p) = Some (hs, p)"
| "op_step ts (hs, Touch v # p) = Some (hs, p)"

definition pool_move :: "nat \<Rightarrow> ('l, 'v) pool \<Rightarrow> ('l, 'v) pool option" where
  "pool_move i ts =
     (if i < length ts then map_option (\<lambda>t. ts[i := t]) (op_step ts (ts ! i)) else None)"

inductive pool_step :: "('l, 'v) pool \<Rightarrow> ('l, 'v) pool \<Rightarrow> bool" where
  move: "pool_move i ts = Some us \<Longrightarrow> pool_step ts us"

text \<open>A schedule: which thread moves, one after the other.\<close>

fun run_pool :: "nat list \<Rightarrow> ('l, 'v) pool \<Rightarrow> ('l, 'v) pool option" where
  "run_pool [] ts = Some ts"
| "run_pool (i # is) ts = Option.bind (pool_move i ts) (run_pool is)"

definition pool_start :: "('l, 'v) lock_op list list \<Rightarrow> ('l, 'v) pool" where
  "pool_start ps = map (\<lambda>p. ([], p)) ps"

definition pool_done :: "('l, 'v) pool \<Rightarrow> bool" where
  "pool_done ts \<longleftrightarrow> (\<forall>t\<in>set ts. snd t = [])"

definition pool_stuck :: "('l, 'v) pool \<Rightarrow> bool" where
  "pool_stuck ts \<longleftrightarrow> \<not> pool_done ts \<and> list_all (\<lambda>i. pool_move i ts = None) [0..<length ts]"

definition pool_work :: "('l, 'v) pool \<Rightarrow> nat" where
  "pool_work ts = sum_list (map (\<lambda>t. length (snd t)) ts)"

text \<open>A thread that is about to call the event callback.\<close>

definition notifying :: "('l, 'v) lock_thread \<Rightarrow> bool" where
  "notifying t \<longleftrightarrow> (case snd t of Notify # _ \<Rightarrow> True | _ \<Rightarrow> False)"

text \<open>Two threads that are about to access the same variable.\<close>

definition pool_race :: "'v \<Rightarrow> ('l, 'v) pool \<Rightarrow> bool" where
  "pool_race v ts \<longleftrightarrow>
     1 < length (filter (\<lambda>t. case snd t of Touch w # _ \<Rightarrow> w = v | _ \<Rightarrow> False) ts)"

text \<open>The contract, for a list of operations started while \<open>hs\<close> is held.\<close>

fun disciplined ::
    "('l \<Rightarrow> 'r::linorder) \<Rightarrow> ('l \<Rightarrow> bool) \<Rightarrow> ('v \<Rightarrow> 'l option) \<Rightarrow> 'l list \<Rightarrow> ('l, 'v) lock_op list \<Rightarrow> bool" where
  "disciplined rank outer guard hs [] = (hs = [])"
| "disciplined rank outer guard hs (Acquire l # p) =
     ((\<forall>h\<in>set hs. rank h < rank l) \<and> disciplined rank outer guard (l # hs) p)"
| "disciplined rank outer guard hs (Release l # p) =
     (l \<in> set hs \<and> disciplined rank outer guard (remove1 l hs) p)"
| "disciplined rank outer guard hs (Notify # p) = (list_all outer hs \<and> disciplined rank outer guard hs p)"
| "disciplined rank outer guard hs (Touch v # p) =
     ((case guard v of None \<Rightarrow> True | Some l \<Rightarrow> l \<in> set hs) \<and> disciplined rank outer guard hs p)"

fun acquired :: "('l, 'v) lock_op list \<Rightarrow> 'l list" where
  "acquired [] = []"
| "acquired (Acquire l # p) = l # acquired p"
| "acquired (_ # p) = acquired p"

fun touched :: "('l, 'v) lock_op list \<Rightarrow> 'v list" where
  "touched [] = []"
| "touched (Touch v # p) = v # touched p"
| "touched (_ # p) = touched p"

fun notifies :: "('l, 'v) lock_op list \<Rightarrow> bool" where
  "notifies [] = False"
| "notifies (Notify # p) = True"
| "notifies (_ # p) = notifies p"

text \<open>A pool in which thread \<open>i\<close> makes the calls of the \<open>i\<close>-th list.\<close>

definition call_pool :: "('c \<Rightarrow> ('l, 'v) lock_op list) \<Rightarrow> 'c list list \<Rightarrow> ('l, 'v) pool" where
  "call_pool calls css = pool_start (map (\<lambda>cs. concat (map calls cs)) css)"

text \<open>Every thread keeps to the contract for what it holds, and no lock has two holders.\<close>

definition pool_inv :: "('l \<Rightarrow> 'r::linorder) \<Rightarrow> ('l \<Rightarrow> bool) \<Rightarrow> ('v \<Rightarrow> 'l option) \<Rightarrow> ('l, 'v) pool \<Rightarrow> bool" where
  "pool_inv rank outer guard ts \<longleftrightarrow>
     (\<forall>(hs, p)\<in>set ts. disciplined rank outer guard hs p) \<and> distinct (concat (map fst ts))"


section \<open>Facts\<close>

inductive_simps pool_step_iff: "pool_step ts us"

lemma pool_stuck_iff: "pool_stuck ts \<longleftrightarrow> \<not> pool_done ts \<and> (\<nexists>us. pool_step ts us)"
proof -
  have "pool_move i ts = None" if "\<not> i < length ts" for i using that by (simp add: pool_move_def)
  then have "(\<forall>i<length ts. pool_move i ts = None) \<longleftrightarrow> (\<forall>i. pool_move i ts = None)" by blast
  then show ?thesis by (auto simp: pool_stuck_def list_all_iff pool_step_iff)
qed

lemma stuck_move: "pool_stuck ts \<Longrightarrow> pool_move i ts = None"
  by (cases "pool_move i ts") (auto simp: pool_stuck_iff pool_step_iff)

lemma pool_move_SomeE:
  assumes "pool_move i ts = Some us"
  obtains hs p t where "i < length ts" and "ts ! i = (hs, p)" and "op_step ts (hs, p) = Some t"
    and "us = ts[i := t]"
  using assms by (cases "ts ! i") (auto simp: pool_move_def split: if_splits)

lemma op_step_work: "op_step ts t = Some t' \<Longrightarrow> length (snd t) = Suc (length (snd t'))"
  by (induction ts t rule: op_step.induct) (auto split: if_splits)

lemma sum_list_update_less:
  "i < length xs \<Longrightarrow> xs ! i = Suc v \<Longrightarrow> sum_list xs = Suc (sum_list (xs[i := v]))"
  by (induction xs arbitrary: i) (auto split: nat.splits)

lemma pool_move_work:
  assumes "pool_move i ts = Some us"
  shows "pool_work ts = Suc (pool_work us)"
proof -
  obtain hs p t where i: "i < length ts" "ts ! i = (hs, p)" "op_step ts (hs, p) = Some t"
    "us = ts[i := t]"
    using assms by (rule pool_move_SomeE)
  then show ?thesis
    using sum_list_update_less[of i "map (\<lambda>t. length (snd t)) ts" "length (snd t)"]
      op_step_work[of ts "(hs, p)" t]
    by (simp add: pool_work_def map_update)
qed

lemma run_pool_work: "run_pool is ts = Some us \<Longrightarrow> pool_work ts = length is + pool_work us"
proof (induction "is" arbitrary: ts)
  case (Cons i "is")
  then obtain vs where "pool_move i ts = Some vs" "run_pool is vs = Some us"
    by (auto simp: bind_eq_Some_conv)
  with Cons.IH[of vs] show ?case by (simp add: pool_move_work)
qed simp

lemma pool_work_0: "pool_work ts = 0 \<longleftrightarrow> pool_done ts"
  by (auto simp: pool_work_def pool_done_def)

lemma run_pool_append: "run_pool (is @ js) ts = Option.bind (run_pool is ts) (run_pool js)"
  by (induction "is" arbitrary: ts) (simp_all split: Option.bind_split)

lemma pool_start_props [simp]:
  "pool_work (pool_start ps) = length (concat ps)" "length (pool_start ps) = length ps"
  by (simp_all add: pool_work_def pool_start_def comp_def length_concat)

subsection \<open>Composing disciplined operations\<close>

lemma acquired_append [simp]: "acquired (p @ q) = acquired p @ acquired q"
  by (induction p rule: acquired.induct) simp_all

lemma touched_append [simp]: "touched (p @ q) = touched p @ touched q"
  by (induction p rule: touched.induct) simp_all

lemma notifies_append [simp]: "notifies (p @ q) \<longleftrightarrow> notifies p \<or> notifies q"
  by (induction p rule: notifies.induct) simp_all

text \<open>Operations that are disciplined on their own may run below any locks of smaller rank, and
  may be put between the others of a disciplined list.\<close>

lemma disciplined_below:
  assumes "disciplined rank outer guard ks p"
    and "\<forall>h\<in>set hs. \<forall>l\<in>set (acquired p) \<union> set ks. rank h < rank l"
    and "notifies p \<Longrightarrow> list_all outer hs" and "disciplined rank outer guard hs q"
  shows "disciplined rank outer guard (ks @ hs) (p @ q)"
  using assms
proof (induction p arbitrary: ks)
  case (Cons a p)
  show ?case
  proof (cases a)
    case (Acquire l)
    then show ?thesis using Cons.prems Cons.IH[of "l # ks"] by auto
  next
    case (Release l)
    then have l: "l \<in> set ks" using Cons.prems(1) by simp
    have "disciplined rank outer guard (remove1 l ks @ hs) (p @ q)"
      using Release Cons.prems Cons.IH[of "remove1 l ks"] set_remove1_subset[of l ks] by auto
    then show ?thesis using Release l by (simp add: remove1_append)
  next
    case Notify
    then show ?thesis using Cons.prems Cons.IH[of ks] by simp
  next
    case (Touch v)
    then show ?thesis using Cons.prems Cons.IH[of ks] by (auto split: option.splits)
  qed
qed simp

lemma disciplined_insert:
  assumes "disciplined rank outer guard [] p" and "disciplined rank outer guard hs q"
    and "\<forall>h\<in>set hs. \<forall>l\<in>set (acquired p). rank h < rank l" and "notifies p \<Longrightarrow> list_all outer hs"
  shows "disciplined rank outer guard hs (p @ q)"
  using disciplined_below[of rank outer guard "[]" p hs q] assms by simp

lemma disciplined_append:
  "disciplined rank outer guard [] p \<Longrightarrow> disciplined rank outer guard [] q \<Longrightarrow> disciplined rank outer guard [] (p @ q)"
  by (rule disciplined_insert) simp_all

lemma disciplined_concat:
  "(\<And>p. p \<in> set ps \<Longrightarrow> disciplined rank outer guard [] p) \<Longrightarrow> disciplined rank outer guard [] (concat ps)"
  by (induction ps) (simp_all add: disciplined_append)

lemma disciplined_unguarded:
  "disciplined rank outer guard hs p \<Longrightarrow> disciplined rank outer (\<lambda>_. None) hs p"
  by (induction rank outer guard hs p rule: disciplined.induct) simp_all

text \<open>A lock taken around disciplined operations of greater rank.\<close>

lemma disciplined_guard:
  assumes "disciplined rank outer guard [] p" and "\<forall>l\<in>set (acquired p). rank g < rank l"
    and "\<not> notifies p" and "disciplined rank outer guard [] q"
  shows "disciplined rank outer guard [] (Acquire g # p @ Release g # q)"
  using disciplined_insert[of rank outer guard p "[g]" "Release g # q"] assms by simp

text \<open>Operations of greater rank run in the middle of others.\<close>

lemma disciplined_middle:
  assumes "disciplined rank outer guard hs (p @ r)" and "disciplined rank outer guard [] q"
    and "\<forall>h\<in>set (acquired p) \<union> set hs. \<forall>l\<in>set (acquired q). rank h < rank l"
    and "\<forall>h\<in>set (acquired p) \<union> set hs. outer h"
  shows "disciplined rank outer guard hs (p @ q @ r)"
  using assms
proof (induction p arbitrary: hs)
  case Nil
  then show ?case by (intro disciplined_insert) (auto simp: list_all_iff)
next
  case (Cons a p)
  show ?case
  proof (cases a)
    case (Acquire l)
    then show ?thesis using Cons.prems Cons.IH[of "l # hs"] by auto
  next
    case (Release l)
    then show ?thesis using Cons.prems Cons.IH[of "remove1 l hs"] set_remove1_subset[of l hs] by auto
  next
    case Notify
    then show ?thesis using Cons.prems Cons.IH[of hs] by auto
  next
    case (Touch v)
    then show ?thesis using Cons.prems Cons.IH[of hs] by auto
  qed
qed


subsection \<open>The pool\<close>

lemma holders_disjoint:
  assumes "distinct (concat (map fst ts))" and "i < length ts" and "j < length ts"
    and "l \<in> set (fst (ts ! i))" and "l \<in> set (fst (ts ! j))"
  shows "i = j"
  using assms
proof (induction ts arbitrary: i j)
  case (Cons t ts)
  have "l \<notin> set (fst t) \<or> (\<forall>u\<in>set ts. l \<notin> set (fst u))" using Cons.prems(1) by auto
  with Cons show ?case by (cases i; cases j) auto
qed simp

lemma distinct_holders_update:
  assumes "distinct (concat (map fst ts))" and "i < length ts" and "distinct hs"
    and "\<And>l j. l \<in> set hs \<Longrightarrow> j < length ts \<Longrightarrow> j \<noteq> i \<Longrightarrow> l \<notin> set (fst (ts ! j))"
  shows "distinct (concat (map fst (ts[i := (hs, p)])))"
  using assms
proof (induction ts arbitrary: i)
  case (Cons t ts)
  show ?case
  proof (cases i)
    case 0
    have "l \<notin> set (fst u)" if l: "l \<in> set hs" and u: "u \<in> set ts" for l u
    proof -
      obtain j where "j < length ts" "ts ! j = u" using u by (auto simp: in_set_conv_nth)
      then show ?thesis using Cons.prems(4)[OF l, of "Suc j"] 0 by simp
    qed
    then show ?thesis using 0 Cons.prems by auto
  next
    case (Suc k)
    have rest: "distinct (concat (map fst (ts[k := (hs, p)])))"
      using Cons.prems(1,2) Suc Cons.prems(4)[where j = "Suc _"] by (intro Cons.IH) (auto simp: Cons.prems(3))
    have "set (fst t) \<inter> set hs = {}" using Cons.prems(4)[of _ 0] Suc by auto
    moreover have "set (fst t) \<inter> (\<Union>u\<in>set ts. set (fst u)) = {}" "distinct (fst t)"
      using Cons.prems(1) by auto
    moreover have "(\<Union>u\<in>set (ts[k := (hs, p)]). set (fst u)) \<subseteq> set hs \<union> (\<Union>u\<in>set ts. set (fst u))"
      using set_update_subset_insert[of ts k "(hs, p)"] by fastforce
    ultimately have "set (fst t) \<inter> (\<Union>u\<in>set (ts[k := (hs, p)]). set (fst u)) = {}" by blast
    then show ?thesis using Suc \<open>distinct (fst t)\<close> rest by simp
  qed
qed simp

lemma pool_inv_thread:
  "pool_inv rank outer guard ts \<Longrightarrow> i < length ts \<Longrightarrow> ts ! i = (hs, p) \<Longrightarrow> disciplined rank outer guard hs p"
  unfolding pool_inv_def by (metis (no_types, lifting) case_prodD nth_mem)

lemma op_step_disciplined:
  "op_step ts (hs, p) = Some (hs', p') \<Longrightarrow> disciplined rank outer guard hs p \<Longrightarrow> disciplined rank outer guard hs' p'"
  by (cases "(ts, hs, p)" rule: op_step.cases) (auto split: if_splits)

lemma op_step_holds:
  "op_step ts (hs, p) = Some (hs', p') \<Longrightarrow> l \<in> set hs' \<Longrightarrow> l \<in> set hs \<or> lock_free l ts"
  by (cases "(ts, hs, p)" rule: op_step.cases) (auto split: if_splits dest: set_remove1_subset[THEN subsetD])

lemma op_step_distinct:
  "op_step ts (hs, p) = Some (hs', p') \<Longrightarrow> (hs, p) \<in> set ts \<Longrightarrow> distinct hs \<Longrightarrow> distinct hs'"
  by (cases "(ts, hs, p)" rule: op_step.cases) (auto simp: lock_free_def split: if_splits)

lemma pool_move_inv:
  assumes "pool_inv rank outer guard ts" and "pool_move i ts = Some us"
  shows "pool_inv rank outer guard us"
proof -
  obtain hs p t where i: "i < length ts" "ts ! i = (hs, p)" "op_step ts (hs, p) = Some t"
    "us = ts[i := t]"
    using assms(2) by (rule pool_move_SomeE)
  obtain hs' p' where t: "t = (hs', p')" by force
  have dist: "distinct (concat (map fst ts))" using assms(1) by (simp add: pool_inv_def)
  have mem: "(hs, p) \<in> set ts" using i(1,2) by (metis nth_mem)
  have "distinct hs" using dist mem by (auto simp: distinct_concat_iff)
  then have "distinct (concat (map fst us))"
    unfolding i(4) t
    using op_step_distinct[OF i(3)[unfolded t] mem] op_step_holds[OF i(3)[unfolded t]]
      holders_disjoint[OF dist i(1)] i(2)
    by (intro distinct_holders_update[OF dist i(1)]) (fastforce simp: lock_free_def)+
  moreover have "disciplined rank outer guard hs' p'"
    using op_step_disciplined[OF i(3)[unfolded t]] pool_inv_thread[OF assms(1) i(1,2)] by blast
  ultimately show ?thesis
    using assms(1) set_update_subset_insert[of ts i t] unfolding pool_inv_def i(4) t by fastforce
qed

lemma run_pool_inv: "pool_inv rank outer guard ts \<Longrightarrow> run_pool is ts = Some us \<Longrightarrow> pool_inv rank outer guard us"
  by (induction "is" arbitrary: ts) (auto simp: bind_eq_Some_conv intro: pool_move_inv)

lemma done_all_free: "pool_inv rank outer guard ts \<Longrightarrow> pool_done ts \<Longrightarrow> lock_free l ts"
  unfolding pool_inv_def pool_done_def lock_free_def by fastforce

text \<open>A thread of a stuck pool waits for a lock, and whoever holds that lock waits for one of
  greater rank.\<close>

lemma stuck_waits:
  assumes "pool_inv rank outer guard ts" and "pool_stuck ts" and "i < length ts" and "ts ! i = (hs, p)"
    and "p \<noteq> []"
  obtains l q where "p = Acquire l # q" and "\<not> lock_free l ts"
proof -
  have "op_step ts (hs, p) = None" using stuck_move[OF assms(2), of i] assms(3,4) by (simp add: pool_move_def)
  then show thesis using that assms(5) pool_inv_thread[OF assms(1,3,4)]
    by (cases "(ts, hs, p)" rule: op_step.cases) (auto split: if_splits)
qed

lemma stuck_waits_higher:
  assumes "pool_inv rank outer guard ts" and "pool_stuck ts" and "i < length ts" and "ts ! i = (hs, Acquire l # q)"
  obtains j ks m r where "j < length ts" and "ts ! j = (ks, Acquire m # r)" and "rank l < rank m"
proof -
  obtain l' q' where "Acquire l # q = Acquire l' # q'" "\<not> lock_free l' ts"
    using stuck_waits[OF assms] by blast
  then obtain j ks p where j: "j < length ts" "ts ! j = (ks, p)" "l \<in> set ks"
    by (force simp: lock_free_def in_set_conv_nth)
  have disc: "disciplined rank outer guard ks p" by (rule pool_inv_thread[OF assms(1) j(1,2)])
  then have "p \<noteq> []" using j(3) by auto
  then obtain m r where m: "p = Acquire m # r" using stuck_waits[OF assms(1,2) j(1,2)] by blast
  then show thesis using that[of j ks m r] j disc by simp
qed

lemma pool_inv_not_stuck:
  assumes "pool_inv rank outer guard ts"
  shows "\<not> pool_stuck ts"
proof
  assume stuck: "pool_stuck ts"
  define R where "R = {rank l |l i hs q. i < length ts \<and> ts ! i = (hs, Acquire l # q)}"
  have "R \<subseteq> (\<lambda>t. case snd t of Acquire l # q \<Rightarrow> rank l | _ \<Rightarrow> undefined) ` set ts"
    by (force simp: R_def image_iff in_set_conv_nth)
  then have fin: "finite R" by (rule finite_subset) simp
  obtain i hs p where i: "i < length ts" "ts ! i = (hs, p)" "p \<noteq> []"
    using stuck by (force simp: pool_stuck_def pool_done_def in_set_conv_nth)
  obtain l q where "p = Acquire l # q" using stuck_waits[OF assms stuck i] by blast
  then have "rank l \<in> R" using i by (auto simp: R_def)
  then have "Max R \<in> R" using fin by (metis Max_in empty_iff)
  then obtain m j ks r where j: "Max R = rank m" "j < length ts" "ts ! j = (ks, Acquire m # r)"
    by (auto simp: R_def)
  obtain j' ks' m' r' where "j' < length ts" "ts ! j' = (ks', Acquire m' # r')" "rank m < rank m'"
    using stuck_waits_higher[OF assms stuck j(2,3)] by blast
  then have "rank m' \<in> R" "Max R < rank m'" using j(1) by (auto simp: R_def)
  then show False using Max_ge[OF fin] by (metis not_less)
qed

lemma pool_inv_completes:
  assumes "pool_inv rank outer guard ts"
  shows "\<exists>js us. run_pool js ts = Some us \<and> pool_done us"
  using assms
proof (induction "pool_work ts" arbitrary: ts)
  case 0
  then show ?case using pool_work_0[of ts] by (metis run_pool.simps(1))
next
  case (Suc n)
  have "\<not> pool_done ts" using Suc.hyps(2) pool_work_0[of ts] by simp
  then obtain i us where i: "pool_move i ts = Some us"
    using pool_inv_not_stuck[OF Suc.prems] by (auto simp: pool_stuck_iff pool_step_iff)
  then have "n = pool_work us" using Suc.hyps(2) pool_move_work by fastforce
  then obtain js vs where "run_pool js us = Some vs" "pool_done vs"
    using Suc.hyps(1) pool_move_inv[OF Suc.prems i] by blast
  then show ?case using i by (metis bind.bind_lunit run_pool.simps(2))
qed

lemma pool_inv_notifying:
  "pool_inv rank outer guard ts \<Longrightarrow> t \<in> set ts \<Longrightarrow> notifying t \<Longrightarrow> list_all outer (fst t)"
  unfolding pool_inv_def notifying_def by (auto split: list.splits lock_op.splits)

text \<open>A variable with a lock is never about to be accessed by two threads.\<close>

lemma touching_holds:
  assumes "pool_inv rank outer guard ts" and "guard v = Some l" and "t \<in> set ts"
    and "case snd t of Touch w # _ \<Rightarrow> w = v | _ \<Rightarrow> False"
  shows "l \<in> set (fst t)"
  using assms unfolding pool_inv_def by (fastforce split: list.splits lock_op.splits)

lemma one_holder:
  "distinct (concat (map fst ts)) \<Longrightarrow> length (filter (\<lambda>t. l \<in> set (fst t)) ts) \<le> 1"
proof (induction ts)
  case (Cons t ts)
  then have "\<forall>u\<in>set ts. l \<notin> set (fst u)" if "l \<in> set (fst t)" using that by auto
  with Cons show ?case by (auto simp: filter_empty_conv)
qed simp

lemma pool_inv_no_race:
  assumes "pool_inv rank outer guard ts" and "guard v = Some l"
  shows "\<not> pool_race v ts"
proof -
  let ?at = "\<lambda>t. case snd t of Touch w # _ \<Rightarrow> w = v | _ \<Rightarrow> False"
  have "filter ?at ts = filter ?at (filter (\<lambda>t. l \<in> set (fst t)) ts)"
    using touching_holds[OF assms] by (auto intro: filter_cong)
  then have "length (filter ?at ts) \<le> length (filter (\<lambda>t. l \<in> set (fst t)) ts)"
    by (metis length_filter_le)
  also have "\<dots> \<le> 1" using assms(1) by (intro one_holder) (simp add: pool_inv_def)
  finally show ?thesis unfolding pool_race_def by simp
qed


section \<open>The contract\<close>

locale lock_order =
  fixes rank :: "'l \<Rightarrow> 'r::linorder"
    and outer :: "'l \<Rightarrow> bool"
    and guard :: "'v \<Rightarrow> 'l option"
    and valid :: "'c \<Rightarrow> bool"
    and calls :: "'c \<Rightarrow> ('l, 'v) lock_op list"
  assumes calls_disciplined: "valid c \<Longrightarrow> disciplined rank outer guard [] (calls c)"
begin

lemma start_inv:
  assumes "list_all (list_all valid) css"
  shows "pool_inv rank outer guard (call_pool calls css)"
proof -
  have "concat (map fst (call_pool calls css)) = []" by (auto simp: call_pool_def pool_start_def)
  moreover have "disciplined rank outer guard hs p" if "(hs, p) \<in> set (call_pool calls css)" for hs p
    using that assms calls_disciplined
    by (auto simp: call_pool_def pool_start_def list_all_iff intro!: disciplined_concat)
  ultimately show ?thesis unfolding pool_inv_def by (metis (mono_tags, lifting) case_prodI2 distinct.simps(1))
qed

lemma call_pool_inv:
  "list_all (list_all valid) css \<Longrightarrow> run_pool is (call_pool calls css) = Some ts \<Longrightarrow> pool_inv rank outer guard ts"
  by (rule run_pool_inv[OF start_inv])

lemma deadlock_free:
  "list_all (list_all valid) css \<Longrightarrow> run_pool is (call_pool calls css) = Some ts \<Longrightarrow> \<not> pool_stuck ts"
  by (rule pool_inv_not_stuck[OF call_pool_inv])

text \<open>Every run has at most as many steps as there are operations, and can be continued to one in
  which every call has returned and every lock is free.\<close>

lemma run_bounded:
  "run_pool is (call_pool calls css) = Some ts \<Longrightarrow>
   length is + pool_work ts = length (concat (map (\<lambda>cs. concat (map calls cs)) css))"
  using run_pool_work[of "is" "call_pool calls css" ts] by (simp add: call_pool_def)

lemma completes:
  assumes "list_all (list_all valid) css" and "run_pool is (call_pool calls css) = Some ts"
  shows "\<exists>js us. run_pool js ts = Some us \<and> pool_done us \<and> (\<forall>l. lock_free l us)"
proof -
  have inv: "pool_inv rank outer guard ts" by (rule call_pool_inv[OF assms])
  obtain js us where "run_pool js ts = Some us" "pool_done us" using pool_inv_completes[OF inv] by blast
  moreover from this have "pool_inv rank outer guard us" using run_pool_inv[OF inv] by blast
  ultimately show ?thesis using done_all_free[of rank outer guard us] by blast
qed

lemma race_free:
  "list_all (list_all valid) css \<Longrightarrow> run_pool is (call_pool calls css) = Some ts \<Longrightarrow> guard v = Some l
   \<Longrightarrow> \<not> pool_race v ts"
  by (rule pool_inv_no_race[OF call_pool_inv])

lemma notified_holding_outer:
  "list_all (list_all valid) css \<Longrightarrow> run_pool is (call_pool calls css) = Some ts \<Longrightarrow> t \<in> set ts
   \<Longrightarrow> notifying t \<Longrightarrow> list_all outer (fst t)"
  by (rule pool_inv_notifying[OF call_pool_inv])

end

end
