(* ===== verification/Locking.thy ===== *)
theory Locking
  imports Lock_Order Godot "HOL-Library.Product_Lexorder"
begin

text \<open>
  What every function of the SDK and of the binding does with locks, shared variables and the event
  callback, in the order of its body. What decides a branch is an argument: whether a pointer was
  given, whether a search found something, what the library did. A claim for all arguments is
  a claim for every path, also when other threads change the shared state between two accesses.

  The locks are \<open>viewer_lock\<close> and \<open>slots.lock\<close> of \<open>g_state\<close>, \<open>input_lock\<close> of the Linux backend,
  \<open>g_ws_lock\<close> of the signaling server, \<open>g_lock\<close> of the WebRTC sessions (\<open>Sessions_lock\<close>) and the
  \<open>queue_mutex\<close> of the binding. libdatachannel has locks of its own, \<open>Library_lock n\<close>: what it does
  with them in a call, and which it holds while it runs a callback, are arguments too. Destroying
  the mutexes is in \<open>Nearcade_Core\<close> and \<open>Shutdown_Race\<close>, not here.

  A shared variable stands for the variables the code uses together; consecutive accesses to it
  are one \<open>Touch\<close>. The atomic flags of \<open>g_state\<close> are not among them.
\<close>

datatype sdk_lock =
    Viewer_lock
  | Slots_lock
  | Input_lock
  | Ws_lock
  | Sessions_lock
  | Queue_lock
  | Library_lock nat

datatype sdk_var =
    V_viewers
  | V_slots
  | V_gamepads
  | V_keyboard
  | V_viewer_ws
  | V_host_ws
  | V_context
  | V_internal_cb
  | V_sessions
  | V_initialized
  | V_webrtc_cb
  | V_event_cb
  | V_capture
  | V_queue
  | V_lan_ip
  | V_pin

type_synonym ops = "(sdk_lock, sdk_var) lock_op list"

fun is_library :: "sdk_lock \<Rightarrow> bool" where
  "is_library (Library_lock n) = True"
| "is_library _ = False"

text \<open>The order in which the code takes locks while it holds others.\<close>

fun lock_rank :: "sdk_lock \<Rightarrow> nat \<times> nat" where
  "lock_rank Sessions_lock = (0, 0)"
| "lock_rank (Library_lock n) = (1, n)"
| "lock_rank Viewer_lock = (2, 0)"
| "lock_rank Slots_lock = (3, 0)"
| "lock_rank Input_lock = (3, 1)"
| "lock_rank Ws_lock = (3, 2)"
| "lock_rank Queue_lock = (4, 0)"

text \<open>The lock that goes with a variable; the others are accessed without one somewhere.\<close>

fun guard_of :: "sdk_var \<Rightarrow> sdk_lock option" where
  "guard_of V_viewers = Some Viewer_lock"
| "guard_of V_slots = Some Slots_lock"
| "guard_of V_gamepads = Some Input_lock"
| "guard_of V_keyboard = Some Input_lock"
| "guard_of V_viewer_ws = Some Ws_lock"
| "guard_of V_sessions = Some Sessions_lock"
| "guard_of V_queue = Some Queue_lock"
| "guard_of _ = None"

definition guarded :: "sdk_lock \<Rightarrow> ops \<Rightarrow> ops" where
  "guarded l p = Acquire l # p @ [Release l]"


section \<open>Slot manager and input backend\<close>

definition slot_claim_locks :: "bool \<Rightarrow> ops" where
  "slot_claim_locks viewer_given = (if viewer_given then guarded Slots_lock [Touch V_slots] else [])"

definition slot_release_locks :: "int \<Rightarrow> ops" where
  "slot_release_locks slot =
     (if slot < 0 \<or> slot \<ge> int MAX_SLOTS then [] else guarded Slots_lock [Touch V_slots])"

definition input_init_locks :: "platform \<Rightarrow> ops" where
  "input_init_locks pf = (if pf = Linux then [Touch V_gamepads, Touch V_keyboard] else [])"

definition input_shutdown_locks :: "platform \<Rightarrow> ops" where
  "input_shutdown_locks pf =
     (if pf = Linux then guarded Input_lock [Touch V_gamepads, Touch V_keyboard] else [])"

definition input_alloc_slot_locks :: "platform \<Rightarrow> 8 word \<Rightarrow> ops" where
  "input_alloc_slot_locks pf slot =
     (if pf = Linux \<and> unat slot < MAX_SLOTS then guarded Input_lock [Touch V_gamepads] else [])"

definition input_free_slot_locks :: "platform \<Rightarrow> 8 word \<Rightarrow> ops" where
  "input_free_slot_locks pf slot =
     (if pf = Linux \<and> unat slot < MAX_SLOTS then guarded Input_lock [Touch V_gamepads] else [])"

text \<open>\<open>slot\<close> is that of the packet, \<open>None\<close> for no packet.\<close>

definition input_submit_gamepad_locks :: "platform \<Rightarrow> 8 word option \<Rightarrow> ops" where
  "input_submit_gamepad_locks pf slot =
     (case slot of
        None \<Rightarrow> []
      | Some sl \<Rightarrow>
          if pf = Linux then guarded Input_lock (if unat sl < MAX_SLOTS then [Touch V_gamepads] else []) else [])"

definition input_submit_kbm_locks :: "platform \<Rightarrow> ops" where
  "input_submit_kbm_locks pf = (if pf = Linux then guarded Input_lock [Touch V_keyboard] else [])"

definition input_flush_slot_locks :: "platform \<Rightarrow> 8 word \<Rightarrow> ops" where
  "input_flush_slot_locks pf slot =
     (if pf = Linux then guarded Input_lock (if unat slot < MAX_SLOTS then [Touch V_gamepads] else []) else [])"


section \<open>The event callback and the queue of the binding\<close>

text \<open>\<open>app\<close> is what the registered callback does, \<open>None\<close> when none is registered.\<close>

definition fire_event_locks :: "ops option \<Rightarrow> ops" where
  "fire_event_locks app = Touch V_event_cb # (case app of None \<Rightarrow> [] | Some p \<Rightarrow> Notify # p)"

definition godot_event_callback_locks :: "bool \<Rightarrow> ops" where
  "godot_event_callback_locks self_given = (if self_given then guarded Queue_lock [Touch V_queue] else [])"

definition godot_poll_event_locks :: ops where
  "godot_poll_event_locks = guarded Queue_lock [Touch V_queue]"


section \<open>Senders\<close>

text \<open>\<open>named\<close>: the identifier names an index in range; \<open>found\<close>: a connection is registered there.\<close>

definition viewer_ws_by_id_locks :: "bool \<Rightarrow> ops" where
  "viewer_ws_by_id_locks named = (if named then [Touch V_viewer_ws] else [])"

definition signaling_send_to_viewer_locks :: "bool \<Rightarrow> bool \<Rightarrow> ops" where
  "signaling_send_to_viewer_locks args_given named =
     (if args_given then guarded Ws_lock (viewer_ws_by_id_locks named) else [])"

definition reply_locks :: "bool \<Rightarrow> bool \<Rightarrow> bool \<Rightarrow> ops" where
  "reply_locks to_host named found =
     (if to_host then [Touch V_host_ws]
      else viewer_ws_by_id_locks named @ (if found then [] else [Touch V_host_ws]))"

definition signaling_send_answer_locks :: "bool \<Rightarrow> bool \<Rightarrow> bool \<Rightarrow> bool \<Rightarrow> ops" where
  "signaling_send_answer_locks sdp_given to_host named found =
     (if sdp_given then guarded Ws_lock (reply_locks to_host named found) else [])"

definition signaling_send_ice_locks :: "bool \<Rightarrow> bool \<Rightarrow> bool \<Rightarrow> bool \<Rightarrow> ops" where
  "signaling_send_ice_locks candidate_given to_host named found =
     (if candidate_given then guarded Ws_lock (reply_locks to_host named found) else [])"

definition webrtc_send_via_signaling_locks :: "bool \<Rightarrow> bool \<Rightarrow> ops" where
  "webrtc_send_via_signaling_locks signaling_built named =
     (if signaling_built then signaling_send_to_viewer_locks True named else [])"


section \<open>WebRTC sessions\<close>

text \<open>\<open>lib\<close> is what the library calls of the body do with the library's locks.\<close>

definition create_session_locks :: "ops \<Rightarrow> ops" where
  "create_session_locks lib = lib @ guarded Sessions_lock [Touch V_sessions]"

definition webrtc_viewer_joined_locks :: "bool \<Rightarrow> ops \<Rightarrow> ops" where
  "webrtc_viewer_joined_locks initialized lib =
     Touch V_initialized # (if \<not> initialized then [] else create_session_locks lib)"

text \<open>The session is destroyed inside the guard when one is found.\<close>

definition webrtc_viewer_left_locks :: "ops option \<Rightarrow> ops" where
  "webrtc_viewer_left_locks found =
     guarded Sessions_lock (Touch V_sessions # (case found of Some lib \<Rightarrow> lib | None \<Rightarrow> []))"

definition webrtc_shutdown_locks :: "ops list \<Rightarrow> ops" where
  "webrtc_shutdown_locks libs = guarded Sessions_lock (Touch V_sessions # concat libs @ [Touch V_initialized])"

text \<open>\<open>args_ok\<close>: the arguments and the viewer name passed the tests before the guard;
  \<open>applied\<close>: the description or candidate was handed to the library.\<close>

definition webrtc_handle_signaling_locks :: "bool \<Rightarrow> ops option \<Rightarrow> ops" where
  "webrtc_handle_signaling_locks args_ok applied =
     (if \<not> args_ok then []
      else guarded Sessions_lock (Touch V_sessions # (case applied of Some lib \<Rightarrow> lib | None \<Rightarrow> [])))"

definition webrtc_send_h264_locks :: "bool \<Rightarrow> ops list \<Rightarrow> ops" where
  "webrtc_send_h264_locks data_given libs =
     (if \<not> data_given then [] else guarded Sessions_lock (Touch V_sessions # concat libs))"

text \<open>The callbacks a session installs.\<close>

definition webrtc_received_input_locks :: "platform \<Rightarrow> 8 word \<Rightarrow> ops option \<Rightarrow> ops" where
  "webrtc_received_input_locks pf slot app = input_submit_gamepad_locks pf (Some slot) @ fire_event_locks app"

datatype session_callback =
    State_change bool "ops option"
  | Local_message bool bool bool
  | Input_message "8 word option" "ops option"

fun session_callback_locks :: "platform \<Rightarrow> session_callback \<Rightarrow> ops" where
  "session_callback_locks pf (State_change reported app) =
     (if reported then Touch V_webrtc_cb # fire_event_locks app else [])"
| "session_callback_locks pf (Local_message whole signaling_built named) =
     (if whole then Touch V_webrtc_cb # webrtc_send_via_signaling_locks signaling_built named else [])"
| "session_callback_locks pf (Input_message packet_slot app) =
     (case packet_slot of Some slot \<Rightarrow> Touch V_webrtc_cb # webrtc_received_input_locks pf slot app | None \<Rightarrow> [])"


section \<open>The signaling server\<close>

datatype ws_sender =
    From_host
  | From_viewer bool "ops option"
  | From_unknown

text \<open>\<open>Ws_established\<close> carries the join when the connection was registered as a viewer,
  \<open>Ws_closed\<close> the leave when it was one, \<open>Ws_received\<close> whether the debug line is printed.\<close>

datatype ws_event =
    Ws_host_established
  | Ws_established "(bool \<times> ops) option"
  | Ws_host_closed
  | Ws_closed "ops option option"
  | Ws_received bool ws_sender "ops option"
  | Ws_other

fun callback_signaling_locks :: "ws_event \<Rightarrow> ops" where
  "callback_signaling_locks Ws_host_established = guarded Ws_lock [Touch V_host_ws]"
| "callback_signaling_locks (Ws_established joined) =
     guarded Ws_lock [Touch V_viewer_ws]
     @ (case joined of
          Some (initialized, lib) \<Rightarrow> Touch V_internal_cb # webrtc_viewer_joined_locks initialized lib
        | None \<Rightarrow> [])"
| "callback_signaling_locks Ws_host_closed = guarded Ws_lock [Touch V_host_ws]"
| "callback_signaling_locks (Ws_closed left) =
     guarded Ws_lock [Touch V_host_ws, Touch V_viewer_ws]
     @ (case left of Some found \<Rightarrow> Touch V_internal_cb # webrtc_viewer_left_locks found | None \<Rightarrow> [])"
| "callback_signaling_locks (Ws_received logged sender app) =
     (if logged then [Touch V_host_ws] else [])
     @ (case sender of
          From_host \<Rightarrow>
            guarded Ws_lock [Touch V_host_ws] @ [Touch V_internal_cb, Touch V_host_ws] @ fire_event_locks app
        | From_viewer args_ok applied \<Rightarrow>
            guarded Ws_lock [Touch V_host_ws, Touch V_viewer_ws] @ [Touch V_internal_cb, Touch V_host_ws]
            @ webrtc_handle_signaling_locks args_ok applied @ fire_event_locks app
        | From_unknown \<Rightarrow> guarded Ws_lock [Touch V_host_ws, Touch V_viewer_ws])"
| "callback_signaling_locks Ws_other = []"

text \<open>One round of the service loop: the test of \<open>g_wsi\<close>, then, when it is not the last round,
  \<open>lws_service (g_wsi)\<close> and what it calls back.\<close>

definition signaling_thread_locks :: "ws_event list option \<Rightarrow> ops" where
  "signaling_thread_locks round =
     guarded Ws_lock [Touch V_context]
     @ (case round of Some evs \<Rightarrow> Touch V_context # concat (map callback_signaling_locks evs) | None \<Rightarrow> [])"

text \<open>Destroying the context calls the callback for the connections still open.\<close>

definition signaling_shutdown_locks :: "ws_event list \<Rightarrow> ops" where
  "signaling_shutdown_locks evs =
     guarded Ws_lock [Touch V_context, Touch V_host_ws, Touch V_viewer_ws]
     @ concat (map callback_signaling_locks evs)"


section \<open>Public functions\<close>

datatype init_end =
    Init_no_winsock
  | Init_no_mutex
  | Init_no_input
  | Init_no_capture
  | Init_no_webrtc
  | Init_no_signaling "ops list"
  | Init_ok bool bool

text \<open>\<open>memset\<close> of \<open>g_state\<close>, then the address and the PIN.\<close>

definition init_memset_locks :: ops where
  "init_memset_locks = [Touch V_viewers, Touch V_slots, Touch V_lan_ip, Touch V_pin, Touch V_event_cb]"

definition init_address_locks :: ops where
  "init_address_locks = init_memset_locks @ [Touch V_lan_ip, Touch V_pin]"

definition init_webrtc_locks :: "platform \<Rightarrow> ops" where
  "init_webrtc_locks pf =
     init_address_locks @ input_init_locks pf @ [Touch V_capture, Touch V_initialized, Touch V_webrtc_cb]"

fun nearcade_init_locks :: "platform \<Rightarrow> init_end \<Rightarrow> ops" where
  "nearcade_init_locks pf Init_no_winsock = []"
| "nearcade_init_locks pf Init_no_mutex = init_memset_locks"
| "nearcade_init_locks pf Init_no_input = init_address_locks @ input_init_locks pf"
| "nearcade_init_locks pf Init_no_capture =
     init_address_locks @ input_init_locks pf @ [Touch V_capture] @ input_shutdown_locks pf"
| "nearcade_init_locks pf Init_no_webrtc =
     init_address_locks @ input_init_locks pf @ [Touch V_capture, Touch V_initialized, Touch V_capture]
     @ input_shutdown_locks pf"
| "nearcade_init_locks pf (Init_no_signaling libs) =
     init_webrtc_locks pf @ [Touch V_internal_cb, Touch V_context]
     @ webrtc_shutdown_locks libs @ [Touch V_capture] @ input_shutdown_locks pf"
| "nearcade_init_locks pf (Init_ok signaling_built logged) =
     init_webrtc_locks pf @ (if signaling_built then [Touch V_internal_cb, Touch V_context] else [])
     @ (if logged then [Touch V_lan_ip, Touch V_pin] else [])"

definition nearcade_shutdown_locks :: "platform \<Rightarrow> bool \<Rightarrow> bool \<Rightarrow> ops list \<Rightarrow> ws_event list \<Rightarrow> ops" where
  "nearcade_shutdown_locks pf signaling_built was_running libs evs =
     (if \<not> was_running then []
      else webrtc_shutdown_locks libs @ [Touch V_capture] @ input_shutdown_locks pf
           @ (if signaling_built then signaling_shutdown_locks evs else []))"

definition nearcade_disconnect_viewer_locks :: "platform \<Rightarrow> bool \<Rightarrow> int option \<Rightarrow> ops" where
  "nearcade_disconnect_viewer_locks pf id_given found =
     (if \<not> id_given then []
      else guarded Viewer_lock
        (Touch V_viewers #
         (case found of
            Some slot \<Rightarrow> input_free_slot_locks pf (word_of_int slot) @ slot_release_locks slot @ [Touch V_viewers]
          | None \<Rightarrow> [])))"

definition set_viewer_input_mode_locks :: "bool \<Rightarrow> ops" where
  "set_viewer_input_mode_locks id_given = (if id_given then guarded Viewer_lock [Touch V_viewers] else [])"

definition set_controller_type_locks :: "bool \<Rightarrow> ops" where
  "set_controller_type_locks id_given = (if id_given then guarded Viewer_lock [Touch V_viewers] else [])"

text \<open>\<open>pass\<close>: the atomic flag lets the call go on to \<open>g_ff\<close>.\<close>

definition start_capture_locks :: "bool \<Rightarrow> ops" where
  "start_capture_locks pass = (if pass then [Touch V_capture] else [])"

definition stop_capture_locks :: "bool \<Rightarrow> ops" where
  "stop_capture_locks pass = (if pass then [Touch V_capture] else [])"

text \<open>The getters copy out of \<open>g_state\<close>; \<open>has_room\<close>: a buffer with room was given.\<close>

definition get_lan_ip_locks :: "bool \<Rightarrow> ops" where
  "get_lan_ip_locks has_room = (if has_room then [Touch V_lan_ip] else [])"

definition get_signaling_url_locks :: "bool \<Rightarrow> ops" where
  "get_signaling_url_locks has_room = (if has_room then [Touch V_lan_ip] else [])"

definition get_pin_locks :: "bool \<Rightarrow> ops" where
  "get_pin_locks has_room = (if has_room then [Touch V_pin] else [])"

definition regenerate_pin_locks :: ops where
  "regenerate_pin_locks = [Touch V_pin]"

text \<open>What a thread may do: an application thread calls the public functions and polls the
  binding, the service thread runs rounds of its loop, a thread of libdatachannel runs a session
  callback between operations of its own. No code calls \<open>slot_claim\<close> and \<open>input_alloc_slot\<close> yet.\<close>

datatype sdk_call =
    Init init_end
  | Shutdown bool bool "ops list" "ws_event list"
  | Start_streaming "ops option"
  | Send_h264 bool "ops list"
  | Start_capture bool
  | Stop_capture bool
  | Set_event_callback
  | Submit_gamepad "8 word option"
  | Submit_kbm bool
  | Flush_slot "8 word"
  | Disconnect_viewer bool "int option"
  | Set_viewer_input_mode bool
  | Set_controller_type bool
  | Send_answer bool bool bool bool bool
  | Send_ice_candidate bool bool bool bool bool
  | Slot_claim bool
  | Alloc_slot "8 word"
  | Get_signaling_url bool
  | Get_lan_ip bool
  | Get_pin bool
  | Regenerate_pin
  | Poll_event
  | Service_round "ws_event list option"
  | Library_callback ops session_callback ops

fun sdk_call_locks :: "platform \<Rightarrow> sdk_call \<Rightarrow> ops" where
  "sdk_call_locks pf (Init e) = nearcade_init_locks pf e"
| "sdk_call_locks pf (Shutdown signaling_built was_running libs evs) =
     nearcade_shutdown_locks pf signaling_built was_running libs evs"
| "sdk_call_locks pf (Start_streaming app) = fire_event_locks app"
| "sdk_call_locks pf (Send_h264 data_given libs) = webrtc_send_h264_locks data_given libs"
| "sdk_call_locks pf (Start_capture pass) = start_capture_locks pass"
| "sdk_call_locks pf (Stop_capture pass) = stop_capture_locks pass"
| "sdk_call_locks pf Set_event_callback = [Touch V_event_cb]"
| "sdk_call_locks pf (Submit_gamepad slot) = input_submit_gamepad_locks pf slot"
| "sdk_call_locks pf (Submit_kbm args_given) = (if args_given then input_submit_kbm_locks pf else [])"
| "sdk_call_locks pf (Flush_slot slot) = input_flush_slot_locks pf slot"
| "sdk_call_locks pf (Disconnect_viewer id_given found) = nearcade_disconnect_viewer_locks pf id_given found"
| "sdk_call_locks pf (Set_viewer_input_mode id_given) = set_viewer_input_mode_locks id_given"
| "sdk_call_locks pf (Set_controller_type id_given) = set_controller_type_locks id_given"
| "sdk_call_locks pf (Send_answer signaling_built sdp_given to_host named found) =
     (if signaling_built then signaling_send_answer_locks sdp_given to_host named found else [])"
| "sdk_call_locks pf (Send_ice_candidate signaling_built candidate_given to_host named found) =
     (if signaling_built then signaling_send_ice_locks candidate_given to_host named found else [])"
| "sdk_call_locks pf (Slot_claim viewer_given) = slot_claim_locks viewer_given"
| "sdk_call_locks pf (Alloc_slot slot) = input_alloc_slot_locks pf slot"
| "sdk_call_locks pf (Get_signaling_url has_room) = get_signaling_url_locks has_room"
| "sdk_call_locks pf (Get_lan_ip has_room) = get_lan_ip_locks has_room"
| "sdk_call_locks pf (Get_pin has_room) = get_pin_locks has_room"
| "sdk_call_locks pf Regenerate_pin = regenerate_pin_locks"
| "sdk_call_locks pf Poll_event = godot_poll_event_locks"
| "sdk_call_locks pf (Service_round round) = signaling_thread_locks round"
| "sdk_call_locks pf (Library_callback before cb after) = before @ session_callback_locks pf cb @ after"

text \<open>The operations on one lock, as calls on its mutex.\<close>

fun on_lock :: "sdk_lock \<Rightarrow> ops \<Rightarrow> mutex_op list" where
  "on_lock l [] = []"
| "on_lock l (Acquire k # p) = (if k = l then M_lock # on_lock l p else on_lock l p)"
| "on_lock l (Release k # p) = (if k = l then M_unlock # on_lock l p else on_lock l p)"
| "on_lock l (_ # p) = on_lock l p"

text \<open>The slot of the viewer at which the loop of \<open>nearcade_disconnect_viewer\<close> stops, and whether
  \<open>webrtc_handle_signaling\<close> gets to its guard.\<close>

definition found_slot :: "string \<Rightarrow> sdk \<Rightarrow> int option" where
  "found_slot vid s =
     map_option (\<lambda>i. v_slot (viewers (g_state s) ! i)) (first_index (is_viewer vid) (viewers (g_state s)))"

definition names_viewer :: "string option \<Rightarrow> string option \<Rightarrow> bool" where
  "names_viewer viewer_id data \<longleftrightarrow>
     data \<noteq> None \<and> (case viewer_id of
       None \<Rightarrow> False
     | Some vid \<Rightarrow> (case sscanf_viewer vid of None \<Rightarrow> False | Some i \<Rightarrow> 0 \<le> i))"

text \<open>What is asked of code that is not the SDK's. A library call takes locks of the library only,
  in an order of its own, releases them and does not run a callback on the calling thread. A
  callback of the application takes no lock that is ordered before the library's, and so does
  not end up in \<open>nearcade_send_h264\<close> or \<open>nearcade_shutdown\<close>.\<close>

definition library_ops :: "ops \<Rightarrow> bool" where
  "library_ops p \<longleftrightarrow>
     disciplined lock_rank is_library guard_of [] p \<and> list_all is_library (acquired p)
     \<and> touched p = [] \<and> \<not> notifies p"

definition handler_ops :: "ops \<Rightarrow> bool" where
  "handler_ops p \<longleftrightarrow>
     disciplined lock_rank is_library guard_of [] p
     \<and> list_all (\<lambda>l. l \<noteq> Sessions_lock \<and> \<not> is_library l) (acquired p)"

fun ws_sender_ok :: "ws_sender \<Rightarrow> bool" where
  "ws_sender_ok (From_viewer args_ok applied) = pred_option library_ops applied"
| "ws_sender_ok _ = True"

fun ws_event_ok :: "ws_event \<Rightarrow> bool" where
  "ws_event_ok (Ws_established joined) = pred_option (library_ops \<circ> snd) joined"
| "ws_event_ok (Ws_closed left) = pred_option (pred_option library_ops) left"
| "ws_event_ok (Ws_received logged sender app) = (ws_sender_ok sender \<and> pred_option handler_ops app)"
| "ws_event_ok _ = True"

fun session_callback_ok :: "session_callback \<Rightarrow> bool" where
  "session_callback_ok (State_change reported app) = pred_option handler_ops app"
| "session_callback_ok (Input_message slot app) = pred_option handler_ops app"
| "session_callback_ok (Local_message whole signaling_built named) = True"

fun valid_call :: "sdk_call \<Rightarrow> bool" where
  "valid_call (Init (Init_no_signaling libs)) = list_all library_ops libs"
| "valid_call (Shutdown signaling_built was_running libs evs) = (list_all library_ops libs \<and> list_all ws_event_ok evs)"
| "valid_call (Start_streaming app) = pred_option handler_ops app"
| "valid_call (Send_h264 data_given libs) = list_all library_ops libs"
| "valid_call (Service_round round) = pred_option (list_all ws_event_ok) round"
| "valid_call (Library_callback before cb after) = (library_ops (before @ after) \<and> session_callback_ok cb)"
| "valid_call _ = True"

text \<open>\<open>nearcade_init\<close> sets up the shared variables without their locks: it has to come first.\<close>

fun started_call :: "sdk_call \<Rightarrow> bool" where
  "started_call (Init e) = False"
| "started_call c = valid_call c"

text \<open>Three threads at once: one shuts down, one serves a viewer's message, one delivers a packet
  to the queue of the binding.\<close>

definition sample_threads :: "sdk_call list list" where
  "sample_threads =
     [[Shutdown True True [[Acquire (Library_lock 0), Release (Library_lock 0)]] []],
      [Service_round (Some [Ws_received False (From_viewer True None) (Some (godot_event_callback_locks True))])],
      [Library_callback [Acquire (Library_lock 0)] (Input_message (Some 0) (Some (godot_event_callback_locks True)))
         [Release (Library_lock 0)]]]"

text \<open>Two threads: the service thread destroys the session of a viewer that left, while the library
  delivers an event of that session to the application's callback \<open>app\<close>.\<close>

definition leaving_threads :: "ops \<Rightarrow> sdk_call list list" where
  "leaving_threads app =
     [[Service_round (Some [Ws_closed (Some (Some [Acquire (Library_lock 0), Release (Library_lock 0)]))])],
      [Library_callback [Acquire (Library_lock 0)] (State_change True (Some app)) [Release (Library_lock 0)]]]"


section \<open>Facts\<close>

lemmas input_locks_defs = input_shutdown_locks_def input_free_slot_locks_def input_submit_gamepad_locks_def
  input_submit_kbm_locks_def input_flush_slot_locks_def input_alloc_slot_locks_def slot_claim_locks_def

lemmas sender_locks_defs = signaling_send_to_viewer_locks_def signaling_send_answer_locks_def
  signaling_send_ice_locks_def webrtc_send_via_signaling_locks_def viewer_ws_by_id_locks_def reply_locks_def

lemmas sessions_locks_defs = webrtc_viewer_joined_locks_def create_session_locks_def webrtc_viewer_left_locks_def
  webrtc_handle_signaling_locks_def webrtc_shutdown_locks_def webrtc_send_h264_locks_def

lemmas unguarded_locks_defs = set_viewer_input_mode_locks_def set_controller_type_locks_def start_capture_locks_def
  stop_capture_locks_def godot_poll_event_locks_def get_lan_ip_locks_def get_signaling_url_locks_def
  get_pin_locks_def regenerate_pin_locks_def

abbreviation in_order :: "ops \<Rightarrow> bool" where
  "in_order \<equiv> disciplined lock_rank is_library guard_of []"

lemma rank_library: "is_library l \<Longrightarrow> lock_rank Sessions_lock < lock_rank l"
  by (cases l) simp_all

lemma rank_above_library:
  "is_library h \<Longrightarrow> l \<noteq> Sessions_lock \<Longrightarrow> \<not> is_library l \<Longrightarrow> lock_rank h < lock_rank l"
  by (cases h; cases l) simp_all

lemma guarded_simps [simp]:
  "acquired (guarded l p) = l # acquired p" "notifies (guarded l p) = notifies p"
  "touched (guarded l p) = touched p" "in_order (guarded l [])"
  "in_order (guarded l [Touch v]) \<longleftrightarrow> guard_of v = None \<or> guard_of v = Some l"
  "in_order (guarded l [Touch v, Touch w]) \<longleftrightarrow>
     (guard_of v = None \<or> guard_of v = Some l) \<and> (guard_of w = None \<or> guard_of w = Some l)"
  by (auto simp: guarded_def split: option.split)

lemma library_ops_Nil [simp]: "library_ops []"
  by (simp add: library_ops_def)

lemma library_ops_concat: "list_all library_ops ps \<Longrightarrow> library_ops (concat ps)"
  by (induction ps) (auto simp: library_ops_def disciplined_append)

lemma library_below_sessions:
  assumes "library_ops p" and "disciplined lock_rank is_library guard_of [Sessions_lock] q"
  shows "disciplined lock_rank is_library guard_of [Sessions_lock] (p @ q)"
  using assms rank_library by (intro disciplined_insert) (auto simp: library_ops_def list_all_iff)

lemma session_guard:
  assumes "library_ops p" and "list_all (\<lambda>v. guard_of v = None \<or> guard_of v = Some Sessions_lock) vs"
  shows "in_order (guarded Sessions_lock (Touch V_sessions # p @ map Touch vs))"
proof -
  have "disciplined lock_rank is_library guard_of [Sessions_lock] (map Touch vs @ [Release Sessions_lock])"
    using assms(2) by (induction vs) (auto split: option.split)
  then show ?thesis using library_below_sessions[OF assms(1)] by (simp add: guarded_def)
qed

lemma optional_library: "pred_option library_ops x \<Longrightarrow> library_ops (case x of Some lib \<Rightarrow> lib | None \<Rightarrow> [])"
  by (cases x) simp_all

lemma fire_event_in_order: "pred_option handler_ops app \<Longrightarrow> in_order (fire_event_locks app)"
  by (cases app) (simp_all add: fire_event_locks_def handler_ops_def)

lemma input_in_order:
  "in_order (input_shutdown_locks pf)" "in_order (input_free_slot_locks pf slot)"
  "in_order (input_submit_gamepad_locks pf sl)" "in_order (input_submit_kbm_locks pf)"
  "in_order (input_flush_slot_locks pf slot)" "in_order (input_alloc_slot_locks pf slot)"
  "in_order (slot_claim_locks b)"
  by (simp_all add: input_locks_defs split: option.split)

lemma sender_in_order:
  "in_order (signaling_send_to_viewer_locks b c)" "in_order (signaling_send_answer_locks b c d e)"
  "in_order (signaling_send_ice_locks b c d e)" "in_order (webrtc_send_via_signaling_locks b c)"
  by (simp_all add: sender_locks_defs)

lemma sessions_in_order:
  "library_ops lib \<Longrightarrow> in_order (webrtc_viewer_joined_locks i lib)"
  "pred_option library_ops found \<Longrightarrow> in_order (webrtc_viewer_left_locks found)"
  "pred_option library_ops applied \<Longrightarrow> in_order (webrtc_handle_signaling_locks b applied)"
  "list_all library_ops libs \<Longrightarrow> in_order (webrtc_shutdown_locks libs)"
  "list_all library_ops libs \<Longrightarrow> in_order (webrtc_send_h264_locks b libs)"
  using session_guard[of _ "[]"] session_guard[of _ "[V_initialized]"] optional_library library_ops_concat
  by (auto simp: sessions_locks_defs library_ops_def intro!: disciplined_append)

lemma callback_signaling_in_order: "ws_event_ok ev \<Longrightarrow> in_order (callback_signaling_locks ev)"
proof (cases ev)
  case (Ws_received logged sender app)
  then show "ws_event_ok ev \<Longrightarrow> ?thesis"
    by (cases sender) (auto simp: sessions_in_order fire_event_in_order intro!: disciplined_append)
qed (auto simp: sessions_in_order split: option.splits intro!: disciplined_append)

lemma callbacks_in_order:
  "list_all ws_event_ok evs \<Longrightarrow> in_order (concat (map callback_signaling_locks evs))"
  by (auto simp: list_all_iff callback_signaling_in_order intro!: disciplined_concat)

lemma service_in_order:
  "pred_option (list_all ws_event_ok) round \<Longrightarrow> in_order (signaling_thread_locks round)"
  by (cases round) (auto simp: signaling_thread_locks_def callbacks_in_order intro!: disciplined_append)

lemma signaling_shutdown_in_order: "list_all ws_event_ok evs \<Longrightarrow> in_order (signaling_shutdown_locks evs)"
  unfolding signaling_shutdown_locks_def
  by (rule disciplined_append) (simp_all add: guarded_def callbacks_in_order)

lemma disconnect_in_order: "in_order (nearcade_disconnect_viewer_locks pf b found)"
  by (auto simp: nearcade_disconnect_viewer_locks_def input_locks_defs slot_release_locks_def guarded_def
      split: option.split)

lemma session_callback_in_order: "session_callback_ok cb \<Longrightarrow> in_order (session_callback_locks pf cb)"
  by (cases cb) (auto simp: fire_event_in_order sender_in_order webrtc_received_input_locks_def
      input_in_order intro!: disciplined_append split: option.split)

lemma session_callback_above:
  "session_callback_ok cb \<Longrightarrow>
   list_all (\<lambda>l. l \<noteq> Sessions_lock \<and> \<not> is_library l) (acquired (session_callback_locks pf cb))"
  by (cases cb) (auto simp: fire_event_locks_def handler_ops_def webrtc_received_input_locks_def sender_locks_defs
      input_locks_defs list_all_iff split: option.splits)

lemma library_callback_in_order:
  assumes "library_ops (before @ after)" and "session_callback_ok cb"
  shows "in_order (before @ session_callback_locks pf cb @ after)"
proof (rule disciplined_middle)
  show "in_order (before @ after)" using assms(1) by (simp add: library_ops_def)
  show "in_order (session_callback_locks pf cb)" by (rule session_callback_in_order[OF assms(2)])
  have "\<forall>h\<in>set (acquired before). is_library h" using assms(1) by (auto simp: library_ops_def list_all_iff)
  then show "\<forall>h\<in>set (acquired before) \<union> set []. is_library h"
    "\<forall>h\<in>set (acquired before) \<union> set []. \<forall>l\<in>set (acquired (session_callback_locks pf cb)). lock_rank h < lock_rank l"
    using session_callback_above[OF assms(2), of pf] rank_above_library by (auto simp: list_all_iff)
qed

lemma started_call_in_order: "started_call c \<Longrightarrow> in_order (sdk_call_locks pf c)"
proof (cases c)
  case (Shutdown sb r libs evs)
  then show "started_call c \<Longrightarrow> ?thesis"
    by (auto simp: nearcade_shutdown_locks_def sessions_in_order input_in_order signaling_shutdown_in_order
        intro!: disciplined_append)
next
  case (Library_callback before cb after)
  then show "started_call c \<Longrightarrow> ?thesis" by (simp add: library_callback_in_order)
qed (simp_all add: fire_event_in_order sessions_in_order input_in_order sender_in_order service_in_order
    disconnect_in_order unguarded_locks_defs)

text \<open>Without the guards of the variables, \<open>nearcade_init\<close> keeps to the contract too.\<close>

lemma init_in_order:
  assumes "valid_call (Init e)"
  shows "disciplined lock_rank is_library (\<lambda>_. None) [] (nearcade_init_locks pf e)"
proof -
  have "disciplined lock_rank is_library (\<lambda>_. None) [] (input_shutdown_locks pf)"
    by (rule disciplined_unguarded[OF input_in_order(1)])
  moreover have "disciplined lock_rank is_library (\<lambda>_. None) [] (webrtc_shutdown_locks libs)"
    if "list_all library_ops libs" for libs
    by (rule disciplined_unguarded[OF sessions_in_order(4)[OF that]])
  ultimately show ?thesis
    using assms by (cases e) (auto simp: init_memset_locks_def init_address_locks_def init_webrtc_locks_def input_init_locks_def
        intro!: disciplined_append)
qed

lemma valid_call_in_order: "valid_call c \<Longrightarrow> disciplined lock_rank is_library (\<lambda>_. None) [] (sdk_call_locks pf c)"
proof (cases "started_call c")
  case True
  then show ?thesis by (rule disciplined_unguarded[OF started_call_in_order])
next
  case False
  then show "valid_call c \<Longrightarrow> ?thesis" by (cases c) (simp_all add: init_in_order)
qed

text \<open>The contract holds for all calls, and with the guards of the variables for those of a started SDK.\<close>

interpretation sdk_locks: lock_order lock_rank is_library "\<lambda>_. None" valid_call "sdk_call_locks pf" for pf
  by unfold_locales (rule valid_call_in_order)

interpretation started: lock_order lock_rank is_library guard_of started_call "sdk_call_locks pf" for pf
  by unfold_locales (rule started_call_in_order)

lemma sample_threads_started: "list_all (list_all started_call) sample_threads"
  by (simp add: sample_threads_def library_ops_def handler_ops_def godot_event_callback_locks_def guarded_def)

lemma sample_threads_valid: "list_all (list_all valid_call) sample_threads"
  by (simp add: sample_threads_def library_ops_def handler_ops_def godot_event_callback_locks_def guarded_def)

subsection \<open>The lock operations are those of the sequential model\<close>

lemma on_lock_append [simp]: "on_lock l (p @ q) = on_lock l p @ on_lock l q"
  by (induction l p rule: on_lock.induct) simp_all

lemma on_lock_guarded [simp]:
  "on_lock l (guarded k p) = (if k = l then [M_lock] @ on_lock l p @ [M_unlock] else on_lock l p)"
  by (simp add: guarded_def)

lemma slot_release_lock:
  "slots_lock (slot_release slot sm) = fold posix_mutex (on_lock Slots_lock (slot_release_locks slot)) (slots_lock sm)"
  by (simp add: slot_release_def slot_release_locks_def Let_def)

lemma input_free_slot_lock:
  "input_lock (snd (input_free_slot pf slot st)) =
     fold posix_mutex (on_lock Input_lock (input_free_slot_locks pf slot)) (input_lock st)"
  by (cases pf) (simp_all add: input_free_slot_def input_free_slot_locks_def linux_input_free_slot_def
      win_input_free_slot_def mac_input_free_slot_def lock_input_def unlock_input_def destroy_slot_def Let_def)

lemma disconnect_viewer_lock:
  "viewer_lock (g_state (snd (nearcade_disconnect_viewer b (Some vid) s))) =
     fold posix_mutex (on_lock Viewer_lock (nearcade_disconnect_viewer_locks (plat b) True (found_slot vid s)))
       (viewer_lock (g_state s))"
  "slots_lock (slots (g_state (snd (nearcade_disconnect_viewer b (Some vid) s)))) =
     fold posix_mutex (on_lock Slots_lock (nearcade_disconnect_viewer_locks (plat b) True (found_slot vid s)))
       (slots_lock (slots (g_state s)))"
  "input_lock (inputs (snd (nearcade_disconnect_viewer b (Some vid) s))) =
     fold posix_mutex (on_lock Input_lock (nearcade_disconnect_viewer_locks (plat b) True (found_slot vid s)))
       (input_lock (inputs s))"
  by (auto simp: nearcade_disconnect_viewer_def nearcade_disconnect_viewer_locks_def found_slot_def lock_viewers_def
      unlock_viewers_def upd_state_def Let_def slot_release_lock input_free_slot_lock slot_release_locks_def
      input_free_slot_locks_def split: option.split)

lemma send_to_lws_lock [simp]: "g_ws_lock (snd (send_to_lws env wsi data st)) = g_ws_lock st"
  by (simp add: send_to_lws_def lws_def Let_def split: option.split)

lemma send_answer_lock:
  "g_ws_lock (snd (signaling_send_answer env vid sdp st)) =
     fold posix_mutex (on_lock Ws_lock (signaling_send_answer_locks (sdp \<noteq> None) to_host named found)) (g_ws_lock st)"
  by (auto simp: signaling_send_answer_def sender_locks_defs lock_ws_def unlock_ws_def Let_def
      split_beta split: option.split)

lemma viewer_left_lock:
  "g_lock (webrtc_viewer_left i wr) = fold posix_mutex (on_lock Sessions_lock (webrtc_viewer_left_locks None)) (g_lock wr)"
  by (simp add: webrtc_viewer_left_def webrtc_viewer_left_locks_def lock_guard_def end_guard_def rtc_def Let_def
      split: option.split)

lemma handle_signaling_lock:
  "g_lock (snd (webrtc_handle_signaling env vid data wr)) =
     fold posix_mutex (on_lock Sessions_lock (webrtc_handle_signaling_locks (names_viewer vid data) None)) (g_lock wr)"
  by (auto simp: webrtc_handle_signaling_def webrtc_handle_signaling_locks_def names_viewer_def lock_guard_def
      end_guard_def rtc_def Let_def split_beta split: option.split)

lemma callback_signaling_lock:
  "g_ws_lock (fst (callback_signaling v m f wsi (LWS_CALLBACK_RECEIVE inp) (st, w))) =
     fold posix_mutex (on_lock Ws_lock (callback_signaling_locks (Ws_received logged From_host None))) (g_ws_lock st)"
  by (simp add: callback_signaling_def lock_ws_def unlock_ws_def fire_event_locks_def Let_def split_beta
      split: option.split)

lemma queue_lock:
  "queue_mutex (snd (take_event self)) = fold posix_mutex (on_lock Queue_lock godot_poll_event_locks) (queue_mutex self)"
  by (simp add: take_event_def lock_queue_def unlock_queue_def godot_poll_event_locks_def Let_def split: list.split)


section \<open>Properties\<close>





text \<open>
  State that is accessed without its lock somewhere is not free of races. The service thread loads
  \<open>g_wsi\<close> for \<open>lws_service\<close>, and \<open>g_host_ws\<close> after a message, with no lock held while
  \<open>nearcade_shutdown\<close> clears them; it tests \<open>g_initialized\<close> while the shutdown clears that; the
  registered callback is replaced while a library thread reads it; two threads that start
  and stop capturing both get to the record of the child; and the PIN is replaced while it is copied out.
\<close>

lemma unlocked_state_races:
  "map_option (pool_race V_context) (run_pool [0, 0, 0, 1, 1, 1, 1, 1, 1]
     (call_pool (sdk_call_locks Windows) [[Service_round (Some [])], [Shutdown True True [] []]])) = Some True
   \<and> map_option (pool_race V_host_ws) (run_pool [0, 0, 0, 0, 0, 0, 0, 0, 1, 1, 1, 1, 1, 1, 1]
     (call_pool (sdk_call_locks Windows)
        [[Service_round (Some [Ws_received False From_host None])], [Shutdown True True [] []]])) = Some True
   \<and> map_option (pool_race V_initialized) (run_pool [0, 0, 0, 0, 0, 0, 0, 0, 1, 1]
     (call_pool (sdk_call_locks Windows)
        [[Service_round (Some [Ws_established (Some (True, []))])], [Shutdown True True [] []]])) = Some True
   \<and> map_option (pool_race V_event_cb) (run_pool [0]
     (call_pool (sdk_call_locks Windows)
        [[Library_callback [] (State_change True None) []], [Set_event_callback]])) = Some True
   \<and> map_option (pool_race V_capture) (run_pool []
     (call_pool (sdk_call_locks Linux) [[Start_capture True], [Stop_capture True]])) = Some True
   \<and> map_option (pool_race V_pin) (run_pool []
     (call_pool (sdk_call_locks Linux) [[Get_pin True], [Regenerate_pin]])) = Some True"
  by (intro conjI; code_simp)



text \<open>
  What is asked of the application's callback is needed. When the library holds a lock while
  it runs a callback and takes the same lock to destroy the session, a callback that calls
  \<open>nearcade_send_h264\<close> deadlocks with the service thread, which destroys the session of a viewer
  that left inside the guard of \<open>g_lock\<close>. With the callback of the binding instead, the same two
  threads run to their end.
\<close>

lemma reentrant_callback_deadlocks:
  "map_option pool_stuck (run_pool [1, 1, 1, 1, 0, 0, 0, 0, 0, 0, 0, 0, 0, 0, 0]
     (call_pool (sdk_call_locks Linux) (leaving_threads (webrtc_send_h264_locks True [])))) = Some True"
  "map_option pool_done (run_pool [1, 1, 1, 1, 1, 1, 1, 1, 0, 0, 0, 0, 0, 0, 0, 0, 0, 0, 0, 0, 0, 0]
     (call_pool (sdk_call_locks Linux) (leaving_threads (godot_event_callback_locks True)))) = Some True"
  by code_simp+


end
