(* ===== verification/Sdk_Down.thy ===== *)
theory Sdk_Down
  imports Sdk_Runs
begin

text \<open>
  The public API while the SDK is down. Only \<open>nearcade_shutdown\<close> looks at the flag \<open>running\<close>;
  the runs of \<open>sdk_reachable\<close> make most calls between a start and a shutdown only, as the
  header asks. Here the calls are made before the first \<open>nearcade_init\<close>, after a failed one or
  after \<open>nearcade_shutdown\<close>, and what follows is unrestricted: \<open>run_steps\<close> makes any calls
  in any order. The one thing asked of the operating system is that \<open>fork\<close> does not hand out the
  process id of a child that nobody has waited for (\<open>forks_other\<close>).
\<close>

section \<open>Definitions\<close>

fun run_steps :: "build \<Rightarrow> evdev_abi \<Rightarrow> sdk_step list \<Rightarrow> sdk \<Rightarrow> sdk" where
  "run_steps b abi [] s = s"
| "run_steps b abi (p # ps) s = run_steps b abi ps (exec_step b abi p s)"

fun forks_other :: "int \<Rightarrow> sdk_step \<Rightarrow> bool" where
  "forks_other pid (S_start_capture env) = (fork_ret env \<noteq> pid)"
| "forks_other pid _ = True"

text \<open>The children forked and not yet waited for.\<close>

definition children :: "sdk \<Rightarrow> int set" where
  "children s = unreaped {} (ff_trace (g_ff s))"

text \<open>A child that runs and that \<open>g_ff\<close> does not record.\<close>

definition orphan :: "int \<Rightarrow> ffmpeg_capture \<Rightarrow> bool" where
  "orphan pid ff \<longleftrightarrow> pid \<in> unreaped {} (ff_trace ff) \<and> ff_pid ff \<noteq> pid"


section \<open>Facts\<close>

lemma orphan_start:
  "orphan pid ff \<Longrightarrow> fork_ret env \<noteq> pid \<Longrightarrow> orphan pid (snd (capture_start p cfg env ff))"
  by (simp add: orphan_def capture_start_def Let_def)

lemma orphan_stop: "orphan pid ff \<Longrightarrow> 0 < pid \<Longrightarrow> orphan pid (snd (capture_stop p env ff))"
  by (simp add: orphan_def capture_stop_def Let_def)

lemma orphan_shutdown: "orphan pid ff \<Longrightarrow> 0 < pid \<Longrightarrow> orphan pid (capture_shutdown p env ff)"
  by (simp add: capture_shutdown_def orphan_stop)

lemma orphan_init: "orphan pid ff \<Longrightarrow> 0 < pid \<Longrightarrow> orphan pid (snd (capture_init p ff))"
  by (simp add: orphan_def capture_init_def)

lemmas orphan_intros = orphan_start orphan_stop orphan_shutdown orphan_init

lemma g_ff_init_components:
  "g_ff (snd (init_components b abi env s)) =
     (if fst (input_init (plat b) abi (uinput env) (inputs s)) \<noteq> NEARCADE_OK then g_ff s
      else if fst (init_components b abi env s) = NEARCADE_OK then snd (capture_init (plat b) (g_ff s))
      else capture_shutdown (plat b) (cap_env env) (snd (capture_init (plat b) (g_ff s))))"
  by (simp add: init_components_def Let_def split_beta capture_init_def webrtc_init_def)

lemma g_ff_init:
  "g_ff (snd (nearcade_init b abi env cfg s)) = g_ff s
   \<or> g_ff (snd (nearcade_init b abi env cfg s)) = snd (capture_init (plat b) (g_ff s))
   \<or> g_ff (snd (nearcade_init b abi env cfg s)) =
       capture_shutdown (plat b) (cap_env env) (snd (capture_init (plat b) (g_ff s)))"
  by (simp add: nearcade_init_def Let_def split_beta g_ff_init_components)

lemma g_ff_init_ok:
  assumes "fst (nearcade_init b abi env cfg s) = NEARCADE_OK"
  shows "g_ff (snd (nearcade_init b abi env cfg s)) = snd (capture_init (plat b) (g_ff s))"
    and "fst (input_init (plat b) abi (uinput env) (inputs s)) = NEARCADE_OK"
proof -
  have in_ok: "fst (input_init (plat b) abi (uinput env) (inputs t)) = NEARCADE_OK"
    if "fst (init_components b abi env t) = NEARCADE_OK" for t
    using that by (auto simp: init_components_def Let_def split_beta split: if_splits)
  show "g_ff (snd (nearcade_init b abi env cfg s)) = snd (capture_init (plat b) (g_ff s))"
    and "fst (input_init (plat b) abi (uinput env) (inputs s)) = NEARCADE_OK"
    using assms
    by (auto simp: nearcade_init_def Let_def split_beta g_ff_init_components split: if_splits dest!: in_ok)
qed

lemma g_ff_callback:
  assumes "\<And>i j w. g_ff (v i j w) = g_ff w" "\<And>i t w. g_ff (m i t w) = g_ff w" "\<And>e w. g_ff (f e w) = g_ff w"
  shows "g_ff (snd (callback_signaling v m f wsi reason (sg, w))) = g_ff w"
  by (cases reason) (simp_all add: callback_signaling_def Let_def split_beta assms split: option.split)

lemma g_ff_service [simp]: "g_ff (service_callback env wsi reason s) = g_ff s"
  by (simp add: service_callback_def split_beta g_ff_callback on_signaling_msg_def)

lemma g_ff_sender [simp]: "g_ff (webrtc_send_via_signaling b env v d s) = g_ff s"
  by (simp add: webrtc_send_via_signaling_def)

lemma g_ff_viewer_state [simp]: "g_ff (webrtc_viewer_state i c s) = g_ff s"
  by (simp add: webrtc_viewer_state_def)

lemma g_ff_received [simp]: "g_ff (webrtc_received_input b p s) = g_ff s"
  by (simp add: webrtc_received_input_def Let_def)

lemma g_ff_locks [simp]: "g_ff (lock_viewers s) = g_ff s" "g_ff (unlock_viewers s) = g_ff s"
  by (simp_all add: lock_viewers_def unlock_viewers_def)

lemma g_ff_step:
  assumes "\<forall>e. p \<noteq> S_start_capture e \<and> p \<noteq> S_stop_capture e \<and> p \<noteq> S_shutdown e" "\<forall>i c. p \<noteq> S_init i c"
  shows "g_ff (exec_step b abi p s) = g_ff s"
  using assms
  by (cases p)
    (simp_all add: nearcade_start_streaming_def nearcade_stop_streaming_def nearcade_send_h264_def
      nearcade_set_event_callback_def nearcade_regenerate_pin_def nearcade_submit_gamepad_def
      nearcade_submit_kbm_def nearcade_flush_slot_def nearcade_disconnect_viewer_def
      nearcade_set_viewer_input_mode_def nearcade_set_controller_type_def nearcade_send_answer_def
      nearcade_send_ice_candidate_def on_state_change_def on_local_description_def
      on_local_candidate_def on_input_message_def send_to_viewer_def Let_def split_beta split: option.split rtc_message.split)

lemma g_ff_shutdown:
  "g_ff (nearcade_shutdown b env s) = g_ff s
   \<or> g_ff (nearcade_shutdown b env s) = capture_shutdown (plat b) env (g_ff s)"
  by (simp add: nearcade_shutdown_def Let_def)

lemma orphan_step:
  assumes "orphan pid (g_ff s)" and "0 < pid" and "forks_other pid p"
  shows "orphan pid (g_ff (exec_step b abi p s))"
proof (cases p)
  case (S_init env cfg)
  then show ?thesis
    using g_ff_init[of b abi env cfg s] assms(1,2) orphan_intros by (metis exec_step.simps(1))
next
  case (S_shutdown env)
  then show ?thesis
    using g_ff_shutdown[of b env s] assms(1,2) orphan_shutdown by (metis exec_step.simps(2))
next
  case (S_start_capture env)
  then show ?thesis
    using assms orphan_start by (simp add: nearcade_start_capture_def Let_def split_beta)
next
  case (S_stop_capture env)
  then show ?thesis
    using assms orphan_stop by (simp add: nearcade_stop_capture_def Let_def)
qed (use assms(1) in \<open>simp_all only: g_ff_step sdk_step.distinct not_False_eq_True simp_thms\<close>)

lemma orphan_run:
  "orphan pid (g_ff s) \<Longrightarrow> 0 < pid \<Longrightarrow> list_all (forks_other pid) ps \<Longrightarrow>
   orphan pid (g_ff (run_steps b abi ps s))"
  by (induction ps arbitrary: s) (simp_all add: orphan_step)

lemma shutdown_not_capturing:
  "running (g_state s) \<Longrightarrow> \<not> capturing (g_state (nearcade_shutdown b e s))"
  by (simp add: nearcade_shutdown_def Let_def)

lemma down_not_capturing:
  assumes "sdk_reachable b abi s"
  shows "\<not> running (g_state s) \<longrightarrow> \<not> capturing (g_state s)"
  using assms
proof (induction rule: sdk_reachable.induct)
  case load
  then show ?case by (simp add: sdk_static_def zero_state_def)
next
  case (step s p)
  show ?case
  proof (cases "running (g_state s)")
    case run: True
    then have up: "up b s" using reachable_inv[OF step.hyps(1)] by (auto simp: down_def)
    show ?thesis
    proof (cases "\<exists>e. p = S_shutdown e")
      case True
      with run show ?thesis using shutdown_not_capturing by auto
    next
      case False
      then show ?thesis using up_step[OF up step.hyps(2)] by (auto simp: up_def state_up_def)
    qed
  next
    case False
    then show ?thesis
      using step.IH step.hyps(2)
      by (cases p) (simp_all add: nearcade_shutdown_def nearcade_set_event_callback_def init_not_capturing)
  qed
qed

lemma down_reachable:
  assumes "sdk_reachable b abi s" and "\<not> running (g_state s)"
  shows "down s" and "\<not> capturing (g_state s)"
  using assms reachable_inv down_not_capturing by (auto simp: up_def state_up_def)

text \<open>Starting capture while the SDK is down: the child is the only one and is recorded.\<close>

lemma capture_while_down:
  assumes "sdk_reachable b abi s" and "\<not> running (g_state s)" and "plat b = Linux" and "0 < fork_ret e"
    and "nearcade_start_capture b e s = (r, s1)"
  shows "r = NEARCADE_OK" and "children s1 = {fork_ret e}" and "capturing (g_state s1)"
    and "ff_active (g_ff s1)" "ff_pid (g_ff s1) = fork_ret e" "\<not> running (g_state s1)"
proof -
  have d: "down s" "\<not> capturing (g_state s)" using down_reachable[OF assms(1,2)] by auto
  then have "unreaped {} (ff_trace (g_ff s)) = {}" "\<not> ff_active (g_ff s)" 
    by (simp_all add: down_def capture_inv_def)
  then show "r = NEARCADE_OK" "children s1 = {fork_ret e}" "capturing (g_state s1)"
    "ff_active (g_ff s1)" "ff_pid (g_ff s1) = fork_ret e" "\<not> running (g_state s1)"
    using assms(2-5) d(2)
    by (auto simp: nearcade_start_capture_def capture_start_def Let_def children_def)
qed

section \<open>Properties\<close>

text \<open>
  C22. A capture started while the SDK is down starts FFmpeg and reports success, but the stop
  of the SDK does not end it. \<open>nearcade_shutdown\<close> does nothing; \<open>nearcade_stop_capture\<close>, called
  before the next start, stops and reaps the child; after a successful \<open>nearcade_init\<close> the process
  id is forgotten, and no calls of any kind, in any order, ever wait for the child again.
\<close>

theorem capture_while_down_orphaned:
  assumes "sdk_reachable b abi s" and "\<not> running (g_state s)" and "plat b = Linux" and "0 < fork_ret e"
    and "nearcade_start_capture b e s = (r, s1)"
    and "nearcade_init b abi env cfg s1 = (NEARCADE_OK, s2)" and "list_all (forks_other (fork_ret e)) ps"
  shows "r = NEARCADE_OK \<and> children s1 = {fork_ret e}
    \<and> nearcade_shutdown b c s1 = s1
    \<and> (wait_answers c (fork_ret e) \<longrightarrow> children (snd (nearcade_stop_capture b c s1)) = {})
    \<and> nearcade_stop_capture b c s2 = (NEARCADE_OK, s2)
    \<and> fork_ret e \<in> children (run_steps b abi ps s2)"
proof -
  note started = capture_while_down[OF assms(1-5)]
  have ff: "g_ff s2 = snd (capture_init (plat b) (g_ff s1))"
    using g_ff_init_ok(1)[of b abi env cfg s1] assms(6) by simp
  have cap: "\<not> capturing (g_state s2)" using init_not_capturing[of s1 b abi env cfg] assms(6) by simp
  have "orphan (fork_ret e) (g_ff s2)"
    using started(2) assms(3,4) by (simp add: ff capture_init_def orphan_def children_def)
  then have "fork_ret e \<in> children (run_steps b abi ps s2)"
    using orphan_run assms(4,7) by (auto simp: children_def orphan_def)
  moreover have "children (snd (nearcade_stop_capture b c s1)) = {}" if "wait_answers c (fork_ret e)"
    using that started assms(3,4)
    by (auto simp: nearcade_stop_capture_def capture_stop_def Let_def children_def wait_answers_def)
  moreover have "nearcade_shutdown b c s1 = s1" using started(6) by (simp add: nearcade_shutdown_def)
  moreover have "nearcade_stop_capture b c s2 = (NEARCADE_OK, s2)" using cap by (simp add: nearcade_stop_capture_def)
  ultimately show ?thesis using started(1,2) by blast
qed

theorem capture_while_down_orphaned_witness:
  "let s1 = snd (nearcade_start_capture linux_build (cap_env plain_env) sdk_static);
       s2 = exec_step linux_build linux_abi (S_init plain_env None) s1
   in running (g_state s2) \<and> 77 \<in> children (run_steps linux_build linux_abi
        [S_start_capture ((cap_env plain_env)\<lparr>fork_ret := 78\<rparr>), S_shutdown ((cap_env plain_env)\<lparr>wait1 := 78\<rparr>)] s2)"
proof -
  let ?s1 = "snd (nearcade_start_capture linux_build (cap_env plain_env) sdk_static)"
  let ?s2 = "exec_step linux_build linux_abi (S_init plain_env None) ?s1"
  have run: "running (g_state ?s2)"
    using plain_init(1)[of 5 ?s1 ?s2] by (simp add: plain_env_uinput)
  then have ok: "nearcade_init linux_build linux_abi plain_env None ?s1 = (NEARCADE_OK, ?s2)"
    using init_running[of linux_build plain_env linux_abi None ?s1] by (simp add: linux_build_def prod_eq_iff)
  have "\<not> running (g_state sdk_static)" by (simp add: sdk_static_def zero_state_def)
  from capture_while_down_orphaned[OF sdk_reachable.load this _ _ prod.collapse[symmetric] ok,
      of "[S_start_capture ((cap_env plain_env)\<lparr>fork_ret := 78\<rparr>), S_shutdown ((cap_env plain_env)\<lparr>wait1 := 78\<rparr>)]"]
  show ?thesis using run by (simp add: Let_def plain_env_def linux_build_def)
qed

text \<open>
  The other calls while the SDK is down. Streaming can be started and tells the callback if one
  is set; messages and viewer settings reach nobody: the former fail, and the latter lock a
  mutex that is not initialised, which the model marks as broken.
\<close>

lemma calls_while_down:
  assumes "sdk_reachable b abi s" and "\<not> running (g_state s)"
  shows "nearcade_shutdown b c s = s
    \<and> nearcade_stop_capture b c s = (NEARCADE_OK, s)
    \<and> (event_cb (g_state s) \<noteq> 0 \<longrightarrow> delivered (snd (nearcade_start_streaming s)) =
         delivered s @ [(event_cb (g_state s), event_cb_userdata (g_state s), NEARCADE_EVENT_STREAMING 0)])
    \<and> (has_signaling b \<longrightarrow> nearcade_send_answer b env v (Some t) s = (-1, s)
         \<and> nearcade_send_ice_candidate b env v (Some t) s = (-1, s))
    \<and> viewer_lock (g_state (snd (nearcade_disconnect_viewer b (Some w) s))) = Broken
    \<and> viewer_lock (g_state (snd (nearcade_set_viewer_input_mode (Some w) m s))) = Broken
    \<and> viewer_lock (g_state (snd (nearcade_set_controller_type (Some w) ct s))) = Broken"
proof -
  note d = down_reachable[OF assms]
  have lock: "viewer_lock (g_state s) = Uninit" and idle: "sig_idle (sig s)" using d(1) by (simp_all add: down_def)
  have none: "reply_target v (sig s) = None" "g_ws_lock (sig s) = Unlocked" 
    using idle sig_idle_inv[OF idle] by (auto simp: sig_idle_def reply_target_def viewer_ws_by_id_def split: option.split)
  have broken: "viewer_lock (g_state (unlock_viewers t)) = Broken" if "viewer_lock (g_state t) \<noteq> Locked" for t
    using that by (cases "viewer_lock (g_state t)") (simp_all add: unlock_viewers_def)
  have "viewer_lock (g_state (snd (nearcade_disconnect_viewer b (Some w) s))) = Broken"
    "viewer_lock (g_state (snd (nearcade_set_viewer_input_mode (Some w) m s))) = Broken"
    "viewer_lock (g_state (snd (nearcade_set_controller_type (Some w) ct s))) = Broken"
    using lock by (simp_all add: nearcade_disconnect_viewer_def nearcade_set_viewer_input_mode_def
        nearcade_set_controller_type_def Let_def broken lock_viewers_def split: option.split)
  moreover have "signaling_send_answer env v (Some t) (sig s) = (-1, sig s)"
    "signaling_send_ice env v (Some t) (sig s) = (-1, sig s)"
    using none by (simp_all add: send_answer_eq send_ice_eq send_to_lws_def unlock_lock_ws)
  ultimately show ?thesis
    using assms(2) d(2)
    by (simp add: nearcade_shutdown_def nearcade_stop_capture_def nearcade_start_streaming_def fire_event_def
        nearcade_send_answer_def nearcade_send_ice_candidate_def)
qed

end
