(* ===== verification/Guarded_Object.thy ===== *)
theory Guarded_Object
  imports Prelude "HOL-Library.Multiset"
begin

text \<open>
  Threads that call the operations of one object protected by one mutex, step by step. A call
  either returns at once (\<open>Inr\<close>, an argument check that fails before the mutex) or takes the
  mutex and runs the \<open>body\<close>, one access to the shared state per step, until it gives the mutex
  back and returns. Between any two steps every other thread may move.

  The locale states what an object owes to be replaced by operations that happen at once: with nobody
  inside, the body of a call run alone does what the call's sequential definition \<open>spec\<close> does,
  and no step inside touches the mutex. What is proved in it once: whatever the scheduler
  does, the results and the final state are those of the calls made one after the other, in
  the order in which they returned, which keeps the order of each thread; and every run can
  be completed.
\<close>

record ('c, 'p, 'r, 's) guarded_object =
  enter :: "'c \<Rightarrow> 'p + 'r"
  body :: "'p \<Rightarrow> 's \<Rightarrow> ('p \<times> 's) + 'r"
  is_free :: "'s \<Rightarrow> bool"
  take_lock :: "'s \<Rightarrow> 's"
  give_lock :: "'s \<Rightarrow> 's"

text \<open>A thread is the calls it has still to make and, when it is inside the first of them, where
  it is. \<open>history\<close> holds the calls that have returned, with thread and result, in that order.\<close>

record ('c, 'p, 'r, 's) machine =
  shared :: 's
  threads :: "('c list \<times> 'p option) list"
  history :: "(nat \<times> 'c \<times> 'r) list"

fun call_step ::
    "('c, 'p, 'r, 's) guarded_object \<Rightarrow> 'c list \<Rightarrow> 'p option \<Rightarrow> 's
     \<Rightarrow> (('c list \<times> 'p option) \<times> 's \<times> 'r option) option" where
  "call_step obj [] at s = None"
| "call_step obj (c # cs) None s =
     (case enter obj c of
        Inr r \<Rightarrow> Some ((cs, None), s, Some r)
      | Inl p \<Rightarrow> if is_free obj s then Some ((c # cs, Some p), take_lock obj s, None) else None)"
| "call_step obj (c # cs) (Some p) s =
     (case body obj p s of
        Inl (p', s') \<Rightarrow> Some ((c # cs, Some p'), s', None)
      | Inr r \<Rightarrow> Some ((cs, None), give_lock obj s, Some r))"

definition machine_move ::
    "('c, 'p, 'r, 's) guarded_object \<Rightarrow> nat \<Rightarrow> ('c, 'p, 'r, 's) machine \<Rightarrow> ('c, 'p, 'r, 's) machine option" where
  "machine_move obj i m =
     (if i < length (threads m)
      then map_option
        (\<lambda>(t, s, res). \<lparr>shared = s, threads = (threads m)[i := t],
           history = history m @ (case res of None \<Rightarrow> [] | Some r \<Rightarrow> [(i, hd (fst (threads m ! i)), r)])\<rparr>)
        (call_step obj (fst (threads m ! i)) (snd (threads m ! i)) (shared m))
      else None)"

fun run_machine ::
    "('c, 'p, 'r, 's) guarded_object \<Rightarrow> nat list \<Rightarrow> ('c, 'p, 'r, 's) machine \<Rightarrow> ('c, 'p, 'r, 's) machine option" where
  "run_machine obj [] m = Some m"
| "run_machine obj (i # is) m = Option.bind (machine_move obj i m) (run_machine obj is)"

text \<open>Thread \<open>i\<close> makes the calls of the \<open>i\<close>-th list.\<close>

definition machine_start :: "'c list list \<Rightarrow> 's \<Rightarrow> ('c, 'p, 'r, 's) machine" where
  "machine_start css s = \<lparr>shared = s, threads = map (\<lambda>cs. (cs, None)) css, history = []\<rparr>"

definition machine_done :: "('c, 'p, 'r, 's) machine \<Rightarrow> bool" where
  "machine_done m \<longleftrightarrow> (\<forall>t\<in>set (threads m). fst t = [])"

text \<open>The calls one after the other.\<close>

fun replay :: "('c \<Rightarrow> 's \<Rightarrow> 'r \<times> 's) \<Rightarrow> 'c list \<Rightarrow> 's \<Rightarrow> 'r list \<times> 's" where
  "replay spec [] s = ([], s)"
| "replay spec (c # cs) s = (let (r, s) = spec c s; (rs, s) = replay spec cs s in (r # rs, s))"

definition calls_of :: "(nat \<times> 'c \<times> 'r) list \<Rightarrow> 'c list" where
  "calls_of h = map (\<lambda>(i, c, r). c) h"

definition results_of :: "(nat \<times> 'c \<times> 'r) list \<Rightarrow> 'r list" where
  "results_of h = map (\<lambda>(i, c, r). r) h"

definition by_thread :: "nat \<Rightarrow> (nat \<times> 'c \<times> 'r) list \<Rightarrow> (nat \<times> 'c \<times> 'r) list" where
  "by_thread i h = filter (\<lambda>(j, c, r). j = i) h"

text \<open>A body that runs alone from \<open>p\<close> comes to an end, with this result and state.\<close>

inductive completes :: "('c, 'p, 'r, 's) guarded_object \<Rightarrow> 'p \<Rightarrow> 's \<Rightarrow> 'r \<times> 's \<Rightarrow> bool" for obj where
  leave: "body obj p s = Inr r \<Longrightarrow> completes obj p s (r, give_lock obj s)"
| step: "body obj p s = Inl (p', s') \<Longrightarrow> completes obj p' s' x \<Longrightarrow> completes obj p s x"

text \<open>Nobody is inside, or one thread is, on its way to what its call does in the state \<open>s\<close>.\<close>

definition nobody_inside :: "('c, 'p, 'r, 's) machine \<Rightarrow> bool" where
  "nobody_inside m \<longleftrightarrow> (\<forall>j<length (threads m). snd (threads m ! j) = None)"

definition one_inside ::
    "('c, 'p, 'r, 's) guarded_object \<Rightarrow> ('c \<Rightarrow> 's \<Rightarrow> 'r \<times> 's) \<Rightarrow> 's \<Rightarrow> nat \<Rightarrow> ('c, 'p, 'r, 's) machine \<Rightarrow> bool" where
  "one_inside obj spec s i m \<longleftrightarrow>
     (\<exists>c cs p. i < length (threads m) \<and> threads m ! i = (c # cs, Some p)
        \<and> (\<forall>j<length (threads m). j \<noteq> i \<longrightarrow> snd (threads m ! j) = None)
        \<and> \<not> is_free obj (shared m) \<and> completes obj p (shared m) (spec c s))"

text \<open>What the run has been so far: a sequential run of the calls that have returned, from \<open>s0\<close> to \<open>s\<close>.\<close>

definition explained ::
    "('c, 'p, 'r, 's) guarded_object \<Rightarrow> ('c \<Rightarrow> 's \<Rightarrow> 'r \<times> 's) \<Rightarrow> 's \<Rightarrow> 's \<Rightarrow> ('c, 'p, 'r, 's) machine \<Rightarrow> bool" where
  "explained obj spec s0 s m \<longleftrightarrow>
     replay spec (calls_of (history m)) s0 = (results_of (history m), s) \<and>
     (shared m = s \<and> nobody_inside m \<or> (\<exists>i. one_inside obj spec s i m))"

text \<open>What a thread has done and what it has still to do are the calls it was given, in order.\<close>

definition program_order :: "'c list list \<Rightarrow> ('c, 'p, 'r, 's) machine \<Rightarrow> bool" where
  "program_order css m \<longleftrightarrow>
     length (threads m) = length css \<and>
     (\<forall>i<length css. calls_of (by_thread i (history m)) @ fst (threads m ! i) = css ! i)"


section \<open>Facts\<close>

lemma calls_of_simps [simp]:
  "calls_of [] = []" "calls_of (h @ h') = calls_of h @ calls_of h'" "calls_of [(i, c, r)] = [c]"
  by (simp_all add: calls_of_def)

lemma results_of_simps [simp]:
  "results_of [] = []" "results_of (h @ h') = results_of h @ results_of h'" "results_of [(i, c, r)] = [r]"
  by (simp_all add: results_of_def)

lemma by_thread_simps [simp]:
  "by_thread i [] = []" "by_thread i (h @ h') = by_thread i h @ by_thread i h'"
  "by_thread i [(j, c, r)] = (if j = i then [(j, c, r)] else [])"
  by (simp_all add: by_thread_def)

lemma length_calls_of [simp]: "length (calls_of h) = length h" "length (results_of h) = length h"
  by (simp_all add: calls_of_def results_of_def)

lemma replay_append:
  "replay spec (cs @ ds) s =
     (let (rs, s') = replay spec cs s; (qs, s'') = replay spec ds s' in (rs @ qs, s''))"
  by (induction cs arbitrary: s) (simp_all split: prod.split)

lemma run_machine_append:
  "run_machine obj (is @ js) m = Option.bind (run_machine obj is m) (run_machine obj js)"
  by (induction "is" arbitrary: m) (simp_all split: Option.bind_split)

lemma machine_moveE:
  assumes "machine_move obj i m = Some m'"
  obtains t s res where "i < length (threads m)"
    and "call_step obj (fst (threads m ! i)) (snd (threads m ! i)) (shared m) = Some (t, s, res)"
    and "m' = \<lparr>shared = s, threads = (threads m)[i := t],
      history = history m @ (case res of None \<Rightarrow> [] | Some r \<Rightarrow> [(i, hd (fst (threads m ! i)), r)])\<rparr>"
  using assms by (auto simp: machine_move_def split: if_splits)

text \<open>The three ways a call moves on.\<close>

lemma call_stepE:
  assumes "call_step obj cs at s = Some (t, s', res)"
  obtains
    (skip) c ds r where "cs = c # ds" "at = None" "enter obj c = Inr r" "t = (ds, None)" "s' = s" "res = Some r"
  | (enter) c ds p where "cs = c # ds" "at = None" "enter obj c = Inl p" "is_free obj s"
      "t = (c # ds, Some p)" "s' = take_lock obj s" "res = None"
  | (step) c ds p p' where "cs = c # ds" "at = Some p" "body obj p s = Inl (p', s')"
      "t = (c # ds, Some p')" "res = None"
  | (leave) c ds p r where "cs = c # ds" "at = Some p" "body obj p s = Inr r" "t = (ds, None)"
      "s' = give_lock obj s" "res = Some r"
proof (cases cs)
  case (Cons c ds)
  show thesis
  proof (cases at)
    case None
    show thesis
    proof (cases "enter obj c")
      case (Inl p)
      then show thesis using that(2)[of c ds p] assms Cons None by (simp split: if_splits)
    next
      case (Inr r)
      then show thesis using that(1)[of c ds r] assms Cons None by simp
    qed
  next
    case (Some p)
    show thesis
    proof (cases "body obj p s")
      case (Inl ps)
      then show thesis using that(3)[of c ds p "fst ps"] assms Cons Some by (cases ps) simp
    next
      case (Inr r)
      then show thesis using that(4)[of c ds p r] assms Cons Some by simp
    qed
  qed
qed (use assms in simp)

lemma program_order_start: "program_order css (machine_start css s)"
  by (simp add: program_order_def machine_start_def)

lemma program_order_move:
  assumes "machine_move obj i m = Some m'" and "program_order css m"
  shows "program_order css m'"
proof -
  obtain t s res where i: "i < length (threads m)"
    and cs: "call_step obj (fst (threads m ! i)) (snd (threads m ! i)) (shared m) = Some (t, s, res)"
    and m': "m' = \<lparr>shared = s, threads = (threads m)[i := t],
      history = history m @ (case res of None \<Rightarrow> [] | Some r \<Rightarrow> [(i, hd (fst (threads m ! i)), r)])\<rparr>"
    using assms(1) by (rule machine_moveE)
  show ?thesis
    using cs by (cases rule: call_stepE) (use assms(2) i m' in \<open>auto simp: program_order_def nth_list_update\<close>)
qed

lemma run_machine_program_order:
  "run_machine obj is m = Some m' \<Longrightarrow> program_order css m \<Longrightarrow> program_order css m'"
  by (induction "is" arbitrary: m) (auto simp: bind_eq_Some_conv intro: program_order_move)

lemma history_grows:
  assumes "run_machine obj is m = Some m'"
  shows "\<exists>h. history m' = history m @ h"
  using assms
proof (induction "is" arbitrary: m)
  case (Cons i "is")
  then obtain m1 where m1: "machine_move obj i m = Some m1" "run_machine obj is m1 = Some m'"
    by (auto simp: bind_eq_Some_conv)
  then show ?case using Cons.IH[OF m1(2)] by (auto elim!: machine_moveE)
qed simp

lemma completes_iff:
  "completes obj p s x \<longleftrightarrow>
     (case body obj p s of Inr r \<Rightarrow> x = (r, give_lock obj s) | Inl (p', s') \<Rightarrow> completes obj p' s' x)"
  by (auto elim: completes.cases intro: completes.intros split: sum.splits)

text \<open>A loop over a table that ends at the first entry with a property, one test per step.\<close>

lemma search_completes:
  assumes test: "\<And>k. body obj (test k) s =
      Inl (if k < length xs then if P (xs ! k) then found k else test (Suc k) else none, s)"
    and found: "\<And>k. first_index P xs = Some k \<Longrightarrow> completes obj (found k) s x"
    and none: "first_index P xs = None \<Longrightarrow> completes obj none s x"
  shows "completes obj (test 0) s x"
proof -
  have "completes obj (test k) s x" if "\<forall>j<k. \<not> P (xs ! j)" "k \<le> length xs" for k
    using that
  proof (induction "length xs - k" arbitrary: k)
    case 0
    then have "first_index P xs = None" by (auto simp: first_index_None_iff in_set_conv_nth)
    then show ?case using 0 none by (simp add: completes_iff[of obj "test k"] test)
  next
    case (Suc n)
    then have k: "k < length xs" by simp
    show ?case
    proof (cases "P (xs ! k)")
      case True
      then have "first_index P xs = Some k" using Suc.prems k by (simp add: first_index_Some_iff)
      then show ?thesis using found k True by (simp add: completes_iff[of obj "test k"] test)
    next
      case False
      then have "completes obj (test (Suc k)) s x"
        using Suc.hyps(2) Suc.prems k by (intro Suc.hyps(1)) (auto simp: less_Suc_eq)
      then show ?thesis using k False by (simp add: completes_iff[of obj "test k"] test)
    qed
  qed
  then show ?thesis by simp
qed

lemma completes_run:
  assumes "completes obj p s (r, s')" and "i < length (threads m)" and "threads m ! i = (c # cs, Some p)"
    and "shared m = s"
  shows "\<exists>n. run_machine obj (replicate n i) m =
    Some \<lparr>shared = s', threads = (threads m)[i := (cs, None)], history = history m @ [(i, c, r)]\<rparr>"
  using assms
proof (induction p s "(r, s')" arbitrary: m rule: completes.induct)
  case (leave p s)
  have "run_machine obj (replicate 1 i) m =
    Some \<lparr>shared = give_lock obj s, threads = (threads m)[i := (cs, None)], history = history m @ [(i, c, r)]\<rparr>"
    using leave by (simp add: machine_move_def)
  with leave show ?case by blast
next
  case (step p s p' s1)
  let ?m = "\<lparr>shared = s1, threads = (threads m)[i := (c # cs, Some p')], history = history m\<rparr>"
  have mv: "machine_move obj i m = Some ?m" using step by (simp add: machine_move_def)
  have "\<exists>n. run_machine obj (replicate n i) ?m =
    Some \<lparr>shared = s', threads = (threads ?m)[i := (cs, None)], history = history ?m @ [(i, c, r)]\<rparr>"
    using step.prems by (intro step.hyps(3)) simp_all
  then obtain n where "run_machine obj (replicate n i) ?m =
    Some \<lparr>shared = s', threads = (threads m)[i := (cs, None)], history = history m @ [(i, c, r)]\<rparr>"
    by auto
  then have "run_machine obj (replicate (Suc n) i) m =
    Some \<lparr>shared = s', threads = (threads m)[i := (cs, None)], history = history m @ [(i, c, r)]\<rparr>"
    using mv by simp
  then show ?case ..
qed


definition calls_left :: "('c, 'p, 'r, 's) machine \<Rightarrow> nat" where
  "calls_left m = length (concat (map fst (threads m)))"

lemma length_concat_update:
  "i < length xss \<Longrightarrow> length (concat (xss[i := ys])) + length (xss ! i) = length (concat xss) + length ys"
  by (induction xss arbitrary: i) (force split: nat.splits)+

lemma calls_left_less:
  "i < length (threads m) \<Longrightarrow> threads m ! i = (c # cs, p) \<Longrightarrow> threads m' = (threads m)[i := (cs, p')]
   \<Longrightarrow> calls_left m' < calls_left m"
  using length_concat_update[of i "map fst (threads m)" cs] by (simp add: calls_left_def map_update)

lemma calls_left_same:
  "i < length (threads m) \<Longrightarrow> threads m ! i = (cs, p) \<Longrightarrow> threads m' = (threads m)[i := (cs, p')]
   \<Longrightarrow> calls_left m' = calls_left m"
  using length_concat_update[of i "map fst (threads m)" cs] by (simp add: calls_left_def map_update)

lemma not_done_ready:
  assumes "\<not> machine_done m" and "nobody_inside m"
  shows "\<exists>i c cs. i < length (threads m) \<and> threads m ! i = (c # cs, None)"
proof -
  obtain t where "t \<in> set (threads m)" "fst t \<noteq> []" using assms(1) by (auto simp: machine_done_def)
  then obtain i where "i < length (threads m)" "fst (threads m ! i) \<noteq> []" by (metis in_set_conv_nth)
  moreover have "snd (threads m ! i) = None" using assms(2) calculation(1) by (simp add: nobody_inside_def)
  ultimately show ?thesis by (metis neq_Nil_conv prod.collapse)
qed

lemma mset_by_thread:
  assumes "\<forall>(i, c, r)\<in>set h. i < n"
  shows "mset (calls_of h) = mset (concat (map (\<lambda>i. calls_of (by_thread i h)) [0..<n]))"
  using assms
proof (induction h rule: rev_induct)
  case Nil
  then show ?case by (simp add: concat_eq_Nil_conv[THEN iffD2])
next
  case (snoc x h)
  obtain k c r where x: "x = (k, c, r)" by (cases x)
  have "mset (concat (map (\<lambda>i. calls_of (by_thread i h) @ (if i = k then [c] else [])) is)) =
    mset (concat (map (\<lambda>i. calls_of (by_thread i h)) is)) + mset (concat (map (\<lambda>i. if i = k then [c] else []) is))"
    for "is" by (induction "is") simp_all
  moreover have "concat (map (\<lambda>i. if i = k then [c] else []) [0..<n]) = [c]"
  proof -
    have "k < n" using snoc.prems x by simp
    then have "[0..<n] = [0..<k] @ k # [Suc k..<n]" using upt_add_eq_append[of 0 k "n - k"] upt_conv_Cons[of k n] by simp
    moreover have "concat (map (\<lambda>i. if i = k then [c] else []) [0..<k]) = []"
      "concat (map (\<lambda>i. if i = k then [c] else []) [Suc k..<n]) = []" by auto
    ultimately show ?thesis by (simp only: map_append list.map concat_append concat.simps if_True append_Nil append_Nil2 refl)
  qed
  moreover have "calls_of (by_thread i (h @ [x])) = calls_of (by_thread i h) @ (if i = k then [c] else [])" for i
    by (simp add: x)
  ultimately show ?case using snoc by (simp add: x)
qed

lemma run_machine_threads:
  assumes "run_machine obj is m = Some m'" and "\<forall>(i, c, r)\<in>set (history m). i < length (threads m)"
  shows "\<forall>(i, c, r)\<in>set (history m'). i < length (threads m)"
  using assms
proof (induction "is" arbitrary: m)
  case (Cons i "is")
  then obtain m1 where m1: "machine_move obj i m = Some m1" "run_machine obj is m1 = Some m'"
    by (auto simp: bind_eq_Some_conv)
  then have "length (threads m1) = length (threads m)"
    "\<forall>(i, c, r)\<in>set (history m1). i < length (threads m1)"
    using Cons.prems(2) by (auto elim!: machine_moveE split: option.splits)
  then show ?case using Cons.IH[OF m1(2)] by (simp add: split_def)
qed simp

text \<open>A rearrangement of a mapped list is one of the list, mapped.\<close>

lemma mset_eq_mapD:
  "mset xs = mset (map f ys) \<Longrightarrow> \<exists>zs. xs = map f zs \<and> mset zs = mset ys"
proof (induction ys arbitrary: xs)
  case (Cons y ys)
  then have "f y \<in> set xs" by (metis list.set_intros(1) list.simps(9) mset_eq_setD)
  then obtain as bs where xs: "xs = as @ f y # bs" by (meson split_list)
  then have "mset (as @ bs) = mset (map f ys)" using Cons.prems by simp
  then obtain zs where zs: "as @ bs = map f zs" "mset zs = mset ys" using Cons.IH by blast
  then obtain us vs where us: "zs = us @ vs" "as = map f us" "bs = map f vs" by (metis append_eq_map_conv)
  then have "xs = map f (us @ y # vs)" "mset (us @ y # vs) = mset (y # ys)" using xs zs(2) by simp_all
  then show ?case by blast
qed simp

text \<open>What holds of the calls to make holds of those that have returned.\<close>

lemma program_order_calls:
  assumes "program_order css m" and "\<forall>(i, c, r)\<in>set (history m). i < length css" and "list_all P (concat css)"
  shows "list_all P (calls_of (history m))"
proof -
  have "P c" if "(i, c, r) \<in> set (history m)" for i c r
  proof -
    have "i < length css" using assms(2) that by blast
    moreover have "c \<in> set (calls_of (by_thread i (history m)))"
      using that by (force simp: calls_of_def by_thread_def)
    ultimately have "c \<in> set (css ! i)" using assms(1) unfolding program_order_def by (metis Un_iff set_append)
    then show ?thesis using assms(3) \<open>i < length css\<close> by (auto simp: list_all_iff)
  qed
  then show ?thesis by (auto simp: list_all_iff calls_of_def)
qed


section \<open>The contract and what follows\<close>

locale atomic_object =
  fixes obj :: "('c, 'p, 'r, 's) guarded_object"
    and inv :: "'s \<Rightarrow> bool"
    and spec :: "'c \<Rightarrow> 's \<Rightarrow> 'r \<times> 's"
  assumes inv_free: "inv s \<Longrightarrow> is_free obj s"
    and take_busy: "inv s \<Longrightarrow> \<not> is_free obj (take_lock obj s)"
    and body_busy: "\<not> is_free obj s \<Longrightarrow> body obj p s = Inl (p', s') \<Longrightarrow> \<not> is_free obj s'"
    and skip_spec: "inv s \<Longrightarrow> enter obj c = Inr r \<Longrightarrow> spec c s = (r, s)"
    and body_spec: "inv s \<Longrightarrow> enter obj c = Inl p \<Longrightarrow> completes obj p (take_lock obj s) (spec c s)"
    and spec_inv: "inv s \<Longrightarrow> inv (snd (spec c s))"
begin

lemma explained_snoc:
  assumes "replay spec (calls_of h) s0 = (results_of h, s)" and "spec c s = (r, s')"
  shows "replay spec (calls_of (h @ [(i, c, r)])) s0 = (results_of (h @ [(i, c, r)]), s')"
  using assms by (simp add: replay_append)

lemma explained_start: "explained obj spec s s (machine_start css s)"
  by (simp add: explained_def machine_start_def nobody_inside_def)

lemma skip_explained:
  assumes "i < length (threads m)" and "threads m ! i = (c # ds, None)"
    and "shared m = s \<and> nobody_inside m \<or> (\<exists>i. one_inside obj spec s i m)"
    and "shared m' = shared m" and "threads m' = (threads m)[i := (ds, None)]"
  shows "shared m' = s \<and> nobody_inside m' \<or> (\<exists>i. one_inside obj spec s i m')"
  using assms(3)
proof
  assume "shared m = s \<and> nobody_inside m"
  then show ?thesis using assms(1,4,5) by (simp add: nobody_inside_def nth_list_update)
next
  assume "\<exists>i. one_inside obj spec s i m"
  then obtain k where k: "one_inside obj spec s k m" ..
  then have "k \<noteq> i" using assms(2) by (auto simp: one_inside_def)
  with k have "one_inside obj spec s k m'"
    using assms(1,4,5) by (auto simp: one_inside_def nth_list_update)
  then show ?thesis by blast
qed

text \<open>The thread that is past the mutex is the one that is inside.\<close>

lemma inside_unique:
  assumes "i < length (threads m)" and "threads m ! i = (c # ds, Some p)"
    and "shared m = s \<and> nobody_inside m \<or> (\<exists>i. one_inside obj spec s i m)"
  shows "(\<forall>j<length (threads m). j \<noteq> i \<longrightarrow> snd (threads m ! j) = None)
    \<and> \<not> is_free obj (shared m) \<and> completes obj p (shared m) (spec c s)"
proof -
  have "\<not> nobody_inside m" using assms(1,2) by (auto simp: nobody_inside_def)
  then obtain k where k: "one_inside obj spec s k m" using assms(3) by blast
  then have "k = i" using assms(1,2) by (auto simp: one_inside_def)
  with k assms(2) show ?thesis by (auto simp: one_inside_def)
qed

lemma move_explained:
  assumes "machine_move obj i m = Some m'" and "explained obj spec s0 s m" and "inv s"
  shows "\<exists>s'. explained obj spec s0 s' m' \<and> inv s'"
proof -
  obtain t s1 res where i: "i < length (threads m)"
    and cs: "call_step obj (fst (threads m ! i)) (snd (threads m ! i)) (shared m) = Some (t, s1, res)"
    and m': "m' = \<lparr>shared = s1, threads = (threads m)[i := t],
      history = history m @ (case res of None \<Rightarrow> [] | Some r \<Rightarrow> [(i, hd (fst (threads m ! i)), r)])\<rparr>"
    using assms(1) by (rule machine_moveE)
  have rep: "replay spec (calls_of (history m)) s0 = (results_of (history m), s)"
    and now: "shared m = s \<and> nobody_inside m \<or> (\<exists>i. one_inside obj spec s i m)"
    using assms(2) by (simp_all add: explained_def)
  from cs show ?thesis
  proof (cases rule: call_stepE)
    case (skip c ds r)
    have at: "threads m ! i = (c # ds, None)" using skip by (simp add: prod_eq_iff)
    have sp: "spec c s = (r, s)" using skip_spec[OF assms(3)] skip by simp
    have "shared m' = s \<and> nobody_inside m' \<or> (\<exists>i. one_inside obj spec s i m')"
      by (rule skip_explained[OF i at now]) (simp_all add: m' skip)
    moreover have "replay spec (calls_of (history m')) s0 = (results_of (history m'), s)"
      using explained_snoc[OF rep sp, of i] skip by (simp add: m')
    ultimately show ?thesis using assms(3) by (auto simp: explained_def)
  next
    case (enter c ds p)
    have "shared m = s \<and> nobody_inside m"
      using now enter(4) by (auto simp: one_inside_def)
    then have "one_inside obj spec s i m'"
      using enter i take_busy[OF assms(3)] body_spec[OF assms(3) enter(3)]
      by (simp add: one_inside_def nobody_inside_def m')
    then show ?thesis using assms(3) rep enter by (auto simp: explained_def m')
  next
    case (step c ds p p')
    have at: "threads m ! i = (c # ds, Some p)" using step by (simp add: prod_eq_iff)
    note ex = inside_unique[OF i at now]
    have "completes obj p' s1 (spec c s)"
      using ex step(3) by (auto elim: completes.cases)
    moreover have "\<not> is_free obj s1" using body_busy ex step(3) by blast
    ultimately have "one_inside obj spec s i m'" using step i ex by (simp add: one_inside_def m')
    then show ?thesis using assms(3) rep step by (auto simp: explained_def m')
  next
    case (leave c ds p r)
    have at: "threads m ! i = (c # ds, Some p)" using leave by (simp add: prod_eq_iff)
    note ex = inside_unique[OF i at now]
    have sp: "spec c s = (r, s1)" using ex leave by (auto elim: completes.cases)
    have "shared m' = s1 \<and> nobody_inside m'"
      using leave i ex by (simp add: nobody_inside_def m' nth_list_update)
    moreover have "replay spec (calls_of (history m')) s0 = (results_of (history m'), s1)"
      using explained_snoc[OF rep sp, of i] leave by (simp add: m')
    moreover have "inv s1" using spec_inv[OF assms(3), of c] sp by simp
    ultimately show ?thesis by (auto simp: explained_def)
  qed
qed

lemma run_explained:
  "run_machine obj is m = Some m' \<Longrightarrow> explained obj spec s0 s m \<Longrightarrow> inv s \<Longrightarrow>
     \<exists>s'. explained obj spec s0 s' m' \<and> inv s'"
proof (induction "is" arbitrary: m s)
  case (Cons i "is")
  then obtain m1 where m1: "machine_move obj i m = Some m1" "run_machine obj is m1 = Some m'"
    by (auto simp: bind_eq_Some_conv)
  then show ?case using move_explained[OF m1(1) Cons.prems(2,3)] Cons.IH[OF m1(2)] by blast
qed auto

lemma explained_free:
  assumes "explained obj spec s0 s m" and "is_free obj (shared m)"
  shows "shared m = s"
  using assms by (auto simp: explained_def one_inside_def)

text \<open>The thread that is inside can finish its call.\<close>

lemma inside_finishes:
  assumes "one_inside obj spec s i m"
  shows "\<exists>is m' c cs p. run_machine obj is m = Some (m' :: ('c, 'p, 'r, 's) machine)
    \<and> threads m ! i = (c # cs, Some p) \<and> threads m' = (threads m)[i := (cs, None)]"
proof -
  obtain c cs p where i: "i < length (threads m)" "threads m ! i = (c # cs, Some p)"
    and c: "completes obj p (shared m) (fst (spec c s), snd (spec c s))"
    using assms by (auto simp: one_inside_def)
  let ?m = "\<lparr>shared = snd (spec c s), threads = (threads m)[i := (cs, None)],
        history = history m @ [(i, c, fst (spec c s))]\<rparr>"
  obtain n where "run_machine obj (replicate n i) m = Some ?m"
    using completes_run[OF c i] by auto
  moreover have "threads ?m = (threads m)[i := (cs, None)]" by simp
  ultimately show ?thesis using i(2) by blast
qed

lemma run_finishes:
  assumes "explained obj spec s0 s m" and "inv s"
  shows "\<exists>is m'. run_machine obj is m = Some m' \<and> machine_done m' \<and> nobody_inside m'"
  using assms
proof (induction "calls_left m" arbitrary: m s rule: less_induct)
  case less
  have again: ?case
    if r: "run_machine obj is m = Some m1" and l: "calls_left m1 < calls_left m" for "is" m1
  proof -
    obtain s1 where "explained obj spec s0 s1 m1" "inv s1"
      using run_explained[OF r less.prems] by blast
    then obtain js m' where "run_machine obj js m1 = Some m'" "machine_done m'" "nobody_inside m'"
      using less.hyps[OF l] by blast
    with r have "run_machine obj (is @ js) m = Some m'" by (simp add: run_machine_append)
    with \<open>machine_done m'\<close> \<open>nobody_inside m'\<close> show ?case by blast
  qed
  have inside: ?case if o: "one_inside obj spec s1 i m1" and r1: "run_machine obj is m = Some m1"
    and l1: "calls_left m1 = calls_left m" for s1 i m1 "is"
  proof -
    obtain js m2 c cs p where r: "run_machine obj js m1 = Some m2" "threads m1 ! i = (c # cs, Some p)"
      "threads m2 = (threads m1)[i := (cs, None)]"
      using inside_finishes[OF o] by blast
    have "i < length (threads m1)" using o by (auto simp: one_inside_def)
    then have "calls_left m2 < calls_left m" using r(2,3) l1 calls_left_less[of i m1 c cs "Some p" m2] by simp
    moreover have "run_machine obj (is @ js) m = Some m2" using r r1 by (simp add: run_machine_append)
    ultimately show ?case by (rule again[rotated])
  qed
  consider (within) i where "one_inside obj spec s i m" | (finished) "machine_done m" "nobody_inside m"
    | (ready) i c cs where "shared m = s" "nobody_inside m" "i < length (threads m)" "threads m ! i = (c # cs, None)"
    using less.prems(1) not_done_ready by (auto simp: explained_def) blast
  then show ?case
  proof cases
    case (within i)
    show ?thesis by (rule inside[OF within, of "[]"]) simp_all
  next
    case finished
    then show ?thesis by (intro exI[of _ "[]"] exI[of _ m]) simp
  next
    case (ready i c cs)
    show ?thesis
    proof (cases "enter obj c")
      case (Inr r)
      let ?m = "\<lparr>shared = shared m, threads = (threads m)[i := (cs, None)], history = history m @ [(i, c, r)]\<rparr>"
      have "run_machine obj [i] m = Some ?m" using ready Inr by (simp add: machine_move_def)
      moreover have "calls_left ?m < calls_left m" using ready by (simp add: calls_left_less)
      ultimately show ?thesis by (rule again)
    next
      case (Inl p)
      let ?m = "\<lparr>shared = take_lock obj s, threads = (threads m)[i := (c # cs, Some p)], history = history m\<rparr>"
      have "run_machine obj [i] m = Some ?m"
        using ready Inl inv_free[OF less.prems(2)] by (simp add: machine_move_def)
      moreover have "calls_left ?m = calls_left m" using ready by (simp add: calls_left_same)
      moreover have "one_inside obj spec s i ?m"
        using ready take_busy body_spec[OF _ Inl] less.prems(2)
        by (simp add: one_inside_def nobody_inside_def)
      ultimately show ?thesis by (intro inside)
    qed
  qed
qed

text \<open>Any run of the threads is a run of the calls one after the other.\<close>

lemma linearizable:
  assumes "inv s" and "run_machine obj is (machine_start css s) = Some m"
  shows "program_order css m"
    and "results_of (history m) = fst (replay spec (calls_of (history m)) s)"
    and "is_free obj (shared m) \<Longrightarrow> shared m = snd (replay spec (calls_of (history m)) s) \<and> inv (shared m)"
    and "\<exists>js m'. run_machine obj (is @ js) (machine_start css s) = Some m' \<and> machine_done m'
      \<and> is_free obj (shared m')"
proof -
  obtain s' where s': "explained obj spec s s' m" "inv s'"
    using run_explained[OF assms(2) explained_start assms(1)] by blast
  show "program_order css m" using run_machine_program_order[OF assms(2) program_order_start] .
  show "results_of (history m) = fst (replay spec (calls_of (history m)) s)"
    using s'(1) by (simp add: explained_def)
  show "is_free obj (shared m) \<Longrightarrow> shared m = snd (replay spec (calls_of (history m)) s) \<and> inv (shared m)"
    using explained_free[OF s'(1)] s' by (simp add: explained_def)
  obtain js m' where r: "run_machine obj js m = Some m'" and d: "machine_done m'" "nobody_inside m'"
    using run_finishes[OF s'] by blast
  obtain s'' where s'': "explained obj spec s s'' m'" "inv s''"
    using run_explained[OF r s'] by blast
  then have "shared m' = s''"
    using d(2) by (auto simp: explained_def one_inside_def nobody_inside_def)
  then have "is_free obj (shared m')" using inv_free s''(2) by simp
  moreover have "run_machine obj (is @ js) (machine_start css s) = Some m'"
    using assms(2) r by (simp add: run_machine_append)
  ultimately show "\<exists>js m'. run_machine obj (is @ js) (machine_start css s) = Some m' \<and> machine_done m'
      \<and> is_free obj (shared m')"
    using d(1) by blast
qed

text \<open>Once every call has returned, each thread has made its calls in its order.\<close>

lemma linearizable_done:
  assumes "inv s" and "run_machine obj is (machine_start css s) = Some m" and "machine_done m"
  shows "shared m = snd (replay spec (calls_of (history m)) s)" and "inv (shared m)"
    and "i < length css \<Longrightarrow> calls_of (by_thread i (history m)) = css ! i"
    and "mset (calls_of (history m)) = mset (concat css)"
proof -
  have ord: "program_order css m" by (rule linearizable(1)[OF assms(1,2)])
  obtain s' where s': "explained obj spec s s' m" "inv s'"
    using run_explained[OF assms(2) explained_start assms(1)] by blast
  have "\<not> one_inside obj spec s' i m" for i
  proof
    assume "one_inside obj spec s' i m"
    then obtain c cs p where i: "i < length (threads m)" "threads m ! i = (c # cs, Some p)"
      by (auto simp: one_inside_def)
    then have "fst (threads m ! i) = []" using assms(3) nth_mem[OF i(1)] unfolding machine_done_def by blast
    with i show False by simp
  qed
  then have "shared m = s'" using s'(1) by (auto simp: explained_def)
  with s' show "shared m = snd (replay spec (calls_of (history m)) s)" and "inv (shared m)"
    by (simp_all add: explained_def)
  show each: "calls_of (by_thread i (history m)) = css ! i" if "i < length css" for i
    using ord assms(3) that by (force simp: program_order_def machine_done_def)
  have "\<forall>(i, c, r)\<in>set (history m). i < length css"
    using run_machine_threads[OF assms(2)] by (simp add: machine_start_def)
  then have "mset (calls_of (history m)) = mset (concat (map (\<lambda>i. calls_of (by_thread i (history m))) [0..<length css]))"
    by (rule mset_by_thread)
  also have "map (\<lambda>i. calls_of (by_thread i (history m))) [0..<length css] = css"
    using each by (intro nth_equalityI) simp_all
  finally show "mset (calls_of (history m)) = mset (concat css)" .
qed

end

end
