(* ===== verification/Slots_Threads.thy ===== *)
theory Slots_Threads
  imports Slots Guarded_Object
begin

text \<open>
  \<open>slot_claim\<close> and \<open>slot_release\<close> of \<open>src/nearcade_internal.h\<close> called by several threads at
  once: every test and every assignment of their bodies is a step, and any other thread may
  move between two of them. The slot manager is an interpretation of \<open>atomic_object\<close>, so the
  functions of theory \<open>Slots\<close>, which run at once, are what the threads see.
\<close>

datatype slot_call =
    Claim "string option" nearcade_ctrl_type
  | Release int

text \<open>Where a thread is inside the two functions; the loop variable and the arguments it still needs
  are its local state.\<close>

datatype slots_pc =
    Claim_test string nat
  | Claim_mark string nat
  | Claim_name string nat
  | Release_test nat
  | Release_clear nat
  | Release_name nat
  | Slots_return "int option"

fun slots_enter :: "slot_call \<Rightarrow> slots_pc + int option" where
  "slots_enter (Claim viewer_id ctrl) =
     (case viewer_id of None \<Rightarrow> Inr (Some (-1)) | Some vid \<Rightarrow> Inl (Claim_test vid 0))"
| "slots_enter (Release slot) =
     (if slot < 0 \<or> slot \<ge> int MAX_SLOTS then Inr None else Inl (Release_test (nat slot)))"

fun slots_body :: "slots_pc \<Rightarrow> slot_manager \<Rightarrow> (slots_pc \<times> slot_manager) + int option" where
  "slots_body (Claim_test vid i) sm =
     Inl (if i < MAX_SLOTS
          then if slot_map sm ! i = 0 then Claim_mark vid i else Claim_test vid (Suc i)
          else Slots_return (Some (-1)), sm)"
| "slots_body (Claim_mark vid i) sm = Inl (Claim_name vid i, sm\<lparr>slot_map := (slot_map sm)[i := 1]\<rparr>)"
| "slots_body (Claim_name vid i) sm =
     Inl (Slots_return (Some (int i)),
          sm\<lparr>slot_viewers := (slot_viewers sm)
               [i := strncpy vid (NEARCADE_VIEWER_ID_LEN - 1) (slot_viewers sm ! i)]\<rparr>)"
| "slots_body (Release_test slot) sm =
     Inl (if slot_map sm ! slot = 0 then Slots_return None else Release_clear slot, sm)"
| "slots_body (Release_clear slot) sm = Inl (Release_name slot, sm\<lparr>slot_map := (slot_map sm)[slot := 0]\<rparr>)"
| "slots_body (Release_name slot) sm =
     Inl (Slots_return None,
          sm\<lparr>slot_viewers := (slot_viewers sm)[slot := zeroed NEARCADE_VIEWER_ID_LEN]\<rparr>)"
| "slots_body (Slots_return r) sm = Inr r"

definition slots_object :: "(slot_call, slots_pc, int option, slot_manager) guarded_object" where
  "slots_object =
     \<lparr>enter = slots_enter, body = slots_body,
      is_free = (\<lambda>sm. slots_lock sm = Unlocked),
      take_lock = (\<lambda>sm. sm\<lparr>slots_lock := nearcade_mutex_lock (slots_lock sm)\<rparr>),
      give_lock = (\<lambda>sm. sm\<lparr>slots_lock := nearcade_mutex_unlock (slots_lock sm)\<rparr>)\<rparr>"

text \<open>The calls as the sequential model has them.\<close>

fun slots_spec :: "slot_call \<Rightarrow> slot_manager \<Rightarrow> int option \<times> slot_manager" where
  "slots_spec (Claim viewer_id ctrl) sm = map_prod Some id (slot_claim viewer_id ctrl sm)"
| "slots_spec (Release slot) sm = (None, slot_release slot sm)"


section \<open>Facts\<close>

lemma slots_object_simps [simp]:
  "enter slots_object = slots_enter" "body slots_object = slots_body"
  "is_free slots_object sm \<longleftrightarrow> slots_lock sm = Unlocked"
  "take_lock slots_object sm = sm\<lparr>slots_lock := nearcade_mutex_lock (slots_lock sm)\<rparr>"
  "give_lock slots_object sm = sm\<lparr>slots_lock := nearcade_mutex_unlock (slots_lock sm)\<rparr>"
  by (simp_all add: slots_object_def)

lemmas slots_completes = completes_iff[of slots_object]

lemma slots_body_lock: "slots_body p sm = Inl (p', sm') \<Longrightarrow> slots_lock sm' = slots_lock sm"
  by (cases "(p, sm)" rule: slots_body.cases) auto

lemma claim_completes:
  assumes "slots_inv sm"
  shows "completes slots_object (Claim_test vid 0) (sm\<lparr>slots_lock := Locked\<rparr>)
    (map_prod Some id (slot_claim (Some vid) ctrl sm))"
proof (rule search_completes[where xs = "slot_map sm" and P = "\<lambda>m. m = 0" and found = "Claim_mark vid"
      and none = "Slots_return (Some (-1))"])
  show "body slots_object (Claim_test vid k) (sm\<lparr>slots_lock := Locked\<rparr>) =
      Inl (if k < length (slot_map sm) then if slot_map sm ! k = 0 then Claim_mark vid k else Claim_test vid (Suc k)
        else Slots_return (Some (-1)), sm\<lparr>slots_lock := Locked\<rparr>)" for k
    using assms by (simp add: slots_inv_def)
next
  fix k
  assume "first_index (\<lambda>m. m = 0) (slot_map sm) = Some k"
  then show "completes slots_object (Claim_mark vid k) (sm\<lparr>slots_lock := Locked\<rparr>)
      (map_prod Some id (slot_claim (Some vid) ctrl sm))"
    using assms by (simp add: slots_completes slot_claim_Some slots_inv_def)
next
  assume "first_index (\<lambda>m. m = 0) (slot_map sm) = None"
  then show "completes slots_object (Slots_return (Some (-1))) (sm\<lparr>slots_lock := Locked\<rparr>)
      (map_prod Some id (slot_claim (Some vid) ctrl sm))"
    using assms by (simp add: slots_completes slot_claim_None slots_inv_def)
qed

lemma release_completes:
  assumes "slots_inv sm" and "\<not> (r < 0 \<or> r \<ge> int MAX_SLOTS)"
  shows "completes slots_object (Release_test (nat r)) (sm\<lparr>slots_lock := Locked\<rparr>) (None, slot_release r sm)"
  using assms by (simp add: slots_completes slot_release_def slots_inv_def Let_def)

interpretation slots: atomic_object slots_object slots_inv slots_spec
proof unfold_locales
  fix s :: slot_manager and c :: slot_call
  assume inv: "slots_inv s"
  then have lk: "slots_lock s = Unlocked" by (simp add: slots_inv_def)
  then show "is_free slots_object s" "\<not> is_free slots_object (take_lock slots_object s)" by simp_all
  show "enter slots_object c = Inr r \<Longrightarrow> slots_spec c s = (r, s)" for r
    by (cases c) (auto simp: slot_claim_def slot_release_def split: option.splits if_splits)
  show "completes slots_object p (take_lock slots_object s) (slots_spec c s)"
    if "enter slots_object c = Inl p" for p
    using that inv lk
    by (cases c) (auto simp: claim_completes release_completes split: option.splits if_splits)
  show "slots_inv (snd (slots_spec c s))"
    using inv by (cases c) (simp_all add: slots_inv_claim slots_inv_release)
next
  fix s s' :: slot_manager and p p'
  assume "\<not> is_free slots_object s" "body slots_object p s = Inl (p', s')"
  then show "\<not> is_free slots_object s'" using slots_body_lock by fastforce
qed


section \<open>Properties\<close>

text \<open>
  The slot manager is linearizable. Threads that call \<open>slot_claim\<close> and \<open>slot_release\<close> in any
  numbers, with any arguments and on any schedule of the single tests and assignments of their
  bodies, get the results they would have got one after the other, in the order in which the calls
  return and with each thread's calls in its order; whenever the mutex is free the two arrays are
  what those calls leave; and every run can be continued until all calls have returned and the
  mutex is free.
\<close>

lemma slots_linearizable:
  assumes "slots_inv sm" and "run_machine slots_object sched (machine_start css sm) = Some m"
  shows "program_order css m
    \<and> results_of (history m) = fst (replay slots_spec (calls_of (history m)) sm)
    \<and> (slots_lock (shared m) = Unlocked \<longrightarrow>
         shared m = snd (replay slots_spec (calls_of (history m)) sm) \<and> slots_inv (shared m))
    \<and> (\<exists>rest m'. run_machine slots_object (sched @ rest) (machine_start css sm) = Some m'
         \<and> machine_done m' \<and> slots_lock (shared m') = Unlocked)"
  using slots.linearizable[OF assms] by simp

lemma replay_claims:
  "replay slots_spec (map (\<lambda>v. Claim (Some v) ctrl) vs) sm = map_prod (map Some) id (claim_all ctrl vs sm)"
  by (induction vs arbitrary: sm) (simp_all add: split_beta)

text \<open>
  Sixteen viewers that claim at the same time get sixteen different slots, whatever the threads do
  in between.
\<close>

lemma concurrent_claims_distinct:
  assumes "run_machine slots_object sched
      (machine_start (map (map (\<lambda>v. Claim (Some v) ctrl)) vss) empty_slots) = Some m"
    and "machine_done m" and "\<forall>v\<in>set (concat vss). c_string v" and "length (concat vss) \<le> 16"
  shows "distinct (results_of (history m)) \<and> (\<forall>r\<in>set (results_of (history m)). \<exists>i\<ge>0. r = Some i)
    \<and> length (history m) = length (concat vss)
    \<and> card {i. slot_owner (shared m) i \<noteq> None} = length (concat vss)"
proof -
  let ?claim = "\<lambda>v. Claim (Some v) ctrl"
  note fin = slots.linearizable_done[OF empty_slots_inv(1) assms(1,2)]
  have ms: "mset (calls_of (history m)) = mset (map ?claim (concat vss))"
    using fin(4) by (simp add: map_concat)
  then obtain vs where vs: "calls_of (history m) = map ?claim vs" and mv: "mset vs = mset (concat vss)"
    using mset_eq_mapD by blast
  have len: "length vs = length (concat vss)" and st: "set vs = set (concat vss)"
    using mv mset_eq_length mset_eq_setD by blast+
  have "results_of (history m) = map Some (fst (claim_all ctrl vs empty_slots))"
    using slots.linearizable(2)[OF empty_slots_inv(1) assms(1)] by (simp add: vs replay_claims)
  moreover have "shared m = snd (claim_all ctrl vs empty_slots)"
    using fin(1) by (simp add: vs replay_claims)
  moreover have "length (history m) = length vs" using vs length_calls_of(1) by (metis length_map)
  ultimately show ?thesis
    using sixteen_claims_distinct[of vs ctrl] assms(3,4) len st
    by (auto simp: split_beta Let_def distinct_map)
qed

end
