(* ===== verification/Queue_Threads.thy ===== *)
theory Queue_Threads
  imports Godot Guarded_Object
begin

text \<open>
  The event queue of a binding object, filled by whatever thread of the SDK fires an event and
  emptied by the thread that polls: the steps of \<open>_event_callback\<close> and \<open>poll_event\<close> of
  \<open>bindings/godot/src/nearcade_godot.cpp\<close> between taking and leaving \<open>queue_mutex\<close>, any other thread
  moving in between. The calls are those of \<open>Bounded_Fifo\<close>: \<open>Put ev\<close> is an event, \<open>Get\<close> a poll.
\<close>

datatype queue_pc =
    Push_test nearcade_event
  | Push_event nearcade_event
  | Poll_test
  | Poll_front
  | Poll_pop nearcade_event
  | Queue_leave "nearcade_event option"

fun queue_enter :: "nearcade_event queue_op \<Rightarrow> queue_pc + nearcade_event option" where
  "queue_enter (Put ev) = Inl (Push_test ev)"
| "queue_enter Get = Inl Poll_test"

fun queue_body :: "queue_pc \<Rightarrow> NearcadeSDK \<Rightarrow> (queue_pc \<times> NearcadeSDK) + nearcade_event option" where
  "queue_body (Push_test ev) self =
     Inl (if length (event_queue self) < EVENT_QUEUE_MAX then Push_event ev else Queue_leave None, self)"
| "queue_body (Push_event ev) self = Inl (Queue_leave None, self\<lparr>event_queue := event_queue self @ [ev]\<rparr>)"
| "queue_body Poll_test self = Inl (if event_queue self = [] then Queue_leave None else Poll_front, self)"
| "queue_body Poll_front self = Inl (Poll_pop (hd (event_queue self)), self)"
| "queue_body (Poll_pop qe) self = Inl (Queue_leave (Some qe), self\<lparr>event_queue := tl (event_queue self)\<rparr>)"
| "queue_body (Queue_leave r) self = Inr r"

definition queue_object :: "(nearcade_event queue_op, queue_pc, nearcade_event option, NearcadeSDK) guarded_object" where
  "queue_object =
     \<lparr>enter = queue_enter, body = queue_body, is_free = (\<lambda>self. queue_mutex self = Unlocked),
      take_lock = lock_queue, give_lock = unlock_queue\<rparr>"

text \<open>The calls as the sequential model has them.\<close>

fun queue_spec :: "nearcade_event queue_op \<Rightarrow> NearcadeSDK \<Rightarrow> nearcade_event option \<times> NearcadeSDK" where
  "queue_spec (Put ev) self = (None, queue_event ev self)"
| "queue_spec Get self = take_event self"


section \<open>Facts\<close>

lemma queue_object_simps [simp]:
  "enter queue_object = queue_enter" "body queue_object = queue_body"
  "is_free queue_object self \<longleftrightarrow> queue_mutex self = Unlocked"
  "take_lock queue_object = lock_queue" "give_lock queue_object = unlock_queue"
  by (simp_all add: queue_object_def)

lemma queue_body_lock: "queue_body p self = Inl (p', self') \<Longrightarrow> queue_mutex self' = queue_mutex self"
  by (cases "(p, self)" rule: queue_body.cases) auto

lemma queue_completes:
  assumes "queue_enter c = Inl p"
  shows "completes queue_object p (lock_queue self) (queue_spec c self)"
  using assms
  by (cases c)
    (auto simp: completes_iff[of queue_object] queue_event_def take_event_def Let_def split: list.split)

interpretation queue: atomic_object queue_object queue_inv queue_spec
proof unfold_locales
  fix s :: NearcadeSDK and c :: "nearcade_event queue_op"
  assume inv: "queue_inv s"
  then show "is_free queue_object s" "\<not> is_free queue_object (take_lock queue_object s)"
    by (simp_all add: queue_inv_def lock_queue_def)
  show "enter queue_object c = Inr r \<Longrightarrow> queue_spec c s = (r, s)" for r by (cases c) simp_all
  show "enter queue_object c = Inl p \<Longrightarrow> completes queue_object p (take_lock queue_object s) (queue_spec c s)" for p
    using queue_completes[of c p s] by simp
  show "queue_inv (snd (queue_spec c s))"
    using inv by (cases c) (simp_all add: eq.put_inv eq.get_inv)
next
  fix s s' :: NearcadeSDK and p p'
  assume "\<not> is_free queue_object s" "body queue_object p s = Inl (p', s')"
  then show "\<not> is_free queue_object s'" using queue_body_lock by fastforce
qed

lemma replay_queue:
  "snd (replay queue_spec ops self) = snd (run_queue queue_event take_event ops self)"
  "got (fst (replay queue_spec ops self)) = got (fst (run_queue queue_event take_event ops self))"
proof (induction ops arbitrary: self rule: puts.induct)
  case (3 ops)
  {
    case 1
    then show ?case using 3 by (simp add: split_beta Let_def)
  next
    case 2
    then show ?case using 3 by (cases "fst (take_event self)") (simp_all add: split_beta Let_def)
  }
qed (simp_all add: split_beta Let_def)

lemma few_puts_fit: "n + length (puts ops) \<le> cap \<Longrightarrow> fits cap n ops"
  by (induction ops arbitrary: n rule: puts.induct) simp_all


section \<open>Properties\<close>

text \<open>
  C18. The event queue of a binding object under concurrent use. Whatever threads fire events and poll,
  and however their steps interleave, the events polled so far and those still queued are, in
  order, those that were queued at the start and a subsequence of those fired, in the order in
  which the callbacks ran, and all of them as long as there were at most 256; events fired by one
  thread keep their order; the queue never holds more than 256; and every run can be continued until
  all calls have returned and the mutex is free.
\<close>

theorem event_queue_linearizable:
  assumes "queue_inv self" and "run_machine queue_object sched (machine_start css self) = Some m"
  shows "program_order css m
    \<and> (queue_mutex (shared m) = Unlocked \<longrightarrow>
        (\<exists>kept. subseq kept (puts (calls_of (history m)))
          \<and> event_queue self @ kept = got (results_of (history m)) @ event_queue (shared m)
          \<and> (length (event_queue self) + length (puts (calls_of (history m))) \<le> 256
              \<longrightarrow> kept = puts (calls_of (history m))))
        \<and> length (event_queue (shared m)) \<le> 256)
    \<and> (\<exists>rest m'. run_machine queue_object (sched @ rest) (machine_start css self) = Some m'
         \<and> machine_done m' \<and> queue_mutex (shared m') = Unlocked)"
proof (intro conjI impI)
  note lin = queue.linearizable[OF assms]
  show "program_order css m" by (rule lin(1))
  show "\<exists>rest m'. run_machine queue_object (sched @ rest) (machine_start css self) = Some m'
      \<and> machine_done m' \<and> queue_mutex (shared m') = Unlocked"
    using lin(4) by simp
  let ?ops = "calls_of (history m)"
  let ?run = "run_queue queue_event take_event ?ops self"
  assume "queue_mutex (shared m) = Unlocked"
  then have sh: "shared m = snd ?run" and inv: "queue_inv (shared m)" using lin(3) unfolding queue_object_simps replay_queue by blast+
  then show "length (event_queue (shared m)) \<le> 256" by (simp add: queue_inv_def EVENT_QUEUE_MAX_def)
  have res: "got (results_of (history m)) = got (fst ?run)" using lin(2) by (simp add: replay_queue)
  obtain kept where kept: "subseq kept (puts ?ops)" "event_queue self @ kept = got (fst ?run) @ event_queue (snd ?run)"
    using eq.run_order[OF assms(1)] by blast
  have "event_queue self @ puts ?ops = got (fst ?run) @ event_queue (snd ?run)"
    if "length (event_queue self) + length (puts ?ops) \<le> 256"
    using eq.run_lossless[OF assms(1) few_puts_fit] that by (simp add: EVENT_QUEUE_MAX_def)
  then have "length (event_queue self) + length (puts ?ops) \<le> 256 \<longrightarrow> kept = puts ?ops"
    using kept(2) by (metis same_append_eq)
  with kept show "\<exists>kept. subseq kept (puts ?ops)
      \<and> event_queue self @ kept = got (results_of (history m)) @ event_queue (shared m)
      \<and> (length (event_queue self) + length (puts ?ops) \<le> 256 \<longrightarrow> kept = puts ?ops)"
    by (auto simp: res sh)
qed

definition empty_object :: NearcadeSDK where
  "empty_object = \<lparr>event_queue = [], queue_mutex = Unlocked\<rparr>"

definition two_events_and_a_poll :: "nearcade_event queue_op list list" where
  "two_events_and_a_poll =
     [[Put (NEARCADE_EVENT_STREAMING 1), Put (NEARCADE_EVENT_STREAMING 2)], [Get, Get]]"

lemma two_events_and_a_poll_runs:
  "run_machine queue_object [0, 0, 0, 0, 1, 1, 1, 1, 1, 0] (machine_start two_events_and_a_poll empty_object) \<noteq> None"
  by code_simp

theorem event_queue_linearizable_witness:
  "\<exists>m. run_machine queue_object [0, 0, 0, 0, 1, 1, 1, 1, 1, 0] (machine_start two_events_and_a_poll empty_object) = Some m
    \<and> program_order two_events_and_a_poll m"
proof -
  have inv: "queue_inv empty_object" by (simp add: queue_inv_def empty_object_def)
  obtain m where m: "run_machine queue_object [0, 0, 0, 0, 1, 1, 1, 1, 1, 0]
      (machine_start two_events_and_a_poll empty_object) = Some m"
    using two_events_and_a_poll_runs by blast
  then show ?thesis using event_queue_linearizable[OF inv m] by blast
qed

end
