(* ===== verification/Registry_Threads.thy ===== *)
theory Registry_Threads
  imports Signaling Guarded_Object
begin

text \<open>
  The connections of the signaling server under \<open>g_ws_lock\<close>. The service thread registers and
  removes connections while other threads send, look identifiers up and shut the server down; here
  every access to the shared variables of \<open>src/signaling.c\<close> inside a critical section is a step.
  What a section hands to the code after it (the index for the viewer callback, the sender of a
  message, the context to destroy) is the result of its call. The sequential functions of theory
  \<open>Signaling\<close> are what the calls are shown to do.
\<close>

datatype ws_call =
    Established lws string
  | Closed lws
  | Received lws
  | Send_to_viewer lws_env "string option" "string option"
  | Send_offer lws_env "string option" "string option"
  | Send_answer lws_env "string option" "string option"
  | Send_ice lws_env "string option" "string option"
  | Service_test
  | Shutdown_section

datatype ws_result =
    Viewer_index int
  | Sender "cbuf option"
  | Returned int
  | Alive bool
  | Context "lws_context option"

datatype ws_pc =
    Est_branch lws string
  | Est_host lws
  | Est_test lws nat
  | Est_store lws nat
  | Est_count nat
  | Cl_host lws
  | Cl_clear_host
  | Cl_test lws nat
  | Cl_store nat
  | Cl_count nat
  | Rx_host lws
  | Rx_test lws nat
  | Tx_viewer lws_env string string
  | Tx_reply lws_env "string option" string
  | Tx_write lws_env lws string
  | Tx_host lws_env string
  | Svc_read
  | Sd_read
  | Sd_context "lws_context option"
  | Sd_host "lws_context option"
  | Sd_table "lws_context option"
  | Sd_count "lws_context option"
  | Ws_leave ws_result

text \<open>The text a sender prepares before it takes the mutex.\<close>

definition frame_text :: "string \<Rightarrow> string \<Rightarrow> string \<Rightarrow> string" where
  "frame_text t k s = cstr (snprintf (json_message t k (json_escape s 4096)) 4096 (zeroed 4096))"

fun ws_enter :: "ws_call \<Rightarrow> ws_pc + ws_result" where
  "ws_enter (Established wsi uri) = Inl (Est_branch wsi uri)"
| "ws_enter (Closed wsi) = Inl (Cl_host wsi)"
| "ws_enter (Received wsi) = Inl (Rx_host wsi)"
| "ws_enter (Send_to_viewer env viewer_id data) =
     (case (viewer_id, data) of (Some vid, Some d) \<Rightarrow> Inl (Tx_viewer env vid d) | _ \<Rightarrow> Inr (Returned (-1)))"
| "ws_enter (Send_offer env viewer_id sdp) =
     (case sdp of None \<Rightarrow> Inr (Returned (-1)) | Some s \<Rightarrow> Inl (Tx_host env (frame_text ''offer'' ''sdp'' s)))"
| "ws_enter (Send_answer env viewer_id sdp) =
     (case sdp of
        None \<Rightarrow> Inr (Returned (-1))
      | Some s \<Rightarrow>
          Inl (if viewer_id = Some ''host'' then Tx_host env (frame_text ''answer'' ''sdp'' s)
               else Tx_reply env viewer_id (frame_text ''answer'' ''sdp'' s)))"
| "ws_enter (Send_ice env viewer_id candidate) =
     (case candidate of
        None \<Rightarrow> Inr (Returned (-1))
      | Some s \<Rightarrow>
          Inl (if viewer_id = Some ''host'' then Tx_host env (frame_text ''ice'' ''candidate'' s)
               else Tx_reply env viewer_id (frame_text ''ice'' ''candidate'' s)))"
| "ws_enter Service_test = Inl Svc_read"
| "ws_enter Shutdown_section = Inl Sd_read"

fun ws_body :: "ws_pc \<Rightarrow> signaling \<Rightarrow> (ws_pc \<times> signaling) + ws_result" where
  "ws_body (Est_branch wsi uri) st =
     Inl (if strstr uri ''/host'' \<noteq> None then Est_host wsi else Est_test wsi 0, st)"
| "ws_body (Est_host wsi) st = Inl (Ws_leave (Viewer_index (-1)), st\<lparr>g_host_ws := Some wsi\<rparr>)"
| "ws_body (Est_test wsi i) st =
     Inl (if i < MAX_VIEWERS
          then if g_viewer_ws st ! i = None then Est_store wsi i else Est_test wsi (Suc i)
          else Ws_leave (Viewer_index (-1)), st)"
| "ws_body (Est_store wsi i) st = Inl (Est_count i, st\<lparr>g_viewer_ws := (g_viewer_ws st)[i := Some wsi]\<rparr>)"
| "ws_body (Est_count i) st =
     Inl (Ws_leave (Viewer_index (int i)), st\<lparr>g_num_viewers := g_num_viewers st + 1\<rparr>)"
| "ws_body (Cl_host wsi) st = Inl (if g_host_ws st = Some wsi then Cl_clear_host else Cl_test wsi 0, st)"
| "ws_body Cl_clear_host st = Inl (Ws_leave (Viewer_index (-1)), st\<lparr>g_host_ws := None\<rparr>)"
| "ws_body (Cl_test wsi i) st =
     Inl (if i < MAX_VIEWERS
          then if g_viewer_ws st ! i = Some wsi then Cl_store i else Cl_test wsi (Suc i)
          else Ws_leave (Viewer_index (-1)), st)"
| "ws_body (Cl_store i) st = Inl (Cl_count i, st\<lparr>g_viewer_ws := (g_viewer_ws st)[i := None]\<rparr>)"
| "ws_body (Cl_count i) st =
     Inl (Ws_leave (Viewer_index (int i)), st\<lparr>g_num_viewers := g_num_viewers st - 1\<rparr>)"
| "ws_body (Rx_host wsi) st =
     Inl (if g_host_ws st = Some wsi then Ws_leave (Sender (Some (snprintf ''host'' 64 (zeroed 64))))
          else Rx_test wsi 0, st)"
| "ws_body (Rx_test wsi i) st =
     Inl (if i < MAX_VIEWERS
          then if g_viewer_ws st ! i = Some wsi
               then Ws_leave (Sender (Some (snprintf (viewer_id_of (int i)) 64 (zeroed 64))))
               else Rx_test wsi (Suc i)
          else Ws_leave (Sender None), st)"
| "ws_body (Tx_viewer env vid d) st =
     Inl (case viewer_ws_by_id (Some vid) st of
            Some target \<Rightarrow> Tx_write env target d
          | None \<Rightarrow> Ws_leave (Returned (-1)), st)"
| "ws_body (Tx_reply env viewer_id d) st =
     Inl (case viewer_ws_by_id viewer_id st of Some target \<Rightarrow> Tx_write env target d | None \<Rightarrow> Tx_host env d, st)"
| "ws_body (Tx_write env target d) st =
     (let (ret, st) = send_to_lws env (Some target) (Some d) st in Inl (Ws_leave (Returned ret), st))"
| "ws_body (Tx_host env d) st =
     (let (ret, st) = send_to_lws env (g_host_ws st) (Some d) st in Inl (Ws_leave (Returned ret), st))"
| "ws_body Svc_read st = Inl (Ws_leave (Alive (g_wsi st \<noteq> None)), st)"
| "ws_body Sd_read st = Inl (Sd_context (g_wsi st), st)"
| "ws_body (Sd_context ctx) st = Inl (Sd_host ctx, st\<lparr>g_wsi := None\<rparr>)"
| "ws_body (Sd_host ctx) st = Inl (Sd_table ctx, st\<lparr>g_host_ws := None\<rparr>)"
| "ws_body (Sd_table ctx) st = Inl (Sd_count ctx, st\<lparr>g_viewer_ws := replicate MAX_VIEWERS None\<rparr>)"
| "ws_body (Sd_count ctx) st = Inl (Ws_leave (Context ctx), st\<lparr>g_num_viewers := 0\<rparr>)"
| "ws_body (Ws_leave r) st = Inr r"

definition ws_object :: "(ws_call, ws_pc, ws_result, signaling) guarded_object" where
  "ws_object =
     \<lparr>enter = ws_enter, body = ws_body, is_free = (\<lambda>st. g_ws_lock st = Unlocked),
      take_lock = lock_ws, give_lock = unlock_ws\<rparr>"

text \<open>
  The calls as the sequential model has them: the handler with callbacks that record what they
  were given, the senders, and the shutdown up to the destruction of the context, which follows
  its section.
\<close>

definition noticed :: "lws \<Rightarrow> lws_reason \<Rightarrow> signaling \<Rightarrow> ws_result \<times> signaling" where
  "noticed wsi reason st =
     (let (st, idx) = callback_signaling (\<lambda>i _ _. i) (\<lambda>_ _ w. w) (\<lambda>_ w. w) wsi reason (st, -1)
      in (Viewer_index idx, st))"

definition sender_of :: "lws \<Rightarrow> signaling \<Rightarrow> ws_result \<times> signaling" where
  "sender_of wsi st =
     (let (st, who) = callback_signaling (\<lambda>_ _ w. w) (\<lambda>_ _ w. w)
            (\<lambda>ev w. case ev of NEARCADE_EVENT_SIGNALING viewer_id _ \<Rightarrow> Some viewer_id | _ \<Rightarrow> w)
            wsi (LWS_CALLBACK_RECEIVE []) (st, None)
      in (Sender who, st))"

fun ws_spec :: "ws_call \<Rightarrow> signaling \<Rightarrow> ws_result \<times> signaling" where
  "ws_spec (Established wsi uri) st = noticed wsi (LWS_CALLBACK_ESTABLISHED uri) st"
| "ws_spec (Closed wsi) st = noticed wsi LWS_CALLBACK_CLOSED st"
| "ws_spec (Received wsi) st = sender_of wsi st"
| "ws_spec (Send_to_viewer env viewer_id data) st = map_prod Returned id (signaling_send_to_viewer env viewer_id data st)"
| "ws_spec (Send_offer env viewer_id sdp) st = map_prod Returned id (signaling_send_offer env viewer_id sdp st)"
| "ws_spec (Send_answer env viewer_id sdp) st = map_prod Returned id (signaling_send_answer env viewer_id sdp st)"
| "ws_spec (Send_ice env viewer_id candidate) st = map_prod Returned id (signaling_send_ice env viewer_id candidate st)"
| "ws_spec Service_test st = (Alive (g_wsi st \<noteq> None), st)"
| "ws_spec Shutdown_section st = (Context (g_wsi st), (signaling_shutdown st)\<lparr>lws_trace := lws_trace st\<rparr>)"

text \<open>The count is that of the table, the mutex is free, and the viewer callback is set, as
  \<open>nearcade_init\<close> does before it starts the server.\<close>

definition ws_inv :: "signaling \<Rightarrow> bool" where
  "ws_inv st \<longleftrightarrow> registry_inv st \<and> g_ws_lock st = Unlocked \<and> g_viewer_cb st"


section \<open>Facts\<close>

lemma ws_object_simps [simp]:
  "enter ws_object = ws_enter" "body ws_object = ws_body"
  "is_free ws_object st \<longleftrightarrow> g_ws_lock st = Unlocked"
  "take_lock ws_object = lock_ws" "give_lock ws_object = unlock_ws"
  by (simp_all add: ws_object_def)

lemmas ws_completes = completes_iff[of ws_object]

lemma ws_body_lock: "ws_body p st = Inl (p', st') \<Longrightarrow> g_ws_lock st' = g_ws_lock st"
  by (cases "(p, st)" rule: ws_body.cases) (auto simp: split_beta)

lemma noticed_established:
  assumes "ws_inv st"
  shows "completes ws_object (Est_branch wsi uri) (lock_ws st) (noticed wsi (LWS_CALLBACK_ESTABLISHED uri) st)"
proof (cases "strstr uri ''/host'' = None")
  case True
  let ?x = "noticed wsi (LWS_CALLBACK_ESTABLISHED uri) st"
  have "completes ws_object (Est_test wsi 0) (lock_ws st) ?x"
  proof (rule search_completes[where xs = "g_viewer_ws st" and P = "\<lambda>w. w = None" and found = "Est_store wsi"
        and none = "Ws_leave (Viewer_index (-1))"])
    show "body ws_object (Est_test wsi k) (lock_ws st) =
        Inl (if k < length (g_viewer_ws st) then if g_viewer_ws st ! k = None then Est_store wsi k
          else Est_test wsi (Suc k) else Ws_leave (Viewer_index (-1)), lock_ws st)" for k
      using assms by (simp add: ws_inv_def registry_inv_def)
  next
    fix k
    assume "first_index (\<lambda>w. w = None) (g_viewer_ws st) = Some k"
    then show "completes ws_object (Est_store wsi k) (lock_ws st) ?x"
      using assms True
      by (simp add: ws_completes noticed_def callback_signaling_def register_viewer_def ws_inv_def Let_def)
  next
    assume "first_index (\<lambda>w. w = None) (g_viewer_ws st) = None"
    then show "completes ws_object (Ws_leave (Viewer_index (-1))) (lock_ws st) ?x"
      using assms True
      by (simp add: ws_completes noticed_def callback_signaling_def register_viewer_def ws_inv_def Let_def)
  qed
  then show ?thesis using True by (simp add: ws_completes[of "Est_branch wsi uri"])
next
  case False
  then show ?thesis by (simp add: ws_completes noticed_def callback_signaling_def Let_def)
qed

lemma noticed_closed:
  assumes "ws_inv st"
  shows "completes ws_object (Cl_host wsi) (lock_ws st) (noticed wsi LWS_CALLBACK_CLOSED st)"
proof (cases "g_host_ws st = Some wsi")
  case False
  let ?x = "noticed wsi LWS_CALLBACK_CLOSED st"
  have "completes ws_object (Cl_test wsi 0) (lock_ws st) ?x"
  proof (rule search_completes[where xs = "g_viewer_ws st" and P = "\<lambda>w. w = Some wsi" and found = Cl_store
        and none = "Ws_leave (Viewer_index (-1))"])
    show "body ws_object (Cl_test wsi k) (lock_ws st) =
        Inl (if k < length (g_viewer_ws st) then if g_viewer_ws st ! k = Some wsi then Cl_store k
          else Cl_test wsi (Suc k) else Ws_leave (Viewer_index (-1)), lock_ws st)" for k
      using assms by (simp add: ws_inv_def registry_inv_def)
  next
    fix k
    assume "first_index (\<lambda>w. w = Some wsi) (g_viewer_ws st) = Some k"
    then show "completes ws_object (Cl_store k) (lock_ws st) ?x"
      using assms False by (simp add: ws_completes noticed_def callback_signaling_def ws_inv_def Let_def)
  next
    assume "first_index (\<lambda>w. w = Some wsi) (g_viewer_ws st) = None"
    then show "completes ws_object (Ws_leave (Viewer_index (-1))) (lock_ws st) ?x"
      using assms False by (simp add: ws_completes noticed_def callback_signaling_def ws_inv_def Let_def)
  qed
  then show ?thesis using False by (simp add: ws_completes[of "Cl_host wsi"])
next
  case True
  then show ?thesis by (simp add: ws_completes noticed_def callback_signaling_def Let_def)
qed

lemma sender_received:
  assumes "ws_inv st"
  shows "completes ws_object (Rx_host wsi) (lock_ws st) (sender_of wsi st)"
proof (cases "g_host_ws st = Some wsi")
  case False
  let ?who = "\<lambda>k. Sender (Some (snprintf (viewer_id_of (int k)) 64 (zeroed 64)))"
  have "completes ws_object (Rx_test wsi 0) (lock_ws st) (sender_of wsi st)"
  proof (rule search_completes[where xs = "g_viewer_ws st" and P = "\<lambda>w. w = Some wsi"
        and found = "\<lambda>k. Ws_leave (?who k)" and none = "Ws_leave (Sender None)"])
    show "body ws_object (Rx_test wsi k) (lock_ws st) =
        Inl (if k < length (g_viewer_ws st) then if g_viewer_ws st ! k = Some wsi then Ws_leave (?who k)
          else Rx_test wsi (Suc k) else Ws_leave (Sender None), lock_ws st)" for k
      using assms by (simp add: ws_inv_def registry_inv_def)
  next
    fix k
    assume "first_index (\<lambda>w. w = Some wsi) (g_viewer_ws st) = Some k"
    then show "completes ws_object (Ws_leave (?who k)) (lock_ws st) (sender_of wsi st)"
      using False by (simp add: ws_completes sender_of_def callback_signaling_def Let_def)
  next
    assume "first_index (\<lambda>w. w = Some wsi) (g_viewer_ws st) = None"
    then show "completes ws_object (Ws_leave (Sender None)) (lock_ws st) (sender_of wsi st)"
      using False by (simp add: ws_completes sender_of_def callback_signaling_def Let_def)
  qed
  then show ?thesis using False by (simp add: ws_completes[of "Rx_host wsi"])
next
  case True
  then show ?thesis by (simp add: ws_completes sender_of_def callback_signaling_def Let_def)
qed

lemma tx_completes:
  "completes ws_object (Tx_host env d) (lock_ws st)
    (let (ret, st) = send_to_lws env (g_host_ws st) (Some d) (lock_ws st) in (Returned ret, unlock_ws st))"
  "completes ws_object (Tx_reply env viewer_id d) (lock_ws st)
    (let (ret, st) = (case viewer_ws_by_id viewer_id (lock_ws st) of
        Some target \<Rightarrow> send_to_lws env (Some target) (Some d) (lock_ws st)
      | None \<Rightarrow> send_to_lws env (g_host_ws st) (Some d) (lock_ws st)) in (Returned ret, unlock_ws st))"
  "completes ws_object (Tx_viewer env vid d) (lock_ws st)
    (let (ret, st) = (case viewer_ws_by_id (Some vid) (lock_ws st) of
        Some target \<Rightarrow> send_to_lws env (Some target) (Some d) (lock_ws st)
      | None \<Rightarrow> (-1, lock_ws st)) in (Returned ret, unlock_ws st))"
  by (simp_all add: ws_completes split_beta Let_def split: option.split)

lemma shutdown_completes:
  "completes ws_object Sd_read (lock_ws st) (Context (g_wsi st), (signaling_shutdown st)\<lparr>lws_trace := lws_trace st\<rparr>)"
  by (simp add: ws_completes signaling_shutdown_def Let_def lock_ws_def unlock_ws_def lws_def split: option.split)

lemma ws_call_completes:
  assumes "ws_inv st" and "ws_enter c = Inl p"
  shows "completes ws_object p (lock_ws st) (ws_spec c st)"
proof (cases c)
  case (Established wsi uri)
  then show ?thesis using assms by (auto intro: noticed_established)
next
  case (Closed wsi)
  then show ?thesis using assms by (auto intro: noticed_closed)
next
  case (Received wsi)
  then show ?thesis using assms by (auto intro: sender_received)
next
  case (Send_to_viewer env viewer_id data)
  then obtain vid d where "viewer_id = Some vid" "data = Some d" "p = Tx_viewer env vid d"
    using assms(2) by (auto split: option.splits)
  then show ?thesis
    using Send_to_viewer tx_completes(3)[of env vid d st]
    by (cases "viewer_ws_by_id (Some vid) (lock_ws st)")
      (simp_all add: signaling_send_to_viewer_def split_beta Let_def)
next
  case (Send_offer env viewer_id sdp)
  then obtain d where "sdp = Some d" "p = Tx_host env (frame_text ''offer'' ''sdp'' d)"
    using assms(2) by (auto split: option.splits)
  then show ?thesis
    using Send_offer tx_completes(1)[of env "frame_text ''offer'' ''sdp'' d" st]
    by (simp add: signaling_send_offer_def frame_text_def split_beta Let_def)
next
  case (Send_answer env viewer_id sdp)
  then obtain d where d: "sdp = Some d" "p = (if viewer_id = Some ''host'' then Tx_host env (frame_text ''answer'' ''sdp'' d)
      else Tx_reply env viewer_id (frame_text ''answer'' ''sdp'' d))"
    using assms(2) by (auto split: option.splits)
  show ?thesis
    using Send_answer d tx_completes(1)[of env "frame_text ''answer'' ''sdp'' d" st]
      tx_completes(2)[of env viewer_id "frame_text ''answer'' ''sdp'' d" st]
    by (cases "viewer_id = Some ''host''"; cases "viewer_ws_by_id viewer_id (lock_ws st)")
      (simp_all add: signaling_send_answer_def frame_text_def split_beta Let_def)
next
  case (Send_ice env viewer_id candidate)
  then obtain d where d: "candidate = Some d" "p = (if viewer_id = Some ''host'' then Tx_host env (frame_text ''ice'' ''candidate'' d)
      else Tx_reply env viewer_id (frame_text ''ice'' ''candidate'' d))"
    using assms(2) by (auto split: option.splits)
  show ?thesis
    using Send_ice d tx_completes(1)[of env "frame_text ''ice'' ''candidate'' d" st]
      tx_completes(2)[of env viewer_id "frame_text ''ice'' ''candidate'' d" st]
    by (cases "viewer_id = Some ''host''"; cases "viewer_ws_by_id viewer_id (lock_ws st)")
      (simp_all add: signaling_send_ice_def frame_text_def split_beta Let_def)
next
  case Service_test
  then show ?thesis using assms by (simp add: ws_completes unlock_lock_ws ws_inv_def)
next
  case Shutdown_section
  then show ?thesis using assms by (auto intro: shutdown_completes)
qed

text \<open>A sender changes the trace only.\<close>

lemma sender_inv:
  assumes "ws_inv st"
  shows "ws_inv (snd (signaling_send_to_viewer env v d st))" "ws_inv (snd (signaling_send_offer env v d st))"
    "ws_inv (snd (signaling_send_answer env v d st))" "ws_inv (snd (signaling_send_ice env v d st))"
proof -
  have sent: "ws_inv (unlock_ws (snd (send_to_lws env w x (lock_ws st))))" for w x
    using assms
    by (auto simp: ws_inv_def registry_inv_def send_to_lws_def lock_ws_def unlock_ws_def lws_def Let_def split: option.split)
  have still: "ws_inv (unlock_ws (lock_ws st))"
    using assms by (simp add: unlock_lock_ws ws_inv_def)
  show "ws_inv (snd (signaling_send_to_viewer env v d st))"
    using sent still assms
    by (simp add: signaling_send_to_viewer_def split_beta Let_def split: option.split)
  show "ws_inv (snd (signaling_send_offer env v d st))"
    using sent assms by (simp add: signaling_send_offer_def split_beta Let_def split: option.split)
  show "ws_inv (snd (signaling_send_answer env v d st))"
    using sent assms by (simp add: signaling_send_answer_def split_beta Let_def split: option.split)
  show "ws_inv (snd (signaling_send_ice env v d st))"
    using sent assms by (simp add: signaling_send_ice_def split_beta Let_def split: option.split)
qed

lemma noticed_inv:
  assumes "ws_inv st"
  shows "ws_inv (snd (noticed wsi (LWS_CALLBACK_ESTABLISHED uri) st))" "ws_inv (snd (noticed wsi LWS_CALLBACK_CLOSED st))"
    and "snd (sender_of wsi st) = st"
proof -
  have lk: "g_ws_lock st = Unlocked" using assms by (simp add: ws_inv_def)
  have "registry_inv (st\<lparr>g_viewer_ws := (g_viewer_ws st)[i := Some wsi], g_num_viewers := g_num_viewers st + 1\<rparr>)"
    if "first_index (\<lambda>w. w = None) (g_viewer_ws st) = Some i" for i
    using registry_inv_register[of st wsi] that assms by (simp add: ws_inv_def register_viewer_def)
  then show "ws_inv (snd (noticed wsi (LWS_CALLBACK_ESTABLISHED uri) st))"
    using assms lk by (auto simp: noticed_def established_eq ws_inv_def registry_inv_def split: option.split)
  have "registry_inv (st\<lparr>g_viewer_ws := (g_viewer_ws st)[i := None], g_num_viewers := g_num_viewers st - 1\<rparr>)"
    if "first_index (\<lambda>v. v = Some wsi) (g_viewer_ws st) = Some i" for i
    using registry_inv_unregister[of st "int i"] first_index_SomeD(1,2)[OF that] assms
    by (simp add: ws_inv_def unregister_viewer_def registry_inv_def)
  then show "ws_inv (snd (noticed wsi LWS_CALLBACK_CLOSED st))"
    using assms lk by (auto simp: noticed_def closed_eq ws_inv_def registry_inv_def split: option.split)
  show "snd (sender_of wsi st) = st"
    using receive_state[OF lk] by (simp add: sender_of_def split_beta Let_def)
qed

lemma shutdown_section_inv: "ws_inv st \<Longrightarrow> ws_inv ((signaling_shutdown st)\<lparr>lws_trace := t\<rparr>)"
  by (simp add: ws_inv_def registry_inv_def signaling_shutdown_def lock_ws_def unlock_ws_def lws_def Let_def
      split: option.split)

interpretation registry: atomic_object ws_object ws_inv ws_spec
proof unfold_locales
  fix st :: signaling and c :: ws_call
  assume inv: "ws_inv st"
  then show "is_free ws_object st" "\<not> is_free ws_object (take_lock ws_object st)"
    by (simp_all add: ws_inv_def lock_ws_def)
  show "enter ws_object c = Inr r \<Longrightarrow> ws_spec c st = (r, st)" for r
    by (cases c)
      (auto simp: signaling_send_to_viewer_def signaling_send_offer_def signaling_send_answer_def
        signaling_send_ice_def split: option.splits)
  show "enter ws_object c = Inl p \<Longrightarrow> completes ws_object p (take_lock ws_object st) (ws_spec c st)" for p
    using ws_call_completes[OF inv, of c p] by simp
  show "ws_inv (snd (ws_spec c st))"
    using inv shutdown_section_inv by (cases c) (simp_all add: noticed_inv sender_inv)
next
  fix s s' :: signaling and p p'
  assume "\<not> is_free ws_object s" "body ws_object p s = Inl (p', s')"
  then show "\<not> is_free ws_object s'" using ws_body_lock by fastforce
qed


section \<open>Properties\<close>

text \<open>
  C16. The registry of connections is linearizable. The service thread that registers and removes
  connections and looks senders up, any threads that send offers, answers, candidates and
  messages, the test of the service loop and the shutdown act on the table, the host, the count and
  the context one access at a time, on any schedule. The results are those of the sequential
  functions called one after the other, in the order in which the sections end; whenever
  \<open>g_ws_lock\<close> is free the state is theirs, and the count is the number of entries although it is
  updated in a step of its own; and every run can be continued to its end.
\<close>

theorem registry_linearizable:
  assumes "ws_inv st" and "run_machine ws_object sched (machine_start css st) = Some m"
  shows "program_order css m
    \<and> results_of (history m) = fst (replay ws_spec (calls_of (history m)) st)
    \<and> (g_ws_lock (shared m) = Unlocked \<longrightarrow>
         shared m = snd (replay ws_spec (calls_of (history m)) st) \<and> registry_inv (shared m))
    \<and> (\<exists>rest m'. run_machine ws_object (sched @ rest) (machine_start css st) = Some m'
         \<and> machine_done m' \<and> g_ws_lock (shared m') = Unlocked)"
  using registry.linearizable[OF assms] by (simp add: ws_inv_def)

definition join_while_sending :: "ws_call list list" where
  "join_while_sending =
     [[Established 7 ''/viewer''],
      [Send_to_viewer \<lparr>malloc_ok = True, write_ret = 2\<rparr> (Some ''viewer_0'') (Some ''hi''), Shutdown_section]]"

definition server_up :: signaling where
  "server_up = signaling_static\<lparr>g_wsi := Some 1, g_viewer_cb := True, g_msg_cb := True\<rparr>"

lemma join_while_sending_runs:
  "run_machine ws_object [0, 0, 0, 0, 0, 0, 1, 1, 1, 1, 1, 1, 1] (machine_start join_while_sending server_up) \<noteq> None"
  by code_simp

theorem registry_linearizable_witness:
  "\<exists>m. run_machine ws_object [0, 0, 0, 0, 0, 0, 1, 1, 1, 1, 1, 1, 1] (machine_start join_while_sending server_up) = Some m
    \<and> program_order join_while_sending m"
proof -
  have inv: "ws_inv server_up"
    by (simp add: ws_inv_def server_up_def signaling_static_def registry_inv_def)
  obtain m where m: "run_machine ws_object [0, 0, 0, 0, 0, 0, 1, 1, 1, 1, 1, 1, 1]
      (machine_start join_while_sending server_up) = Some m"
    using join_while_sending_runs by blast
  then show ?thesis using registry_linearizable[OF inv m] by blast
qed

end
