(* ===== verification/Input_Threads.thy ===== *)
theory Input_Threads
  imports Input_Linux Guarded_Object
begin

text \<open>
  The Linux input backend called by several threads at once: the application, the polling script and
  the threads of libdatachannel that deliver packets. Every system call and every access to the
  descriptor tables made under \<open>input_lock\<close> is a step, so another thread may move between two
  events of one report. The functions of theory \<open>Input_Linux\<close> are what the calls are shown to
  do. Starting the backend takes no lock and is not among the calls.
\<close>

datatype input_call =
    Submit_gamepad "nearcade_gamepad_packet option"
  | Submit_kbm string string "string option" int int
  | Flush_slot "8 word"
  | Alloc_slot uinput_env "8 word" "16 word" "16 word" "16 word" "string option"
  | Free_slot "8 word"
  | Shutdown_input

text \<open>\<open>Emit fd es\<close> is inside a sequence of calls of \<open>emit\<close>, \<open>Calls cs p\<close> inside a sequence of other
  system calls that continues with \<open>p\<close>.\<close>

datatype input_pc =
    Sg_slot nearcade_gamepad_packet
  | Sg_device nearcade_gamepad_packet
  | Kbm_device string "string option" int int
  | Fl_device "8 word"
  | Emit int "(evtype \<times> evcode \<times> int) list"
  | Calls "syscall list" input_pc
  | Al_old uinput_env "8 word" uinput_user_dev string
  | Al_clear uinput_env "8 word" uinput_user_dev string
  | Al_open uinput_env "8 word" uinput_user_dev string
  | Al_store int "8 word" string
  | Al_name "8 word" string
  | Fr_device "8 word"
  | Fr_clear "8 word"
  | Fr_name "8 word"
  | Sh_slot nat
  | Sh_clear nat
  | Sh_kbm
  | Sh_kbm_clear
  | Input_return "nearcade_error option"

fun input_enter :: "evdev_abi \<Rightarrow> input_call \<Rightarrow> input_pc + nearcade_error option" where
  "input_enter abi (Submit_gamepad pkt) =
     (case pkt of None \<Rightarrow> Inr (Some NEARCADE_ERR_INVALID_ARG) | Some p \<Rightarrow> Inl (Sg_slot p))"
| "input_enter abi (Submit_kbm viewer_id etype key dx dy) = Inl (Kbm_device etype key dx dy)"
| "input_enter abi (Flush_slot slot) = Inl (Fl_device slot)"
| "input_enter abi (Alloc_slot env slot vendor product version name) =
     (if unat slot \<ge> MAX_SLOTS then Inr (Some NEARCADE_ERR_INVALID_ARG)
      else Inl (Al_old env slot (gamepad_dev abi vendor product version (device_name name)) (device_name name)))"
| "input_enter abi (Free_slot slot) =
     (if unat slot \<ge> MAX_SLOTS then Inr (Some NEARCADE_ERR_INVALID_ARG) else Inl (Fr_device slot))"
| "input_enter abi Shutdown_input = Inl (Sh_slot 0)"

definition destroy_calls :: "int \<Rightarrow> syscall list" where
  "destroy_calls fd = [Sys_ioctl fd UI_DEV_DESTROY, Sys_close fd]"

text \<open>The calls of an allocation after \<open>open\<close> has succeeded.\<close>

definition setup_device :: "uinput_env \<Rightarrow> int \<Rightarrow> 8 word \<Rightarrow> uinput_user_dev \<Rightarrow> string \<Rightarrow> input_pc" where
  "setup_device env fd slot uud name =
     Calls (map (Sys_ioctl fd) gamepad_setup @ [Sys_write_dev fd uud])
       (if write_dev_ret env < 0 then Calls [Sys_close fd] (Input_return (Some NEARCADE_ERR_NO_DEVICE))
        else Calls [Sys_ioctl fd UI_DEV_CREATE]
          (if create_ret env < 0 then Calls [Sys_close fd] (Input_return (Some NEARCADE_ERR_NO_DEVICE))
           else Al_store fd slot name))"

fun input_body ::
    "evdev_abi \<Rightarrow> input_pc \<Rightarrow> input_state \<Rightarrow> (input_pc \<times> input_state) + nearcade_error option" where
  "input_body abi (Sg_slot p) st =
     Inl (if unat (pkt_slot p) \<ge> MAX_SLOTS then Input_return (Some NEARCADE_ERR_INVALID_ARG) else Sg_device p, st)"
| "input_body abi (Sg_device p) st =
     Inl (if gp_fds st ! unat (pkt_slot p) < 0 then Input_return (Some NEARCADE_ERR_NO_DEVICE)
          else Emit (gp_fds st ! unat (pkt_slot p)) (gamepad_emits p @ [(EV_SYN, SYN_REPORT, 0)]), st)"
| "input_body abi (Kbm_device etype key dx dy) st =
     Inl (if kbm_fd st < 0 then Input_return (Some NEARCADE_ERR_NO_DEVICE)
          else Emit (kbm_fd st) (kbm_events abi etype key dx dy), st)"
| "input_body abi (Fl_device slot) st =
     Inl (if unat slot < MAX_SLOTS \<and> 0 \<le> gp_fds st ! unat slot
          then Emit (gp_fds st ! unat slot) (flush_emits @ [(EV_SYN, SYN_REPORT, 0)])
          else Input_return (Some NEARCADE_OK), st)"
| "input_body abi (Emit fd es) st =
     Inl (case es of
            [] \<Rightarrow> (Input_return (Some NEARCADE_OK), st)
          | (ty, code, val) # es \<Rightarrow> (Emit fd es, emit fd ty code val st))"
| "input_body abi (Calls cs p) st =
     Inl (case cs of [] \<Rightarrow> (p, st) | c # cs \<Rightarrow> (Calls cs p, sys [c] st))"
| "input_body abi (Al_old env slot uud name) st =
     Inl (if 0 \<le> gp_fds st ! unat slot
          then Calls (destroy_calls (gp_fds st ! unat slot)) (Al_clear env slot uud name)
          else Al_open env slot uud name, st)"
| "input_body abi (Al_clear env slot uud name) st =
     Inl (Al_open env slot uud name, st\<lparr>gp_fds := (gp_fds st)[unat slot := -1]\<rparr>)"
| "input_body abi (Al_open env slot uud name) st =
     Inl (if open_ret env < 0 then Input_return (Some NEARCADE_ERR_PERMISSION)
          else setup_device env (open_ret env) slot uud name,
          sys [Sys_open (open_ret env)] st)"
| "input_body abi (Al_store fd slot name) st =
     Inl (Al_name slot name, st\<lparr>gp_fds := (gp_fds st)[unat slot := fd]\<rparr>)"
| "input_body abi (Al_name slot name) st =
     Inl (Input_return (Some NEARCADE_OK),
          st\<lparr>gp_names := (gp_names st)[unat slot :=
               strncpy name (NEARCADE_DEVICE_NAME_LEN - 1) (gp_names st ! unat slot)]\<rparr>)"
| "input_body abi (Fr_device slot) st =
     Inl (if 0 \<le> gp_fds st ! unat slot then Calls (destroy_calls (gp_fds st ! unat slot)) (Fr_clear slot)
          else Input_return (Some NEARCADE_OK), st)"
| "input_body abi (Fr_clear slot) st = Inl (Fr_name slot, st\<lparr>gp_fds := (gp_fds st)[unat slot := -1]\<rparr>)"
| "input_body abi (Fr_name slot) st =
     Inl (Input_return (Some NEARCADE_OK),
          st\<lparr>gp_names := (gp_names st)[unat slot := zeroed NEARCADE_DEVICE_NAME_LEN]\<rparr>)"
| "input_body abi (Sh_slot slot) st =
     Inl (if slot < MAX_SLOTS
          then if 0 \<le> gp_fds st ! slot then Calls (destroy_calls (gp_fds st ! slot)) (Sh_clear slot)
               else Sh_slot (Suc slot)
          else Sh_kbm, st)"
| "input_body abi (Sh_clear slot) st = Inl (Sh_slot (Suc slot), st\<lparr>gp_fds := (gp_fds st)[slot := -1]\<rparr>)"
| "input_body abi Sh_kbm st =
     Inl (if 0 \<le> kbm_fd st then Calls (destroy_calls (kbm_fd st)) Sh_kbm_clear else Input_return None, st)"
| "input_body abi Sh_kbm_clear st = Inl (Input_return None, st\<lparr>kbm_fd := -1\<rparr>)"
| "input_body abi (Input_return r) st = Inr r"

definition input_object :: "evdev_abi \<Rightarrow> (input_call, input_pc, nearcade_error option, input_state) guarded_object" where
  "input_object abi =
     \<lparr>enter = input_enter abi, body = input_body abi, is_free = (\<lambda>st. input_lock st = Unlocked),
      take_lock = lock_input, give_lock = unlock_input\<rparr>"

text \<open>The calls as the sequential model has them.\<close>

fun input_spec :: "evdev_abi \<Rightarrow> input_call \<Rightarrow> input_state \<Rightarrow> nearcade_error option \<times> input_state" where
  "input_spec abi (Submit_gamepad pkt) st = map_prod Some id (linux_input_submit_gamepad pkt st)"
| "input_spec abi (Submit_kbm viewer_id etype key dx dy) st =
     map_prod Some id (linux_input_submit_kbm abi viewer_id etype key dx dy st)"
| "input_spec abi (Flush_slot slot) st = map_prod Some id (linux_input_flush_slot slot st)"
| "input_spec abi (Alloc_slot env slot vendor product version name) st =
     map_prod Some id (linux_input_alloc_slot abi env slot vendor product version name st)"
| "input_spec abi (Free_slot slot) st = map_prod Some id (linux_input_free_slot slot st)"
| "input_spec abi Shutdown_input st = (None, linux_input_shutdown st)"

text \<open>What a call that reports input writes while the tables are those of \<open>st\<close>.\<close>

fun report :: "evdev_abi \<Rightarrow> input_state \<Rightarrow> input_call \<Rightarrow> syscall list" where
  "report abi st (Submit_gamepad (Some p)) =
     (if unat (pkt_slot p) \<ge> MAX_SLOTS \<or> gp_fds st ! unat (pkt_slot p) < 0 then []
      else ev_calls (gp_fds st ! unat (pkt_slot p)) (pad_report p @ [(EV_SYN, SYN_REPORT, 0)]))"
| "report abi st (Submit_kbm viewer_id etype key dx dy) =
     (if kbm_fd st < 0 then [] else ev_calls (kbm_fd st) (kbm_events abi etype key dx dy))"
| "report abi st (Flush_slot slot) =
     (if unat slot \<ge> MAX_SLOTS \<or> gp_fds st ! unat slot < 0 then []
      else ev_calls (gp_fds st ! unat slot) (flush_emits @ [(EV_SYN, SYN_REPORT, 0)]))"
| "report abi st _ = []"

fun reports_input :: "input_call \<Rightarrow> bool" where
  "reports_input (Submit_gamepad pkt) = True"
| "reports_input (Submit_kbm viewer_id etype key dx dy) = True"
| "reports_input (Flush_slot slot) = True"
| "reports_input _ = False"


section \<open>Facts\<close>

lemma input_object_simps [simp]:
  "enter (input_object abi) = input_enter abi" "body (input_object abi) = input_body abi"
  "is_free (input_object abi) st \<longleftrightarrow> input_lock st = Unlocked"
  "take_lock (input_object abi) = lock_input" "give_lock (input_object abi) = unlock_input"
  by (simp_all add: input_object_def)

lemma unlock_sys_lock: "input_lock st = Unlocked \<Longrightarrow> unlock_input (sys cs (lock_input st)) = sys cs st"
  by (simp add: unlock_input_def lock_input_def sys_def)

lemma submit_gamepad_eq:
  assumes "input_lock st = Unlocked"
  shows "linux_input_submit_gamepad (Some p) st =
    (if unat (pkt_slot p) \<ge> MAX_SLOTS then (NEARCADE_ERR_INVALID_ARG, st)
     else if gp_fds st ! unat (pkt_slot p) < 0 then (NEARCADE_ERR_NO_DEVICE, st)
     else (NEARCADE_OK, sys (ev_calls (gp_fds st ! unat (pkt_slot p)) (pad_report p @ [(EV_SYN, SYN_REPORT, 0)])) st))"
  using linux_input_submit_gamepad_cases(2-4)[of p st] unlock_sys_lock[OF assms] unlock_sys_lock[OF assms, of "[]"]
  by (simp add: gamepad_emits_report not_le not_less)

lemmas input_completes = completes_iff[of "input_object abi" for abi]

lemma emit_lock [simp]: "input_lock (emit fd ty code val st) = input_lock st"
  by (simp add: emit_def)

lemma input_body_lock: "input_body abi p st = Inl (p', st') \<Longrightarrow> input_lock st' = input_lock st"
  by (cases "(abi, p, st)" rule: input_body.cases) (auto split: list.splits)

lemma emits_complete:
  assumes "0 \<le> fd"
  shows "completes (input_object abi) (Emit fd es) st (Some NEARCADE_OK, unlock_input (sys (ev_calls fd es) st))"
proof (induction es arbitrary: st)
  case Nil
  then show ?case by (simp add: input_completes)
next
  case (Cons e es)
  obtain ty code val where e: "e = (ty, code, val)" by (cases e)
  show ?case
    using Cons[of "emit fd ty code val st"] assms
    by (simp add: e input_completes[of _ "Emit fd ((ty, code, val) # es)"] emit_eq)
qed

lemma calls_complete: 
  "completes (input_object abi) (Calls cs p) st x \<longleftrightarrow> completes (input_object abi) p (sys cs st) x"
  by (induction cs arbitrary: st) (simp_all add: input_completes[of _ "Calls cs p" for cs])

lemma return_complete [simp]:
  "completes (input_object abi) (Input_return r) st x \<longleftrightarrow> x = (r, unlock_input st)"
  by (simp add: input_completes)

lemma shutdown_slots_complete:
  assumes "completes (input_object abi) Sh_kbm (shutdown_slots [k..<MAX_SLOTS] st) x" and "k \<le> MAX_SLOTS"
  shows "completes (input_object abi) (Sh_slot k) st x"
  using assms
proof (induction "MAX_SLOTS - k" arbitrary: k st)
  case 0
  then show ?case by (simp add: input_completes[of _ "Sh_slot MAX_SLOTS"])
next
  case (Suc n)
  then have k: "k < MAX_SLOTS" by simp
  then have upt: "[k..<MAX_SLOTS] = k # [Suc k..<MAX_SLOTS]" by (simp add: upt_conv_Cons)
  have n: "n = MAX_SLOTS - Suc k" using Suc.hyps(2) by simp
  show ?case
  proof (cases "0 \<le> gp_fds st ! k")
    case True
    then have "completes (input_object abi) (Sh_slot (Suc k)) (destroy_slot k st) x"
      using Suc.prems k by (intro Suc.hyps(1)[OF n]) (simp_all only: upt shutdown_slots.simps if_True Suc_le_eq)
    then show ?thesis
      using k True
      by (simp add: input_completes[of _ "Sh_slot k"] input_completes[of _ "Sh_clear k"] calls_complete
          destroy_slot_def destroy_calls_def)
  next
    case False
    then have "completes (input_object abi) (Sh_slot (Suc k)) st x"
      using Suc.prems k by (intro Suc.hyps(1)[OF n]) (simp_all only: upt shutdown_slots.simps if_False Suc_le_eq)
    then show ?thesis using k False by (simp add: input_completes[of _ "Sh_slot k"])
  qed
qed

lemma shutdown_complete:
  "completes (input_object abi) (Sh_slot 0) (lock_input st) (None, linux_input_shutdown st)"
  by (rule shutdown_slots_complete)
    (simp_all add: linux_input_shutdown_def Let_def input_completes[of _ Sh_kbm] input_completes[of _ Sh_kbm_clear]
      calls_complete destroy_calls_def del: upt_rec_numeral)

lemma alloc_complete:
  assumes "unat slot < MAX_SLOTS"
  shows "completes (input_object abi)
    (Al_old env slot (gamepad_dev abi vendor product version (device_name name)) (device_name name)) (lock_input st)
    (map_prod Some id (linux_input_alloc_slot abi env slot vendor product version name st))"
proof -
  let ?uud = "gamepad_dev abi vendor product version (device_name name)" and ?n = "device_name name"
  have "completes (input_object abi) (Al_open env slot ?uud ?n) (cleared slot st)
      (map_prod Some id (linux_input_alloc_slot abi env slot vendor product version name st))"
    unfolding linux_input_alloc_slot_eq[OF assms] Let_def
    by (auto simp: input_completes[of _ "Al_open env slot ?uud ?n"] setup_device_def calls_complete
        input_completes[of _ "Al_store fd slot ?n" for fd] input_completes[of _ "Al_name slot ?n"])
  then show ?thesis
    by (simp add: input_completes[of _ "Al_old env slot ?uud ?n"] input_completes[of _ "Al_clear env slot ?uud ?n"]
        calls_complete cleared_def destroy_slot_def destroy_calls_def split: if_splits)
qed

lemma input_call_completes:
  assumes "input_enter abi c = Inl p"
  shows "completes (input_object abi) p (lock_input st) (input_spec abi c st)"
proof (cases c)
  case (Submit_gamepad pkt)
  then obtain q where q: "pkt = Some q" "p = Sg_slot q" using assms by (auto split: option.splits)
  have "map_prod Some id (linux_input_submit_gamepad (Some q) st) =
    (if unat (pkt_slot q) \<ge> MAX_SLOTS then (Some NEARCADE_ERR_INVALID_ARG, unlock_input (lock_input st))
     else if gp_fds st ! unat (pkt_slot q) < 0 then (Some NEARCADE_ERR_NO_DEVICE, unlock_input (lock_input st))
     else (Some NEARCADE_OK, unlock_input (sys (ev_calls (gp_fds st ! unat (pkt_slot q))
       (gamepad_emits q @ [(EV_SYN, SYN_REPORT, 0)])) (lock_input st))))"
    using linux_input_submit_gamepad_cases(2-4)[of q st] by (auto simp: not_le not_less)
  then show ?thesis
    using q Submit_gamepad
    by (simp add: input_completes[of _ "Sg_slot q"] input_completes[of _ "Sg_device q"] emits_complete
        del: ev_calls_Cons)
next
  case (Submit_kbm viewer_id etype key dx dy)
  then show ?thesis
    using assms
    by (auto simp: input_completes[of _ "Kbm_device etype key dx dy"] emits_complete linux_input_submit_kbm_eq)
next
  case (Flush_slot slot)
  then show ?thesis
    using assms
    by (auto simp: input_completes[of _ "Fl_device slot"] emits_complete linux_input_flush_slot_eq
        simp del: ev_calls_Cons)
next
  case (Alloc_slot env slot vendor product version name)
  then show ?thesis using assms by (auto simp: alloc_complete split: if_splits)
next
  case (Free_slot slot)
  then show ?thesis
    using assms
    by (auto simp: input_completes[of _ "Fr_device slot"] input_completes[of _ "Fr_clear slot"]
        input_completes[of _ "Fr_name slot"] calls_complete linux_input_free_slot_def destroy_slot_def
        destroy_calls_def Let_def split: if_splits)
next
  case Shutdown_input
  then show ?thesis using assms by (auto intro: shutdown_complete)
qed

text \<open>Every call gives the lock back.\<close>

lemma input_spec_lock:
  assumes "input_lock st = Unlocked"
  shows "input_lock (snd (input_spec abi c st)) = Unlocked"
proof (cases c)
  case (Submit_gamepad pkt)
  then show ?thesis
    using assms by (cases pkt) (simp_all add: linux_input_submit_gamepad_cases(1) submit_gamepad_eq)
next
  case (Alloc_slot env slot vendor product version name)
  have "input_lock (cleared slot st) = Locked"
    using assms by (simp add: cleared_def destroy_slot_def)
  then show ?thesis
    using assms Alloc_slot
    by (cases "unat slot < MAX_SLOTS")
      (simp_all add: linux_input_alloc_slot_eq linux_input_alloc_slot_def[of abi env slot] Let_def)
next
  case Shutdown_input
  have "input_lock (shutdown_slots is s) = input_lock s" for "is" s
    by (induction "is" arbitrary: s) (simp_all add: destroy_slot_def)
  then show ?thesis using assms Shutdown_input by (simp add: linux_input_shutdown_def Let_def)
qed (use assms in \<open>simp_all add: linux_input_submit_kbm_eq linux_input_flush_slot_eq linux_input_free_slot_def
    destroy_slot_def Let_def\<close>)

interpretation input: atomic_object "input_object abi" "\<lambda>st. input_lock st = Unlocked" "input_spec abi" for abi
proof unfold_locales
  fix st :: input_state and c :: input_call
  assume free: "input_lock st = Unlocked"
  then show "is_free (input_object abi) st" "\<not> is_free (input_object abi) (take_lock (input_object abi) st)"
    by simp_all
  show "enter (input_object abi) c = Inr r \<Longrightarrow> input_spec abi c st = (r, st)" for r
    by (cases c)
      (auto simp: linux_input_submit_gamepad_def linux_input_alloc_slot_def linux_input_free_slot_def
        split: option.splits if_splits)
  show "enter (input_object abi) c = Inl p \<Longrightarrow>
      completes (input_object abi) p (take_lock (input_object abi) st) (input_spec abi c st)" for p
    using input_call_completes[of abi c p st] by simp
  show "input_lock (snd (input_spec abi c st)) = Unlocked" using free by (rule input_spec_lock)
next
  fix s s' :: input_state and p p'
  assume "\<not> is_free (input_object abi) s" "body (input_object abi) p s = Inl (p', s')"
  then show "\<not> is_free (input_object abi) s'" using input_body_lock by fastforce
qed

lemma report_eq:
  assumes "input_lock st = Unlocked" and "reports_input c"
  shows "snd (input_spec abi c st) = sys (report abi st c) st"
proof (cases c)
  case (Submit_gamepad pkt)
  then show ?thesis
    using assms(1)
    by (cases pkt) (simp_all add: linux_input_submit_gamepad_cases(1) submit_gamepad_eq sys_def del: ev_calls_Cons)
qed (use assms in \<open>auto simp: linux_input_submit_kbm_eq linux_input_flush_slot_eq unlock_sys_lock not_le not_less
    simp del: ev_calls_Cons\<close>)

lemma report_sys [simp]: "report abi (sys cs st) c = report abi st c"
  by (cases "(abi, st, c)" rule: report.cases) auto

lemma replay_reports:
  assumes "input_lock st = Unlocked" and "list_all reports_input cs"
  shows "snd (replay (input_spec abi) cs st) = sys (concat (map (report abi st) cs)) st"
  using assms
proof (induction cs arbitrary: st)
  case (Cons c cs)
  then have "snd (input_spec abi c st) = sys (report abi st c) st" by (simp add: report_eq)
  moreover have "snd (replay (input_spec abi) cs (sys (report abi st c) st)) =
      sys (concat (map (report abi (sys (report abi st c) st)) cs)) (sys (report abi st c) st)"
    using Cons by simp
  moreover have "report abi (sys (report abi st c) st) = report abi st" by (simp add: fun_eq_iff)
  ultimately show ?case by (simp add: split_beta Let_def)
qed simp


section \<open>Properties\<close>

text \<open>
  C17. Reports never mix. Any threads submit gamepad packets, keyboard and mouse events and flushes, for
  the same or different devices, and each event is a \<open>write\<close> of its own, between which other
  threads move. What was written whenever \<open>input_lock\<close> is free is a sequence of whole reports, each with
  its synchronisation event, in the order in which the calls returned and with each thread's reports in
  its order; nothing else has changed.
\<close>

theorem reports_never_interleave:
  assumes "input_lock st = Unlocked" and "list_all reports_input (concat css)"
    and "run_machine (input_object abi) sched (machine_start css st) = Some m"
    and "input_lock (shared m) = Unlocked"
  shows "shared m = st\<lparr>trace := trace st @ concat (map (report abi st) (calls_of (history m)))\<rparr>
    \<and> program_order css m"
proof -
  note lin = input.linearizable[OF assms(1,3)]
  have "\<forall>(i, c, r)\<in>set (history m). i < length css"
    using run_machine_threads[OF assms(3)] by (simp add: machine_start_def)
  then have "list_all reports_input (calls_of (history m))"
    by (rule program_order_calls[OF lin(1) _ assms(2)])
  then have "shared m = sys (concat (map (report abi st) (calls_of (history m)))) st"
    using lin(3) assms(4) replay_reports[OF assms(1)] by simp
  with lin(1) show ?thesis by (simp add: sys_def)
qed

definition pad_and_mouse :: "input_call list list" where
  "pad_and_mouse = [[Flush_slot 3], [Submit_kbm ''viewer_0'' ''mousemove'' None 4 (-2)]]"

definition two_devices :: input_state where
  "two_devices = input_static\<lparr>kbm_fd := 5, gp_fds := (replicate 16 (-1))[3 := 7]\<rparr>"

definition mouse_first :: "nat list" where
  "mouse_first = replicate 7 1 @ replicate 24 0"

theorem reports_never_interleave_witness:
  "map_option (length \<circ> trace \<circ> shared) (run_machine (input_object linux_abi) mouse_first
     (machine_start pad_and_mouse two_devices)) = Some 23
   \<and> (\<exists>m. run_machine (input_object linux_abi) mouse_first (machine_start pad_and_mouse two_devices) = Some m
     \<and> trace (shared m) = concat (map (report linux_abi two_devices) (calls_of (history m))))"
proof -
  let ?r = "run_machine (input_object linux_abi) mouse_first (machine_start pad_and_mouse two_devices)"
  have ev: "?r \<noteq> None" "input_lock (shared (the ?r)) = Unlocked"
    "map_option (length \<circ> trace \<circ> shared) ?r = Some 23" by code_simp+
  have st: "input_lock two_devices = Unlocked" "list_all reports_input (concat pad_and_mouse)"
    "trace two_devices = []"
    by (simp_all add: two_devices_def pad_and_mouse_def input_static_def)
  obtain m where m: "?r = Some m" using ev(1) by blast
  then show ?thesis using reports_never_interleave[OF st(1,2) m] ev(2,3) st(3) by simp
qed

text \<open>Allocating and freeing devices and shutting down are linearizable with the rest.\<close>

lemma input_linearizable:
  assumes "input_lock st = Unlocked" and "run_machine (input_object abi) sched (machine_start css st) = Some m"
  shows "program_order css m
    \<and> results_of (history m) = fst (replay (input_spec abi) (calls_of (history m)) st)
    \<and> (input_lock (shared m) = Unlocked \<longrightarrow>
         shared m = snd (replay (input_spec abi) (calls_of (history m)) st))
    \<and> (\<exists>rest m'. run_machine (input_object abi) (sched @ rest) (machine_start css st) = Some m'
         \<and> machine_done m' \<and> input_lock (shared m') = Unlocked)"
  using input.linearizable[OF assms] by simp

end
