(* ===== verification/Sessions_Threads.thy ===== *)
theory Sessions_Threads
  imports Session_Race Guarded_Object
begin

text \<open>
  The sections of \<open>src/webrtc.cpp\<close> under \<open>g_lock\<close>, one access to \<open>g_sessions\<close> or call of the library per
  step: appending a session once it is built, removing that of a viewer that left, applying a
  message to a session, sending a frame to all of them, and clearing them. The threads are the service
  thread, the threads of the application and those that shut the SDK down. What the functions do
  before they take the lock is in their arguments: the session to append, the viewer a message names.
\<close>

datatype session_call =
    Append_session int pc
  | Remove_session int
  | Apply_message rtc_env "string option" "string option"
  | Send_frame "8 word list option"
  | Clear_sessions

datatype session_pc =
    Ap_push int pc
  | Rm_test int nat
  | Rm_erase nat
  | Ms_test rtc_env int string nat
  | Ms_apply rtc_env string nat
  | Fr_next "8 word list" nat
  | Cl_sessions
  | Cl_initialized
  | Session_return "nearcade_error option"

fun session_enter :: "session_call \<Rightarrow> session_pc + nearcade_error option" where
  "session_enter (Append_session viewer_idx h) = Inl (Ap_push viewer_idx h)"
| "session_enter (Remove_session viewer_idx) = Inl (Rm_test viewer_idx 0)"
| "session_enter (Apply_message env viewer_id data) =
     (case (viewer_id, data) of
        (Some vid, Some d) \<Rightarrow>
          (case sscanf_viewer vid of
             None \<Rightarrow> Inr (Some NEARCADE_ERR_INVALID_ARG)
           | Some viewer_idx \<Rightarrow>
               if viewer_idx < 0 then Inr (Some NEARCADE_ERR_INVALID_ARG) else Inl (Ms_test env viewer_idx d 0))
      | _ \<Rightarrow> Inr (Some NEARCADE_ERR_INVALID_ARG))"
| "session_enter (Send_frame data) =
     (case data of
        None \<Rightarrow> Inr (Some NEARCADE_ERR_INVALID_ARG)
      | Some bin \<Rightarrow> if length bin = 0 then Inr (Some NEARCADE_ERR_INVALID_ARG) else Inl (Fr_next bin 0))"
| "session_enter Clear_sessions = Inl Cl_sessions"

fun session_body :: "session_pc \<Rightarrow> webrtc \<Rightarrow> (session_pc \<times> webrtc) + nearcade_error option" where
  "session_body (Ap_push viewer_idx h) wr =
     Inl (Session_return None, wr\<lparr>g_sessions := g_sessions wr @ [new_session viewer_idx h]\<rparr>)"
| "session_body (Rm_test viewer_idx i) wr =
     Inl (if i < length (g_sessions wr)
          then if sess_viewer_idx (g_sessions wr ! i) = viewer_idx then Rm_erase i else Rm_test viewer_idx (Suc i)
          else Session_return None, wr)"
| "session_body (Rm_erase i) wr =
     Inl (Session_return None,
          rtc (free_session (g_sessions wr ! i))
            (wr\<lparr>g_sessions := take i (g_sessions wr) @ drop (Suc i) (g_sessions wr)\<rparr>))"
| "session_body (Ms_test env viewer_idx data i) wr =
     Inl (if i < length (g_sessions wr)
          then if sess_viewer_idx (g_sessions wr ! i) = viewer_idx then Ms_apply env data i
               else Ms_test env viewer_idx data (Suc i)
          else Session_return (Some NEARCADE_ERR_INVALID_ARG), wr)"
| "session_body (Ms_apply env data i) wr =
     Inl (case sess_pc (g_sessions wr ! i) of
            None \<Rightarrow> (Session_return (Some NEARCADE_ERR_INVALID_ARG), wr)
          | Some h \<Rightarrow> (let (rc, cs) = remote_message env h data in (Session_return (Some rc), rtc cs wr)))"
| "session_body (Fr_next bin i) wr =
     Inl (if i < length (g_sessions wr)
          then (Fr_next bin (Suc i),
                case video_track (g_sessions wr ! i) of
                  Some t \<Rightarrow> if connected (g_sessions wr ! i) then rtc [R_send t bin] wr else wr
                | None \<Rightarrow> wr)
          else (Session_return (Some NEARCADE_OK), wr))"
| "session_body Cl_sessions wr =
     Inl (Cl_initialized, rtc (concat (map free_session (g_sessions wr))) (wr\<lparr>g_sessions := []\<rparr>))"
| "session_body Cl_initialized wr = Inl (Session_return None, wr\<lparr>g_initialized := False\<rparr>)"
| "session_body (Session_return r) wr = Inr r"

definition session_object :: "(session_call, session_pc, nearcade_error option, webrtc) guarded_object" where
  "session_object =
     \<lparr>enter = session_enter, body = session_body, is_free = (\<lambda>wr. g_lock wr = Unlocked),
      take_lock = lock_guard, give_lock = end_guard\<rparr>"

text \<open>The calls as the sequential model has them.\<close>

fun session_spec :: "session_call \<Rightarrow> webrtc \<Rightarrow> nearcade_error option \<times> webrtc" where
  "session_spec (Append_session viewer_idx h) wr = (None, push_session viewer_idx h wr)"
| "session_spec (Remove_session viewer_idx) wr = (None, webrtc_viewer_left viewer_idx wr)"
| "session_spec (Apply_message env viewer_id data) wr =
     map_prod Some id (webrtc_handle_signaling env viewer_id data wr)"
| "session_spec (Send_frame data) wr = map_prod Some id (webrtc_send_h264 data wr)"
| "session_spec Clear_sessions wr = (None, webrtc_shutdown wr)"


section \<open>Facts\<close>

lemma session_object_simps [simp]:
  "enter session_object = session_enter" "body session_object = session_body"
  "is_free session_object wr \<longleftrightarrow> g_lock wr = Unlocked"
  "take_lock session_object = lock_guard" "give_lock session_object = end_guard"
  by (simp_all add: session_object_def)

lemmas session_completes = completes_iff[of session_object]

lemma session_body_lock: "session_body p wr = Inl (p', wr') \<Longrightarrow> g_lock wr' = g_lock wr"
  by (cases "(p, wr)" rule: session_body.cases)
    (auto simp: split_beta split: option.splits if_splits)

lemma remove_completes:
  "completes session_object (Rm_test i 0) (lock_guard wr) (None, webrtc_viewer_left i wr)"
proof (rule search_completes[where xs = "g_sessions wr" and P = "\<lambda>s. sess_viewer_idx s = i" and found = Rm_erase
      and none = "Session_return None"])
  show "body session_object (Rm_test i k) (lock_guard wr) =
      Inl (if k < length (g_sessions wr) then if sess_viewer_idx (g_sessions wr ! k) = i then Rm_erase k
        else Rm_test i (Suc k) else Session_return None, lock_guard wr)" for k
    by simp
next
  fix k
  assume "first_index (\<lambda>s. sess_viewer_idx s = i) (g_sessions wr) = Some k"
  then show "completes session_object (Rm_erase k) (lock_guard wr) (None, webrtc_viewer_left i wr)"
    by (simp add: session_completes webrtc_viewer_left_def Let_def)
next
  assume "first_index (\<lambda>s. sess_viewer_idx s = i) (g_sessions wr) = None"
  then show "completes session_object (Session_return None) (lock_guard wr) (None, webrtc_viewer_left i wr)"
    by (simp add: session_completes webrtc_viewer_left_def Let_def)
qed

lemma message_completes:
  assumes "sscanf_viewer vid = Some i" and "0 \<le> i"
  shows "completes session_object (Ms_test env i d 0) (lock_guard wr)
    (map_prod Some id (webrtc_handle_signaling env (Some vid) (Some d) wr))"
proof (rule search_completes[where xs = "g_sessions wr" and P = "\<lambda>s. sess_viewer_idx s = i"
      and found = "Ms_apply env d" and none = "Session_return (Some NEARCADE_ERR_INVALID_ARG)"])
  show "body session_object (Ms_test env i d k) (lock_guard wr) =
      Inl (if k < length (g_sessions wr) then if sess_viewer_idx (g_sessions wr ! k) = i then Ms_apply env d k
        else Ms_test env i d (Suc k) else Session_return (Some NEARCADE_ERR_INVALID_ARG), lock_guard wr)" for k
    by simp
next
  fix k
  assume "first_index (\<lambda>s. sess_viewer_idx s = i) (g_sessions wr) = Some k"
  then show "completes session_object (Ms_apply env d k) (lock_guard wr)
      (map_prod Some id (webrtc_handle_signaling env (Some vid) (Some d) wr))"
    using assms
    by (cases "sess_pc (g_sessions wr ! k)")
      (simp_all add: session_completes webrtc_handle_signaling_def session_idx_for_viewer_def split_beta Let_def)
next
  assume "first_index (\<lambda>s. sess_viewer_idx s = i) (g_sessions wr) = None"
  then show "completes session_object (Session_return (Some NEARCADE_ERR_INVALID_ARG)) (lock_guard wr)
      (map_prod Some id (webrtc_handle_signaling env (Some vid) (Some d) wr))"
    using assms
    by (simp add: session_completes webrtc_handle_signaling_def session_idx_for_viewer_def Let_def)
qed

text \<open>What is sent to the sessions from the \<open>i\<close>-th on.\<close>

definition sends_to :: "8 word list \<Rightarrow> webrtc_session list \<Rightarrow> rtc_call list" where
  "sends_to bin ss = concat (map (\<lambda>s. case video_track s of
     Some t \<Rightarrow> if connected s then [R_send t bin] else [] | None \<Rightarrow> []) ss)"

lemma frame_completes:
  "i \<le> length (g_sessions wr) \<Longrightarrow> completes session_object (Fr_next bin i) wr
    (Some NEARCADE_OK, end_guard (rtc (sends_to bin (drop i (g_sessions wr))) wr))"
proof (induction "length (g_sessions wr) - i" arbitrary: i wr)
  case 0
  then show ?case by (simp add: session_completes sends_to_def rtc_Nil)
next
  case (Suc n)
  let ?s = "g_sessions wr ! i"
  let ?wr = "case video_track ?s of Some t \<Rightarrow> if connected ?s then rtc [R_send t bin] wr else wr | None \<Rightarrow> wr"
  have i: "i < length (g_sessions wr)" using Suc.hyps(2) by simp
  have ss: "g_sessions ?wr = g_sessions wr" by (simp split: option.split)
  have "completes session_object (Fr_next bin (Suc i)) ?wr
      (Some NEARCADE_OK, end_guard (rtc (sends_to bin (drop (Suc i) (g_sessions ?wr))) ?wr))"
    using Suc.hyps(2) i by (intro Suc.hyps(1)) (simp_all add: ss)
  moreover have "rtc (sends_to bin (drop (Suc i) (g_sessions ?wr))) ?wr = rtc (sends_to bin (drop i (g_sessions wr))) wr"
    unfolding ss Cons_nth_drop_Suc[OF i, symmetric]
    by (simp add: sends_to_def rtc_def split: option.split)
  ultimately show ?case using i by (simp add: session_completes[of "Fr_next bin i"])
qed

lemma session_call_completes:
  assumes "session_enter c = Inl p"
  shows "completes session_object p (lock_guard wr) (session_spec c wr)"
proof (cases c)
  case (Append_session viewer_idx h)
  then show ?thesis using assms by (auto simp: session_completes[of "Ap_push viewer_idx h"]
        session_completes[of "Session_return r" for r] push_session_def Let_def)
next
  case (Remove_session viewer_idx)
  then show ?thesis using assms by (auto simp: remove_completes)
next
  case (Apply_message env viewer_id data)
  then show ?thesis using assms by (auto simp: message_completes split: option.splits if_splits)
next
  case (Send_frame data)
  then obtain bin where "data = Some bin" "bin \<noteq> []" "p = Fr_next bin 0"
    using assms by (auto split: option.splits if_splits)
  then show ?thesis
    using Send_frame frame_completes[of 0 "lock_guard wr" bin]
    by (simp add: webrtc_send_h264_def sends_to_def Let_def)
next
  case Clear_sessions
  then show ?thesis
    using assms by (auto simp: session_completes[of Cl_sessions] session_completes[of Cl_initialized]
        session_completes[of "Session_return r" for r] webrtc_shutdown_def Let_def)
qed

lemma session_spec_lock:
  assumes "g_lock wr = Unlocked"
  shows "g_lock (snd (session_spec c wr)) = Unlocked"
proof -
  have g: "g_lock (end_guard x) = nearcade_mutex_unlock (g_lock x)" "g_lock (lock_guard wr) = Locked" for x
    using assms by (simp_all add: end_guard_def lock_guard_def)
  show ?thesis
    using assms
    by (cases c)
      (auto simp: g push_session_def webrtc_viewer_left_def webrtc_handle_signaling_def webrtc_send_h264_def
        webrtc_shutdown_def Let_def split_beta split: option.split)
qed

interpretation sessions: atomic_object session_object "\<lambda>wr. g_lock wr = Unlocked" session_spec
proof unfold_locales
  fix wr :: webrtc and c :: session_call
  assume free: "g_lock wr = Unlocked"
  then show "is_free session_object wr" "\<not> is_free session_object (take_lock session_object wr)"
    by (simp_all add: lock_guard_def)
  show "enter session_object c = Inr r \<Longrightarrow> session_spec c wr = (r, wr)" for r
    by (cases c) (auto simp: webrtc_handle_signaling_def webrtc_send_h264_def split: option.splits if_splits)
  show "enter session_object c = Inl p \<Longrightarrow> completes session_object p (take_lock session_object wr) (session_spec c wr)" for p
    using session_call_completes[of c p wr] by simp
  show "g_lock (snd (session_spec c wr)) = Unlocked" using free by (rule session_spec_lock)
next
  fix s s' :: webrtc and p p'
  assume "\<not> is_free session_object s" "body session_object p s = Inl (p', s')"
  then show "\<not> is_free session_object s'" using session_body_lock by fastforce
qed


section \<open>Properties\<close>

text \<open>
  C19. The sessions are linearizable. Threads that append a session, remove that of a viewer that left,
  apply messages, send frames and clear all sessions, with every access to the list and every
  library call a step of its own, get the results and leave the sessions and the library calls of the
  sequential functions called one after the other, in the order in which they return and with
  each thread's calls in its order. Every run can be continued to its end with \<open>g_lock\<close> free.
\<close>

theorem sessions_linearizable:
  assumes "g_lock wr = Unlocked" and "run_machine session_object sched (machine_start css wr) = Some m"
  shows "program_order css m
    \<and> results_of (history m) = fst (replay session_spec (calls_of (history m)) wr)
    \<and> (g_lock (shared m) = Unlocked \<longrightarrow>
         shared m = snd (replay session_spec (calls_of (history m)) wr))
    \<and> (\<exists>rest m'. run_machine session_object (sched @ rest) (machine_start css wr) = Some m'
         \<and> machine_done m' \<and> g_lock (shared m') = Unlocked)"
  using sessions.linearizable[OF assms] by simp

definition join_send_stop :: "session_call list list" where
  "join_send_stop =
     [[Append_session 0 0, Remove_session 0], [Send_frame (Some [1]),
       Apply_message \<lparr>description_ok = \<lambda>_. True, candidate_ok = \<lambda>_. True\<rparr> None None],
      [Clear_sessions]]"

lemma join_send_stop_runs:
  "run_machine session_object [0, 0, 0, 1, 1, 1, 1, 1, 2, 2, 2, 2, 0] (machine_start join_send_stop webrtc_static) \<noteq> None"
  by code_simp

theorem sessions_linearizable_witness:
  "\<exists>m. run_machine session_object [0, 0, 0, 1, 1, 1, 1, 1, 2, 2, 2, 2, 0] (machine_start join_send_stop webrtc_static) = Some m
    \<and> program_order join_send_stop m"
proof -
  have free: "g_lock webrtc_static = Unlocked" by (simp add: webrtc_static_def)
  obtain m where m: "run_machine session_object [0, 0, 0, 1, 1, 1, 1, 1, 2, 2, 2, 2, 0]
      (machine_start join_send_stop webrtc_static) = Some m"
    using join_send_stop_runs by blast
  then show ?thesis using sessions_linearizable[OF free m] by blast
qed

end
