(* ===== verification/Spec2Isabelle.thy ===== *)
theory Spec2Isabelle
  imports Godot_Runs Test_Basic Signaling_Thread Signaling_Fragments Session_Race Session_Failure Capture_Race Input_Reports Locking Sdk_Down
    Slots_Threads Queue_Threads Registry_Threads Input_Threads Sessions_Threads
begin

text \<open>
  Verification of the Nearcade SDK, a C library that streams a game to remote viewers and feeds
  their input back as local devices.

  \<^bold>\<open>The program.\<close> The application calls the public API of \<open>include/nearcade.h\<close>, implemented in
  \<open>src/nearcade.c\<close>, which starts and stops four components and wires them together:
  \<^item> the input backend (\<open>src/input_linux.c\<close>, uinput devices; \<open>src/input_win.c\<close> and
    \<open>src/input_mac.c\<close> are stubs), chosen by \<open>CMakeLists.txt\<close>;
  \<^item> the legacy capture (\<open>src/capture.c\<close>), an FFmpeg child process;
  \<^item> the signaling server (\<open>src/signaling.c\<close>), libwebsockets connections of one host and up to 64
    viewers, serviced by a thread of its own;
  \<^item> the WebRTC sessions (\<open>src/webrtc.cpp\<close>), one libdatachannel peer connection per viewer.

  A viewer that connects to the signaling server gets a session; its signaling messages go to the
  session and to the application; what its session produces goes back through the server; gamepad
  packets that arrive on its data channel go to the input backend and to the application.

  Godot games use the C API through the class \<open>NearcadeSDK\<close> of \<open>bindings/godot/src\<close>, which queues
  the events until a script polls for them.

  \<^bold>\<open>The theories.\<close>
  \<^item> \<open>Prelude\<close>: the collections of rewrite rules, \<open>first_index\<close> (a C search loop), tables
    under updates, 32-bit wrap-around.
  \<^item> \<open>Thread_Compat\<close>: the mutex of \<open>src/thread_compat.h\<close> as an automaton in which locking
    twice, unlocking a free mutex and using an uninitialised one are an error state; its
    Windows variant, related to it; the creation of threads.
  \<^item> \<open>C_Library\<close>: character buffers and the functions of the C library the code uses
    (\<open>strncpy\<close>, \<open>snprintf\<close> with \<open>%d\<close> and \<open>%04d\<close>, \<open>strtol\<close>, \<open>sscanf\<close> with \<open>%d\<close>,
    \<open>strstr\<close>), with round trips and termination.
  \<^item> \<open>Nearcade_Types\<close>: \<open>include/nearcade.h\<close>; the 16-byte packet layout; viewer names.
  \<^item> \<open>Slot_Table\<close>, \<open>Slots\<close>: the contract of a first-fit table as the locale \<open>slot_table\<close>; the
    slot manager of \<open>src/nearcade_internal.h\<close> is one interpretation, the viewer registry of the
    signaling server another.
  \<^item> \<open>Input_Linux\<close>, \<open>Input_Stubs\<close>, \<open>Input_Backend\<close>: the three backends, every system call
    recorded; the life-cycle contract as the locale \<open>input_backend\<close>, interpreted for each.
  \<^item> \<open>Input_Reports\<close>: flushing against a packet at rest, the public button masks.
  \<^item> \<open>Capture\<close>: the child process and its command line; \<open>Capture_Race\<close>: two threads that start it.
  \<^item> \<open>Signaling\<close>: the server's whole callback, its senders, start and shutdown;
    \<open>Signaling_Thread\<close>: the service thread against shutdown as an interleaving of steps;
    \<open>Signaling_Fragments\<close>: the protocol table, and messages longer than its receive buffer.
  \<^item> \<open>Webrtc\<close>: sessions, message parsing, the session callbacks; \<open>Session_Race\<close>: a viewer that
    joins while the SDK shuts down; \<open>Session_Failure\<close>: a session whose construction throws.
  \<^item> \<open>Nearcade_Core\<close>: \<open>src/nearcade.c\<close>, every function.
  \<^item> \<open>Sdk_Runs\<close>: all API calls and library callbacks as steps, the reachable states, and the
    invariant that every step keeps. The properties of whole runs are in this theory.
    \<open>Sdk_Events\<close>: what a step hands to the application's callback; \<open>Sdk_Down\<close>: calls made while the
    SDK is down, followed by any calls at all.
  \<^item> \<open>Bounded_Fifo\<close>: the contract of a bounded queue as the locale \<open>bounded_fifo\<close>.
    \<open>Godot\<close>: the binding, whose event queue interprets it; \<open>Godot_Runs\<close>: runs of the binding,
    as steps over the model of the SDK.
  \<^item> \<open>Shutdown_Race\<close>: the atomic flags of \<open>src/atomic_compat.h\<close>, and two calls of
    \<open>nearcade_shutdown\<close> that interleave at their accesses.
  \<^item> \<open>Lock_Order\<close>: pools of threads that take locks, access shared variables and call back; the
    contract of ordered locks and guarded variables as the locale \<open>lock_order\<close>. \<open>Locking\<close>: what every
    function of the SDK and the binding does with locks and shared variables, on every branch, and
    the two interpretations of the contract: for all calls, and with guarded variables for the calls
    of a started SDK. A thread's branches are chosen by arguments, the library's locks are arguments.
  \<^item> \<open>Guarded_Object\<close>: threads that call the operations of an object under one mutex, one access to
    the shared state per step; the contract of such an object as the locale \<open>atomic_object\<close>, from which
    linearizability is proved once. \<open>Registry_Threads\<close> (\<open>g_ws_lock\<close>), \<open>Sessions_Threads\<close> (\<open>g_lock\<close>),
    \<open>Input_Threads\<close> (\<open>input_lock\<close>), \<open>Queue_Threads\<close> (\<open>queue_mutex\<close>) and \<open>Slots_Threads\<close>
    (\<open>slots.lock\<close>) have the code's sections step by step and interpret it, with the functions of the
    sequential theories as its specification.
  \<^item> \<open>Test_Basic\<close>: \<open>test/test_basic.c\<close> as one run with its assertions.

  \<^bold>\<open>State and environment.\<close> A function of the code is a function of the model with the same name
  (a backend's with its platform in front) that takes and returns the file-level state as a
  record. What the operating system or a library answers is an argument: return values of
  \<open>open\<close>, \<open>write\<close>, \<open>ioctl\<close>, \<open>fork\<close>, \<open>waitpid\<close>, \<open>popen\<close>, \<open>getifaddrs\<close>, \<open>rand\<close>,
  \<open>lws_create_context\<close>, \<open>lws_write\<close>, which descriptions libdatachannel accepts. The calls made
  are kept in a trace, over which the properties are stated: which descriptors, children, contexts and
  peer connections are live, and that none is used after its release. Where a property relies on a
  promise of the environment (\<open>open\<close> returns no descriptor in use, libwebsockets announces a
  connection once) the promise is a hypothesis. Function pointers between components are arguments of
  the definitions that call them and are instantiated in \<open>Nearcade_Core\<close> and \<open>Sdk_Runs\<close>.

  \<^bold>\<open>What is shown.\<close> Input: a gamepad packet produces exactly the report it encodes, every event is of a
  kind the device announced, flushing neutralises a pad, descriptors balance over any session.
  Capture: at most one child, none left behind, exact arguments. Signaling: the registry is
  consistent over any run, messages and replies are dispatched to the right connection, escaped
  text is safe and decodes to the original, contexts balance, the service thread exits. WebRTC:
  peer connections balance, candidates arrive unchanged, packets decode to what was sent. Core: start
  rolls back completely on every failure, PIN, URL, address and log level. Whole runs: nothing is leaked
  whenever the SDK is down, sessions are those of the registered viewers, no path leaves a mutex
  locked, events are well formed. Godot: a run of the binding is a run of the SDK, no destroyed object
  is used, the queue is first in first out and loses only what does not fit, polling ends and emits
  declared signals only, packets pass through dictionaries unchanged. Threads: no set of calls deadlocks, every
  run ends, the state that has a lock is free of data races, the event callback is entered with no mutex
  held, the lock operations are those of the sequential model, and what the threads do inside the five mutexes
  is what the sequential functions do one after the other: input reports never mix, events keep their order, the
  count of viewers is that of the table. Test: which assertions hold where.
  Several theorems state defects exactly: video is never sent, relayed gamepads never find a
  device, session descriptions lose their line breaks, long answers are sent cut, long messages are
  taken apart, packet types are ignored, a second start leaks a device, shutdown races with the
  service thread, with itself and with a joining viewer, two starts of the capture leave a child,
  so does one made while the SDK is down,
  state that is accessed without its lock races, a destroyed Godot object stays registered.

  \<^bold>\<open>Bounds.\<close> No definition uses fuel: loops are structural recursion or searches over fixed tables;
  the polling loop of the Godot demo is a partial function that is shown to return.
  The four steps in the theorem on the service thread bound its loop from any point. A run of a pool of
  threads has as many steps as its calls have operations; the service thread's loop is any finite
  number of rounds.

  \<^bold>\<open>Not modelled.\<close> The text of log messages and what the test prints besides events; weak memory
  (atomic accesses interleave, and so do the accesses inside the five mutexes; everything else runs in
  steps that mutexes separate); the memory behind pointers other
  than the buffers above; the bodies of libwebsockets, libdatachannel and godot-cpp, which are
  not in the repository: outside \<open>Session_Failure\<close>, which ends where the exception leaves \<open>webrtc.cpp\<close>,
  objects are taken to be constructed without exceptions; strings and
  the conversion of a \<open>Variant\<close> are parameters; in the sequential runs application callbacks and script
  handlers that call the API again (in \<open>Locking\<close> a callback may do anything that takes no lock ordered
  before the library's). How the bytes of the PIN mix when one thread copies it while another regenerates it, and
  the buffers of the address and the configuration, are not followed; that two threads can be at the PIN at once is in \<open>Locking\<close>.
  The sections of \<open>nearcade_disconnect_viewer\<close> and of the two setters, which run under \<open>viewer_lock\<close> and take
  other locks inside, are in \<open>Locking\<close> only.
  The prototypes in the headers, the Unity and Unreal notes, build files
  and generated files have nothing to model.
\<close>


section \<open>Properties of whole runs\<close>



text \<open>
  C2. The two sides agree on who is there. In every reachable state of a running SDK the WebRTC
  sessions are exactly those of the viewers the signaling server has registered, one each, and
  their number is the server's count; every mutex of the program is free between steps, so no
  path of any function forgets to unlock or locks twice.
\<close>

theorem sessions_match_viewers:
  assumes "sdk_reachable b abi s" and "running (g_state s)"
  shows "distinct (session_viewers (wrtc s))
    \<and> set (session_viewers (wrtc s)) = int ` {i. viewer_at (sig s) i \<noteq> None}
    \<and> int (length (g_sessions (wrtc s))) = g_num_viewers (sig s)
    \<and> input_lock (inputs s) = Unlocked \<and> g_lock (wrtc s) = Unlocked \<and> g_ws_lock (sig s) = Unlocked
    \<and> viewer_lock (g_state s) = Unlocked \<and> slots_lock (slots (g_state s)) = Unlocked"
proof -
  have up: "up b s" using reachable_inv[OF assms(1)] assms(2) by (auto simp: down_def)
  then have link: "linked s" and st: "state_up (g_state s)" and wr: "webrtc_up (wrtc s)"
    and sg: "signaling_up b (sig s)" and inp: "input_up b (inputs s)" by (simp_all add: up_def)
  have reg: "registry_inv (sig s)"
    using sg sig_idle_inv[of "sig s"] by (auto simp: signaling_up_def sig_inv_def split: if_splits)
  have "length (session_viewers (wrtc s)) = card (int ` {i. viewer_at (sig s) i \<noteq> None})"
    using link distinct_card by (fastforce simp: linked_def)
  then have "int (length (g_sessions (wrtc s))) = g_num_viewers (sig s)"
    using num_viewers_card[OF reg] by (simp add: card_image session_viewers_def)
  moreover have "input_lock (inputs s) = Unlocked"
    using inp by (auto simp: input_up_def input_inv_def input_quiet_def split: if_splits)
  ultimately show ?thesis
    using link st wr signaling_up_lock[OF sg]
    by (simp add: linked_def state_up_def slots_inv_def webrtc_up_def webrtc_inv_def)
qed

theorem sessions_match_viewers_witness:
  "int (length (g_sessions (wrtc started))) = g_num_viewers (sig started)
    \<and> g_lock (wrtc started) = Unlocked"
  using sessions_match_viewers[OF started_reachable started_running] by simp

text \<open>
  C39. Relayed gamepads never work. No function of the SDK calls \<open>slot_claim\<close> or
  \<open>input_alloc_slot\<close>, so in every reachable state of a running SDK on Linux every gamepad packet,
  from the application or from a viewer's data channel, is refused with
  \<open>NEARCADE_ERR_NO_DEVICE\<close> or \<open>NEARCADE_ERR_INVALID_ARG\<close>; the viewer table is never filled, so
  setting a viewer's input mode or controller type always fails.
\<close>

theorem gamepads_never_available:
  assumes "sdk_reachable b abi s" and "running (g_state s)" and "plat b = Linux"
  shows "fst (nearcade_submit_gamepad b (Some p) s) \<in> {NEARCADE_ERR_INVALID_ARG, NEARCADE_ERR_NO_DEVICE}
    \<and> nearcade_set_viewer_input_mode v mode s = (NEARCADE_ERR_INVALID_ARG, s)
    \<and> nearcade_set_controller_type v ctrl s = (NEARCADE_ERR_INVALID_ARG, s)"
proof -
  have up: "up b s" using reachable_inv[OF assms(1)] assms(2) by (auto simp: down_def)
  then have "no_gamepads (inputs s)" using assms(3) by (simp add: up_def input_up_def)
  then show ?thesis
    using up_disconnect(2,3)[OF up] no_gamepads_submit(1)[of "inputs s" p] assms(3)
    by (simp add: nearcade_submit_gamepad_def input_submit_gamepad_def split_beta)
qed

theorem gamepads_never_available_witness:
  "fst (nearcade_submit_gamepad linux_build (Some (decode_packet (replicate 16 0))) started)
     \<in> {NEARCADE_ERR_INVALID_ARG, NEARCADE_ERR_NO_DEVICE}"
  using gamepads_never_available[OF started_reachable started_running] by (simp add: linux_build_def)

text \<open>
  A second \<open>nearcade_init\<close> while the SDK runs loses devices: the state is cleared and
  \<open>kbm_fd\<close> overwritten without closing what they held, so that after two starts and a
  shutdown the first keyboard device is still open.
\<close>

lemma second_init_leaks_device:
  "let again = exec_step linux_build linux_abi (S_init (plain_env\<lparr>uinput := env_ok 9\<rparr>) None) started in
   running (g_state again)
   \<and> live {} (trace (inputs (exec_step linux_build linux_abi (S_shutdown (cap_env plain_env)) again))) = {5}"
proof -
  define again where "again = exec_step linux_build linux_abi (S_init (plain_env\<lparr>uinput := env_ok 9\<rparr>) None) started"
  note init = plain_init[of 9 started again, OF _ again_def[symmetric]]
  have inp: "inputs again = snd (linux_input_init linux_abi (env_ok 9) input_started)"
    using init(2) started_facts(2) by simp
  have "kbm_fd (inputs again) = 9" and "live {} (trace (inputs again)) = {5, 9}"
    by (auto simp: inp linux_input_init_def create_kbm_device_def env_ok_def Let_def input_started_live)
  then have "live {} (trace (linux_input_shutdown (inputs again))) = {5}"
    using shutdown_no_gamepads[of "inputs again"] linux_input_init_no_gamepads by (auto simp: inp)
  then show ?thesis
    using init(1) unfolding again_def[symmetric] Let_def
    by (simp add: nearcade_shutdown_def Let_def input_shutdown_def linux_build_def)
qed

end
